(* ===== verification/Sig_Prelude.thy ===== *)
theory Sig_Prelude
  imports Main "HOL-Library.AList" "HOL-Library.Word" "HOL-Library.Code_Target_Numeral"
begin

text \<open>
  Prelude of the development: the collections of simplification rules the component theories
  share, the names of the machine types of the Rust source, and the generic facts on lists,
  options and words that the component proofs use.

  \<^item> \<open>hm_simps\<close>: facts on hash maps (association lists with distinct keys);
  \<^item> \<open>config_simps\<close>: the numeric constants of \<open>src/src/config.rs\<close> and its siblings;
  \<^item> \<open>str_simps\<close>: facts on the model of Rust strings.
\<close>

section \<open>Shared collections and type names\<close>

named_theorems hm_simps
named_theorems config_simps
named_theorems str_simps

type_synonym u8 = "8 word"
type_synonym u16 = "16 word"
type_synonym u32 = "32 word"
type_synonym u64 = "64 word"
type_synonym i64 = "64 word"  \<comment> \<open>read with \<open>sint\<close>\<close>
type_synonym u128 = "128 word"
type_synonym bytes = "8 word list"

text \<open>
  An instant of the monotone clock, in nanoseconds. Both \<open>Instant::elapsed\<close> and
  \<open>Instant::duration_since\<close> saturate at zero, as subtraction on \<open>nat\<close> does.
\<close>

type_synonym instant = nat

definition from_secs :: "nat \<Rightarrow> nat" where
  "from_secs n = n * 1000000000"

section \<open>Rust integer operations\<close>

text \<open>\<open>u64::saturating_add\<close> and \<open>u64::saturating_sub\<close>, on a word of any width.\<close>

definition saturating_add :: "'a::len word \<Rightarrow> 'a word \<Rightarrow> 'a word" where
  "saturating_add a b = (if unat a + unat b < 2 ^ LENGTH('a) then a + b else - 1)"

definition saturating_sub :: "'a::len word \<Rightarrow> 'a word \<Rightarrow> 'a word" where
  "saturating_sub a b = (if b \<le> a then a - b else 0)"

lemma unat_saturating_add:
  "unat (saturating_add a b) = min (unat a + unat b) (2 ^ LENGTH('a) - 1)"
  for a b :: "'a::len word"
  by (auto simp: saturating_add_def unat_word_ariths unsigned_minus_1_eq_mask mask_eq_exp_minus_1)

lemma unat_saturating_sub [simp]: "unat (saturating_sub a b) = unat a - unat b"
  by (auto simp: saturating_sub_def unat_sub word_le_nat_alt)

lemma unat_bound: "unat a \<le> 2 ^ LENGTH('a) - 1" for a :: "'a::len word"
proof -
  have "unat a < 2 ^ LENGTH('a)" by (rule unsigned_less)
  then show ?thesis by linarith
qed

lemma saturating_add_ge: "a \<le> saturating_add a b"
  unfolding word_le_nat_alt unat_saturating_add
  using unat_bound [of a] by simp

section \<open>Lists\<close>

lemma length_removeAll_notin [simp]: "x \<notin> set xs \<Longrightarrow> removeAll x xs = xs"
  by (simp add: removeAll_id)

lemma count_list_le_length: "count_list xs x \<le> length xs"
  by (induction xs) auto

lemma length_Suc_remove1: "x \<in> set xs \<Longrightarrow> Suc (length (remove1 x xs)) = length xs"
  using length_pos_if_in_set [of x xs] by (simp add: length_remove1)

lemma takeWhile_append_stop:
  "\<forall>x \<in> set xs. P x \<Longrightarrow> ys = [] \<or> \<not> P (hd ys) \<Longrightarrow>
   takeWhile P (xs @ ys) = xs \<and> dropWhile P (xs @ ys) = ys"
  by (cases ys) (auto simp: takeWhile_append2 dropWhile_append2)

section \<open>Transition systems and their invariants\<close>

text \<open>
  The contract of a component that moves by steps: the invariant holds at the start and every
  step keeps it. Its consequence for every reachable state is proved here once.
\<close>

locale step_system =
  fixes start :: "'s \<Rightarrow> bool"
    and step :: "'s \<Rightarrow> 's \<Rightarrow> bool"
    and inv :: "'s \<Rightarrow> bool"
  assumes start_inv: "start s \<Longrightarrow> inv s"
    and step_inv: "step s t \<Longrightarrow> inv s \<Longrightarrow> inv t"
begin

lemma run_inv: "step\<^sup>*\<^sup>* s t \<Longrightarrow> inv s \<Longrightarrow> inv t"
  by (induction rule: rtranclp_induct) (auto intro: step_inv)

lemma reachable_inv: "start s \<Longrightarrow> step\<^sup>*\<^sup>* s t \<Longrightarrow> inv t"
  using run_inv start_inv by blast

end

end
