(* ===== verification/Hash_Map.thy ===== *)
theory Hash_Map
  imports Sig_Prelude
begin

text \<open>
  The model of \<open>std::collections::HashMap\<close> and \<open>HashSet\<close>. A map is an association list
  whose keys are distinct; the order of the list is the (unspecified) iteration order of the
  Rust table, so a statement about every association list covers every iteration order.

  The locale \<open>hash_map\<close> is the contract the components rely on; it is interpreted on the
  list operations below.
\<close>

section \<open>Operations\<close>

type_synonym ('k, 'v) hashmap = "('k \<times> 'v) list"

definition hm_wf :: "('k, 'v) hashmap \<Rightarrow> bool" where
  "hm_wf m \<longleftrightarrow> distinct (map fst m)"

definition hm_get :: "('k, 'v) hashmap \<Rightarrow> 'k \<Rightarrow> 'v option" where
  "hm_get m k = map_of m k"

definition hm_contains :: "('k, 'v) hashmap \<Rightarrow> 'k \<Rightarrow> bool" where
  "hm_contains m k \<longleftrightarrow> hm_get m k \<noteq> None"

definition hm_insert :: "'k \<Rightarrow> 'v \<Rightarrow> ('k, 'v) hashmap \<Rightarrow> ('k, 'v) hashmap" where
  "hm_insert k v m = AList.update k v m"

definition hm_remove :: "'k \<Rightarrow> ('k, 'v) hashmap \<Rightarrow> ('k, 'v) hashmap" where
  "hm_remove k m = AList.delete k m"

definition hm_retain :: "('k \<Rightarrow> 'v \<Rightarrow> bool) \<Rightarrow> ('k, 'v) hashmap \<Rightarrow> ('k, 'v) hashmap" where
  "hm_retain P m = filter (\<lambda>kv. P (fst kv) (snd kv)) m"

definition hm_len :: "('k, 'v) hashmap \<Rightarrow> nat" where
  "hm_len m = length m"

definition hm_keys :: "('k, 'v) hashmap \<Rightarrow> 'k list" where
  "hm_keys m = map fst m"

definition hm_values :: "('k, 'v) hashmap \<Rightarrow> 'v list" where
  "hm_values m = map snd m"

section \<open>The interface\<close>

locale hash_map =
  fixes get :: "'m \<Rightarrow> 'k \<Rightarrow> 'v option"
    and ins :: "'k \<Rightarrow> 'v \<Rightarrow> 'm \<Rightarrow> 'm"
    and del :: "'k \<Rightarrow> 'm \<Rightarrow> 'm"
    and len :: "'m \<Rightarrow> nat"
    and wf :: "'m \<Rightarrow> bool"
  assumes get_ins: "get (ins k v m) k' = (if k' = k then Some v else get m k')"
    and get_del: "get (del k m) k' = (if k' = k then None else get m k')"
    and wf_ins: "wf m \<Longrightarrow> wf (ins k v m)"
    and wf_del: "wf m \<Longrightarrow> wf (del k m)"
    and len_ins: "wf m \<Longrightarrow> len (ins k v m) = (if get m k = None then Suc (len m) else len m)"
    and len_del: "wf m \<Longrightarrow> len (del k m) = (if get m k = None then len m else len m - 1)"
    and len_pos: "get m k = Some v \<Longrightarrow> 0 < len m"
begin

lemma get_ins_same: "get (ins k v m) k = Some v"
  by (simp add: get_ins)

lemma get_ins_other: "k' \<noteq> k \<Longrightarrow> get (ins k v m) k' = get m k'"
  by (simp add: get_ins)

lemma get_del_same: "get (del k m) k = None"
  by (simp add: get_del)

lemma get_del_other: "k' \<noteq> k \<Longrightarrow> get (del k m) k' = get m k'"
  by (simp add: get_del)

lemma del_ins_get: "get m k = None \<Longrightarrow> get (del k (ins k v m)) k' = get m k'"
  by (simp add: get_ins get_del)

lemma len_ins_bound: "wf m \<Longrightarrow> len m < n \<Longrightarrow> len (ins k v m) \<le> n"
  by (simp add: len_ins)

lemma len_replace: "wf m \<Longrightarrow> get m k \<noteq> None \<Longrightarrow> len (ins k v m) = len m"
  by (auto simp: len_ins)

lemma len_del_le: "wf m \<Longrightarrow> len (del k m) \<le> len m"
  by (simp add: len_del)

lemma len_del_present: "wf m \<Longrightarrow> get m k = Some v \<Longrightarrow> Suc (len (del k m)) = len m"
  using len_pos [of m k v] by (simp add: len_del)

end

lemma hm_len_update:
  "distinct (map fst m) \<Longrightarrow>
   length (AList.update k v m) = (if map_of m k = None then Suc (length m) else length m)"
  by (induction m) (auto simp: map_of_eq_None_iff image_iff)

lemma hm_delete_absent: "map_of m k = None \<Longrightarrow> AList.delete k m = m"
  by (induction m) (auto simp: AList.delete_eq split: if_splits)

lemma hm_len_delete:
  "distinct (map fst m) \<Longrightarrow>
   length (AList.delete k m) = (if map_of m k = None then length m else length m - 1)"
proof (induction m)
  case (Cons kv m)
  show ?case
  proof (cases "fst kv = k")
    case True
    with Cons.prems have "map_of m k = None" by (auto simp: map_of_eq_None_iff)
    with True show ?thesis by (cases kv) (simp add: hm_delete_absent)
  next
    case False
    have "map_of m k \<noteq> None \<Longrightarrow> m \<noteq> []" by auto
    with Cons False show ?thesis by (cases kv) auto
  qed
qed simp

interpretation hm: hash_map hm_get hm_insert hm_remove hm_len hm_wf
proof unfold_locales
  fix k :: 'a and v :: 'b and m k'
  show "hm_get (hm_insert k v m) k' = (if k' = k then Some v else hm_get m k')"
    by (simp add: hm_get_def hm_insert_def update_conv')
  show "hm_get (hm_remove k m) k' = (if k' = k then None else hm_get m k')"
    by (simp add: hm_get_def hm_remove_def delete_conv')
  show "hm_wf m \<Longrightarrow> hm_wf (hm_insert k v m)"
    by (simp add: hm_wf_def hm_insert_def distinct_update)
  show "hm_wf m \<Longrightarrow> hm_wf (hm_remove k m)"
    by (simp add: hm_wf_def hm_remove_def distinct_delete)
  show "hm_wf m \<Longrightarrow>
      hm_len (hm_insert k v m) = (if hm_get m k = None then Suc (hm_len m) else hm_len m)"
    unfolding hm_wf_def hm_len_def hm_insert_def hm_get_def by (rule hm_len_update)
  show "hm_wf m \<Longrightarrow>
      hm_len (hm_remove k m) = (if hm_get m k = None then hm_len m else hm_len m - 1)"
    unfolding hm_wf_def hm_len_def hm_remove_def hm_get_def by (rule hm_len_delete)
  show "hm_get m k = Some v \<Longrightarrow> 0 < hm_len m"
    by (cases m) (auto simp: hm_get_def hm_len_def)
qed

lemmas hm_basic [hm_simps] =
  hm.get_ins hm.get_del hm.wf_ins hm.wf_del hm.len_ins hm.len_del

section \<open>Iteration\<close>

lemma hm_wf_empty [simp]: "hm_wf []"
  by (simp add: hm_wf_def)

lemma hm_get_empty [simp]: "hm_get [] k = None"
  by (simp add: hm_get_def)

lemma hm_len_empty [simp]: "hm_len [] = 0"
  by (simp add: hm_len_def)

lemma hm_contains_iff: "hm_contains m k \<longleftrightarrow> k \<in> set (hm_keys m)"
  by (simp add: hm_contains_def hm_get_def hm_keys_def map_of_eq_None_iff)

lemma hm_get_Some_iff: "hm_wf m \<Longrightarrow> hm_get m k = Some v \<longleftrightarrow> (k, v) \<in> set m"
  by (simp add: hm_wf_def hm_get_def)

lemma hm_get_in_set: "hm_get m k = Some v \<Longrightarrow> (k, v) \<in> set m"
  by (simp add: hm_get_def map_of_SomeD)

lemma hm_keys_get: "k \<in> set (hm_keys m) \<longleftrightarrow> (\<exists>v. hm_get m k = Some v)"
  using hm_contains_iff [of m k] by (auto simp: hm_contains_def)

lemma hm_get_None_iff: "hm_get m k = None \<longleftrightarrow> k \<notin> set (hm_keys m)"
  by (simp add: hm_get_def hm_keys_def map_of_eq_None_iff)

lemma hm_values_get: "hm_wf m \<Longrightarrow> v \<in> set (hm_values m) \<longleftrightarrow> (\<exists>k. hm_get m k = Some v)"
  by (force simp: hm_values_def hm_get_Some_iff)

lemma hm_wf_retain [hm_simps]: "hm_wf m \<Longrightarrow> hm_wf (hm_retain P m)"
  by (auto simp: hm_wf_def hm_retain_def distinct_map inj_on_def)

lemma hm_get_retain [hm_simps]:
  "hm_wf m \<Longrightarrow>
   hm_get (hm_retain P m) k =
     (case hm_get m k of None \<Rightarrow> None | Some v \<Rightarrow> if P k v then Some v else None)"
proof (induction m)
  case (Cons kv m)
  then have wf: "hm_wf m" and fresh: "fst kv \<notin> fst ` set m"
    by (auto simp: hm_wf_def)
  then have "hm_get (hm_retain P m) (fst kv) = None"
    by (auto simp: hm_get_def hm_retain_def map_of_eq_None_iff)
  with Cons.IH [OF wf] fresh show ?case
    by (cases kv) (auto simp: hm_get_def hm_retain_def split: option.splits)
qed (simp add: hm_retain_def)

lemma hm_len_retain: "hm_len (hm_retain P m) \<le> hm_len m"
  by (simp add: hm_len_def hm_retain_def)

lemma hm_first_key: "hm_len m \<noteq> 0 \<Longrightarrow> hd (hm_keys m) \<in> set (hm_keys m)"
  by (cases m) (auto simp: hm_keys_def hm_len_def)

lemma hm_len_zero_iff: "hm_len m = 0 \<longleftrightarrow> m = []"
  by (simp add: hm_len_def)

end
