(* ===== verification/Rust_Str.thy ===== *)
theory Rust_Str
  imports Hash_Map
begin

text \<open>
  The part of Rust's \<open>str\<close> the server uses. A string is the list of its Unicode scalar
  values (what \<open>chars()\<close> iterates over); \<open>str_len\<close> is \<open>str::len\<close>, the number of bytes
  of the UTF-8 encoding, and \<open>as_bytes\<close> the encoding itself. Comparing two strings
  byte by byte or scalar by scalar gives the same order.
\<close>

section \<open>Strings and characters\<close>

type_synonym rstr = "nat list"

text \<open>An ASCII literal of the source.\<close>

definition str :: "string \<Rightarrow> rstr" where
  "str s = map of_char s"

definition utf8_len :: "nat \<Rightarrow> nat" where
  "utf8_len c = (if c < 128 then 1 else if c < 2048 then 2 else if c < 65536 then 3 else 4)"

definition str_len :: "rstr \<Rightarrow> nat" where
  "str_len s = sum_list (map utf8_len s)"

definition utf8_char :: "nat \<Rightarrow> bytes" where
  "utf8_char c =
     (if c < 128 then [of_nat c]
      else if c < 2048 then [of_nat (192 + c div 64), of_nat (128 + c mod 64)]
      else if c < 65536 then
        [of_nat (224 + c div 4096), of_nat (128 + c div 64 mod 64), of_nat (128 + c mod 64)]
      else [of_nat (240 + c div 262144), of_nat (128 + c div 4096 mod 64),
            of_nat (128 + c div 64 mod 64), of_nat (128 + c mod 64)])"

definition as_bytes :: "rstr \<Rightarrow> bytes" where
  "as_bytes s = concat (map utf8_char s)"

text \<open>\<open>char::is_control\<close> (category Cc) and \<open>char::is_whitespace\<close> (White\_Space).\<close>

definition is_control :: "nat \<Rightarrow> bool" where
  "is_control c \<longleftrightarrow> c < 32 \<or> 127 \<le> c \<and> c \<le> 159"

definition is_whitespace :: "nat \<Rightarrow> bool" where
  "is_whitespace c \<longleftrightarrow>
     9 \<le> c \<and> c \<le> 13 \<or> c = 32 \<or> c = 133 \<or> c = 160 \<or> c = 5760 \<or> 8192 \<le> c \<and> c \<le> 8202 \<or>
     c = 8232 \<or> c = 8233 \<or> c = 8239 \<or> c = 8287 \<or> c = 12288"

definition is_digit :: "nat \<Rightarrow> bool" where
  "is_digit c \<longleftrightarrow> 48 \<le> c \<and> c \<le> 57"

section \<open>Trimming, splitting, case\<close>

definition trim_start :: "rstr \<Rightarrow> rstr" where
  "trim_start s = dropWhile is_whitespace s"

definition trim_end :: "rstr \<Rightarrow> rstr" where
  "trim_end s = rev (dropWhile is_whitespace (rev s))"

definition trim :: "rstr \<Rightarrow> rstr" where
  "trim s = trim_end (trim_start s)"

text \<open>\<open>split(c)\<close>: at least one piece, empty pieces kept.\<close>

fun split_char :: "nat \<Rightarrow> rstr \<Rightarrow> rstr list" where
  "split_char d [] = [[]]"
| "split_char d (c # s) =
     (if c = d then [] # split_char d s
      else (case split_char d s of [] \<Rightarrow> [[c]] | p # ps \<Rightarrow> (c # p) # ps))"

text \<open>\<open>split_once(pat)\<close> at the first match, \<open>rsplit_once(c)\<close> at the last one.\<close>

fun split_once :: "rstr \<Rightarrow> rstr \<Rightarrow> (rstr \<times> rstr) option" where
  "split_once p [] = (if p = [] then Some ([], []) else None)"
| "split_once p (c # s) =
     (if take (length p) (c # s) = p then Some ([], drop (length p) (c # s))
      else map_option (\<lambda>(a, b). (c # a, b)) (split_once p s))"

definition rsplit_once :: "nat \<Rightarrow> rstr \<Rightarrow> (rstr \<times> rstr) option" where
  "rsplit_once c s = map_option (\<lambda>(a, b). (rev b, rev a)) (split_once [c] (rev s))"

definition strip_prefix :: "nat \<Rightarrow> rstr \<Rightarrow> rstr option" where
  "strip_prefix c s = (case s of [] \<Rightarrow> None | d # r \<Rightarrow> if d = c then Some r else None)"

definition ascii_lower :: "nat \<Rightarrow> nat" where
  "ascii_lower c = (if 65 \<le> c \<and> c \<le> 90 then c + 32 else c)"

definition to_ascii_lowercase :: "rstr \<Rightarrow> rstr" where
  "to_ascii_lowercase s = map ascii_lower s"

text \<open>
  \<open>str::to_lowercase\<close>: on an ASCII string it lowers the letters; on any other string it
  follows the Unicode tables, which are the parameter \<open>uni\<close>.
\<close>

definition to_lowercase :: "(rstr \<Rightarrow> rstr) \<Rightarrow> rstr \<Rightarrow> rstr" where
  "to_lowercase uni s = (if list_all (\<lambda>c. c < 128) s then map ascii_lower s else uni s)"

section \<open>Numbers\<close>

definition digits_val :: "rstr \<Rightarrow> nat" where
  "digits_val ds = foldl (\<lambda>a d. 10 * a + (d - 48)) 0 ds"

text \<open>
  \<open>parse::<u16>()\<close> and its siblings: an optional \<open>+\<close>, then one or more digits whose
  value is at most \<open>bound\<close>.
\<close>

definition parse_uint :: "nat \<Rightarrow> rstr \<Rightarrow> nat option" where
  "parse_uint bound s =
     (let ds = (case s of [] \<Rightarrow> [] | c # r \<Rightarrow> if c = 43 \<and> r \<noteq> [] then r else s)
      in if ds = [] \<or> \<not> list_all is_digit ds then None
         else if digits_val ds \<le> bound then Some (digits_val ds) else None)"

fun show_nat :: "nat \<Rightarrow> rstr" where
  "show_nat n = (if n < 10 then [48 + n] else show_nat (n div 10) @ [48 + n mod 10])"

declare show_nat.simps [simp del]

definition hex_digit :: "nat \<Rightarrow> nat" where
  "hex_digit n = (if n < 10 then 48 + n else 87 + n)"

text \<open>\<open>{byte:02x}\<close> over a slice of bytes, and \<open>{:x}\<close> of a digest.\<close>

definition hex_byte :: "u8 \<Rightarrow> rstr" where
  "hex_byte b = [hex_digit (unat b div 16), hex_digit (unat b mod 16)]"

definition hex_bytes :: "bytes \<Rightarrow> rstr" where
  "hex_bytes bs = concat (map hex_byte bs)"

section \<open>Facts\<close>

lemma str_len_simps [simp]:
  "str_len [] = 0" "str_len (c # s) = utf8_len c + str_len s"
  "str_len (s @ t) = str_len s + str_len t"
  by (simp_all add: str_len_def)

lemma str_eq_iff [simp]: "str s = str t \<longleftrightarrow> s = t"
  by (metis str_def inj_def inj_map_eq_map of_char_eq_iff injI)

lemma utf8_len_bounds: "1 \<le> utf8_len c" "utf8_len c \<le> 4"
  by (simp_all add: utf8_len_def)

lemma length_le_str_len: "length s \<le> str_len s"
proof (induction s)
  case (Cons c s)
  then show ?case using utf8_len_bounds(1) [of c] by simp
qed simp

lemma length_utf8_char: "length (utf8_char c) = utf8_len c"
  by (simp add: utf8_char_def utf8_len_def)

lemma length_as_bytes: "length (as_bytes s) = str_len s"
  by (induction s) (simp_all add: as_bytes_def length_utf8_char)

lemma str_len_sublist: "set s \<subseteq> {..<128} \<Longrightarrow> str_len s = length s"
  by (induction s) (auto simp: utf8_len_def)

lemma as_bytes_inj_ascii:
  assumes "set s \<subseteq> {..<128}" "set t \<subseteq> {..<128}" "as_bytes s = as_bytes t"
  shows "s = t"
  using assms
proof (induction s arbitrary: t)
  case Nil
  then have "length (as_bytes t) = 0" by (metis as_bytes_def concat.simps(1) list.map(1) list.size(3))
  then have "str_len t = 0" by (simp add: length_as_bytes)
  then show ?case using length_le_str_len [of t] by simp
next
  case (Cons c s)
  then obtain d t' where t: "t = d # t'"
    by (cases t) (auto simp: as_bytes_def utf8_char_def)
  with Cons.prems have lt: "c < 128" "d < 128" by auto
  with Cons.prems t have "(of_nat c :: u8) = of_nat d" and eq: "as_bytes s = as_bytes t'"
    by (auto simp: as_bytes_def utf8_char_def)
  then have "unat (of_nat c :: u8) = unat (of_nat d :: u8)" by simp
  with lt have "c = d" by (simp add: unat_of_nat)
  with eq Cons.IH [of t'] Cons.prems t show ?case by auto
qed

lemma trim_subset: "set (trim s) \<subseteq> set s"
  unfolding trim_def trim_end_def trim_start_def
  by (metis set_dropWhileD set_rev subset_iff)

lemma str_len_dropWhile: "str_len (dropWhile P s) \<le> str_len s"
  by (induction s) auto

lemma str_len_rev [simp]: "str_len (rev s) = str_len s"
  by (induction s) auto

lemma str_len_trim: "str_len (trim s) \<le> str_len s"
  using str_len_dropWhile [of is_whitespace "rev (dropWhile is_whitespace s)"]
    str_len_dropWhile [of is_whitespace s]
  by (simp add: trim_def trim_end_def trim_start_def)

lemma hd_trim_end: "trim_end s \<noteq> [] \<Longrightarrow> hd (trim_end s) = hd s"
proof -
  assume ne: "trim_end s \<noteq> []"
  have "s = trim_end s @ rev (takeWhile is_whitespace (rev s))"
    unfolding trim_end_def
    by (metis rev_append rev_rev_ident takeWhile_dropWhile_id)
  with ne show ?thesis by (metis hd_append2)
qed

lemma trim_ends:
  assumes "trim s \<noteq> []"
  shows "\<not> is_whitespace (hd (trim s))" "\<not> is_whitespace (last (trim s))"
proof -
  have ne: "trim_start s \<noteq> []" using assms by (auto simp: trim_def trim_end_def)
  have "hd (trim s) = hd (trim_start s)"
    using assms hd_trim_end unfolding trim_def by blast
  with ne show "\<not> is_whitespace (hd (trim s))"
    using hd_dropWhile by (metis trim_start_def)
  have "dropWhile is_whitespace (rev (trim_start s)) \<noteq> []"
    using assms by (auto simp: trim_def trim_end_def)
  then have "\<not> is_whitespace (hd (dropWhile is_whitespace (rev (trim_start s))))"
    by (rule hd_dropWhile)
  then show "\<not> is_whitespace (last (trim s))"
    by (simp add: trim_def trim_end_def last_rev)
qed

lemma trim_noop:
  assumes "s \<noteq> [] \<Longrightarrow> \<not> is_whitespace (hd s)" "s \<noteq> [] \<Longrightarrow> \<not> is_whitespace (last s)"
  shows "trim s = s"
proof (cases s)
  case (Cons c r)
  have 1: "trim_start s = s" using assms(1) Cons by (simp add: trim_start_def)
  have "rev s \<noteq> []" "hd (rev s) = last s" using Cons by (simp_all add: hd_rev)
  then have "dropWhile is_whitespace (rev s) = rev s"
    using assms(2) Cons by (cases "rev s") auto
  with 1 show ?thesis by (simp add: trim_def trim_end_def)
qed (simp add: trim_def trim_end_def trim_start_def)

lemma trim_trim [simp]: "trim (trim s) = trim s"
  by (rule trim_noop) (use trim_ends in auto)

lemma split_char_nonempty [simp]: "split_char d s \<noteq> []"
  by (induction s) (auto split: list.splits)

lemma split_char_nosep: "d \<notin> set s \<Longrightarrow> split_char d s = [s]"
  by (induction s) auto

lemma split_char_append: "d \<notin> set s \<Longrightarrow> split_char d (s @ d # t) = s # split_char d t"
  by (induction s) auto

lemma digits_val_snoc: "digits_val (ds @ [d]) = 10 * digits_val ds + (d - 48)"
  by (simp add: digits_val_def)

lemma show_nat_digits: "list_all is_digit (show_nat n) \<and> show_nat n \<noteq> []"
proof (induction n rule: show_nat.induct)
  case (1 n)
  then show ?case by (auto simp: show_nat.simps [of n] is_digit_def)
qed

lemma digits_val_show_nat: "digits_val (show_nat n) = n"
proof (induction n rule: show_nat.induct)
  case (1 n)
  then show ?case
    by (cases "n < 10")
       (simp_all add: show_nat.simps [of n] digits_val_snoc, simp add: digits_val_def)
qed

lemma parse_show_nat: "n \<le> m \<Longrightarrow> parse_uint m (show_nat n) = Some n"
  using show_nat_digits [of n] digits_val_show_nat [of n]
  by (cases "show_nat n") (auto simp: parse_uint_def is_digit_def)

lemma parse_uint_le: "parse_uint m s = Some n \<Longrightarrow> n \<le> m"
  by (auto simp: parse_uint_def Let_def split: if_splits list.splits)

lemma hex_digit_ascii: "n < 16 \<Longrightarrow> hex_digit n < 128 \<and> \<not> is_control (hex_digit n)"
  by (auto simp: hex_digit_def is_control_def)

lemma hex_bytes_ascii: "c \<in> set (hex_bytes bs) \<Longrightarrow> c < 128 \<and> \<not> is_control c"
proof -
  have "unat b div 16 < 16" for b :: u8
    using unat_bound [of b] by auto
  then show "c \<in> set (hex_bytes bs) \<Longrightarrow> c < 128 \<and> \<not> is_control c"
    by (auto simp: hex_bytes_def hex_byte_def hex_digit_ascii)
qed

lemma length_hex_bytes [simp]: "length (hex_bytes bs) = 2 * length bs"
  by (induction bs) (simp_all add: hex_bytes_def hex_byte_def)

lemma str_len_hex_bytes [simp]: "str_len (hex_bytes bs) = 2 * length bs"
  by (subst str_len_sublist) (auto dest: hex_bytes_ascii)

lemma hex_digit_inj: "m < 16 \<Longrightarrow> n < 16 \<Longrightarrow> hex_digit m = hex_digit n \<Longrightarrow> m = n"
  by (auto simp: hex_digit_def split: if_splits)

lemma hex_byte_inj: "hex_byte a = hex_byte b \<Longrightarrow> a = b"
proof -
  assume eq: "hex_byte a = hex_byte b"
  have lt: "unat x div 16 < 16" for x :: u8 using unat_bound [of x] by auto
  have "unat a div 16 = unat b div 16" "unat a mod 16 = unat b mod 16"
    using eq hex_digit_inj [OF lt lt] hex_digit_inj [of "unat a mod 16" "unat b mod 16"]
    by (auto simp: hex_byte_def)
  then have "unat a = unat b" by (metis div_mult_mod_eq)
  then show "a = b" by (rule word_unat_eq_iff [THEN iffD2])
qed

lemma hex_bytes_inj: "hex_bytes as = hex_bytes bs \<Longrightarrow> as = bs"
proof (induction as arbitrary: bs)
  case Nil
  then have "length (hex_bytes bs) = 0" by (metis length_hex_bytes list.size(3) mult_0_right)
  then show ?case by simp
next
  case (Cons a as)
  then have "length (hex_bytes (a # as)) = length (hex_bytes bs)" by simp
  then obtain b bs' where bs: "bs = b # bs'" by (cases bs) auto
  have "hex_byte a @ hex_bytes as = hex_byte b @ hex_bytes bs'"
    using Cons.prems bs by (simp add: hex_bytes_def)
  then have "hex_byte a = hex_byte b" "hex_bytes as = hex_bytes bs'"
    by (auto simp: hex_byte_def)
  then show ?case using Cons.IH bs hex_byte_inj by blast
qed

end
