(* ===== verification/Wire_Messages.thy ===== *)
theory Wire_Messages
  imports Rust_Str
begin

text \<open>
  The data of \<open>src/src/protocol.rs\<close>: the payload records and the signalling messages. A
  constructor of \<open>SignalingMessage\<close> takes the fields of the Rust variant in the order of
  the source.
\<close>

section \<open>Payload records\<close>

datatype LobbyEntryMode = Create | Join | Auto

record OfferData =
  offer_type :: rstr
  offer_sdp :: rstr

record AnswerData =
  answer_type :: rstr
  answer_sdp :: rstr

record CandidateData =
  cand_candidate :: rstr
  cand_sdp_m_line_index :: "u16 option"
  cand_sdp_mid :: "rstr option"

record FileShareInfo =
  fs_share_id :: rstr
  fs_share_name :: rstr
  fs_player_name :: rstr
  fs_has_password :: bool

record PublicLobbyInfo =
  pl_lobby_name :: rstr
  pl_player_count :: u32
  pl_max_players :: "u32 option"
  pl_host_name :: rstr
  pl_description :: rstr
  pl_server_node :: rstr

record CommunityNodeInfo =
  cn_name :: rstr
  cn_address :: rstr
  cn_submitter :: "rstr option"
  cn_submitted_at :: u64
  cn_last_ok_at :: u64
  cn_online :: bool
  cn_latency_ms :: "u64 option"

record PlayerInfo =
  pi_player_id :: rstr
  pi_player_name :: rstr
  pi_virtual_ip :: "rstr option"
  pi_virtual_domain :: "rstr option"
  pi_use_domain :: "bool option"
  pi_chat_public_key :: "rstr option"
  pi_session_generation :: u64

section \<open>Messages\<close>

text \<open>
  Fields in source order; where a constructor takes several strings the comment of the field
  list names them.

  \<^item> \<open>RegisterV3\<close>: entry mode, protocol version, identity key, challenge signature, player
    name, virtual IP, lobby name, lobby password, client version, virtual domain, use domain;
  \<^item> \<open>Register\<close>: client id, player name, virtual IP, virtual domain, use domain, lobby name,
    lobby password, client version, chat key;
  \<^item> \<open>RegisterSuccess\<close>: client id, generation, lobby id, host, limit, public, muted members,
    chat token, token epoch;
  \<^item> \<open>ScreenShareRelay\<close>: from, to, share id, action, player name, password, upstream,
    downstream, route version, sequence, source sequence, sent sequence, limited, reason.
\<close>

datatype (plugins only: code) SignalingMessage =
    ServerChallenge rstr bool u32
  | RegisterV3 "LobbyEntryMode option" u32 rstr rstr rstr "rstr option" rstr rstr "rstr option"
      "rstr option" "bool option"
  | Register rstr rstr "rstr option" "rstr option" "bool option" rstr rstr "rstr option"
      "rstr option"
  | RegisterSuccess rstr u64 rstr "rstr option" "u32 option" "bool option" "rstr list option"
      rstr u64
  | ChatTokenRotated rstr rstr u64
  | RegisterError rstr
  | Leave rstr
  | VersionTooOld rstr rstr rstr rstr
  | PlayersList "PlayerInfo list"
  | PlayersListRequest
  | PlayerJoined rstr rstr "rstr option" "rstr option" "bool option" "rstr option" u64
  | PlayerLeft rstr u64
  | Offer rstr rstr OfferData "rstr option"
  | VoiceReconnect rstr rstr
  | Answer rstr rstr AnswerData
  | IceCandidate rstr rstr CandidateData
  | ChatMessage rstr rstr rstr rstr i64
  | StatusUpdate rstr bool
  | ScreenShareStart rstr rstr rstr bool
  | ScreenShareStop rstr rstr
  | ScreenShareRelay rstr rstr rstr rstr "rstr option" "rstr option" "rstr option" "rstr option"
      "u64 option" "u64 option" "u64 option" "u64 option" "bool option" "rstr option"
  | ScreenShareOffer rstr rstr rstr "rstr option" "rstr option" "u64 option" OfferData
  | ScreenShareAnswer rstr rstr rstr "u64 option" AnswerData
  | ScreenShareIceCandidate rstr rstr rstr "rstr option" "u64 option" CandidateData
  | ScreenShareError rstr rstr rstr rstr
  | ScreenShareListRequest rstr
  | ScreenShareListResponse rstr rstr rstr rstr bool
  | ScreenShareViewerLeft rstr rstr
  | ScreenShareUpdate rstr rstr "rstr option" "rstr option" "u64 option"
  | FileShareAdded rstr rstr rstr rstr bool
  | FileShareRemoved rstr rstr
  | FileShareListRequest rstr
  | FileShareListResponse rstr rstr "FileShareInfo list"
  | ShareUpdated rstr rstr "rstr option" "rstr option" "bool option"
  | RemoteControlRequest rstr rstr rstr rstr
  | RemoteControlAccept rstr rstr rstr
  | RemoteControlReject rstr rstr rstr rstr
  | RemoteControlOffer rstr rstr rstr OfferData
  | RemoteControlAnswer rstr rstr rstr AnswerData
  | RemoteControlIce rstr rstr rstr CandidateData
  | RemoteControlStop rstr rstr rstr
  | Ping
  | Pong
  | KickPlayer rstr rstr
  | Kicked rstr
  | MutePlayer rstr rstr bool
  | PlayerMuteChanged rstr bool
  | TransferHost rstr rstr
  | HostChanged rstr
  | SetLobbyOptions rstr "u32 option" "bool option" "rstr option" "rstr option"
  | LobbyOptionsChanged "u32 option" bool
  | PublicLobbyListRequest
  | PublicLobbyListResponse "PublicLobbyInfo list"
  | CommunityNodeListRequest
  | CommunityNodeListResponse "CommunityNodeInfo list"
  | CommunityNodeSubmit rstr rstr "rstr option"
  | CommunityNodeSubmitResult bool rstr "CommunityNodeInfo option"

end
