(* ===== verification/Wire_Json.thy ===== *)
theory Wire_Json
  imports Wire_Messages Hash_Map "HOL-Library.List_Lexorder"
begin

text \<open>
  The JSON value a message or payload serialises to, following the serde attributes of
  \<open>src/src/protocol.rs\<close>: the tag \<open>type\<close>, the renamed fields in source order, and the
  options left out by \<open>skip_serializing_if\<close>. The text of a value is the business of
  \<open>serde_json\<close>, which is the parameter \<open>serde\<close>: a printer and a reader of values.
\<close>

section \<open>JSON values\<close>

datatype json =
    JNull
  | JBool bool
  | JNum int
  | JStr rstr
  | JArr "json list"
  | JObj "(rstr \<times> json) list"

definition json_get :: "json \<Rightarrow> rstr \<Rightarrow> json option" where
  "json_get j k = (case j of JObj fs \<Rightarrow> map_of fs k | _ \<Rightarrow> None)"

definition json_as_str :: "json \<Rightarrow> rstr option" where
  "json_as_str j = (case j of JStr s \<Rightarrow> Some s | _ \<Rightarrow> None)"

record serde =
  json_to_string :: "json \<Rightarrow> rstr"
  json_from_str :: "rstr \<Rightarrow> json option"

text \<open>
  The values \<open>serde_json\<close> can carry. \<open>json_shape n\<close>: integers are those of \<open>i64\<close> or
  \<open>u64\<close>, no object has a key twice, and arrays and objects are nested at most \<open>n\<close> deep (the
  reader gives up beyond 127). \<open>json_unicode\<close>: every key and string is a Rust string.
\<close>

definition unicode :: "rstr \<Rightarrow> bool" where
  "unicode s \<longleftrightarrow> list_all (\<lambda>c. c < 55296 \<or> 57343 < c \<and> c \<le> 1114111) s"

fun json_shape :: "nat \<Rightarrow> json \<Rightarrow> bool" where
  "json_shape n (JNum i) \<longleftrightarrow> - (2 ^ 63) \<le> i \<and> i < 2 ^ 64"
| "json_shape (Suc n) (JArr xs) \<longleftrightarrow> list_all (json_shape n) xs"
| "json_shape (Suc n) (JObj fs) \<longleftrightarrow>
     distinct (map fst fs) \<and> list_all (\<lambda>(k, v). json_shape n v) fs"
| "json_shape 0 (JArr xs) \<longleftrightarrow> False"
| "json_shape 0 (JObj fs) \<longleftrightarrow> False"
| "json_shape n j \<longleftrightarrow> True"

fun json_unicode :: "json \<Rightarrow> bool" where
  "json_unicode (JStr s) \<longleftrightarrow> unicode s"
| "json_unicode (JArr xs) \<longleftrightarrow> list_all json_unicode xs"
| "json_unicode (JObj fs) \<longleftrightarrow> list_all (\<lambda>(k, v). unicode k \<and> json_unicode v) fs"
| "json_unicode j \<longleftrightarrow> True"

text \<open>
  A value as the reader builds it: an object is a \<open>BTreeMap\<close>, so its fields come sorted by
  key, at every level.
\<close>

fun json_sort :: "json \<Rightarrow> json" where
  "json_sort (JArr xs) = JArr (map json_sort xs)"
| "json_sort (JObj fs) = JObj (sort_key fst (map (\<lambda>(k, v). (k, json_sort v)) fs))"
| "json_sort j = j"

text \<open>What the server relies on: a printed value is read back, up to the order of the fields.\<close>

definition serde_law :: "serde \<Rightarrow> bool" where
  "serde_law S \<longleftrightarrow>
     (\<forall>v. json_shape 127 v \<and> json_unicode v \<longrightarrow>
        json_from_str S (json_to_string S v) = Some (json_sort v))"

text \<open>\<open>Map::insert\<close> of an object.\<close>

definition map_insert :: "rstr \<Rightarrow> json \<Rightarrow> (rstr, json) hashmap \<Rightarrow> (rstr, json) hashmap" where
  "map_insert k v fs = sort_key fst (hm_insert k v fs)"

section \<open>Fields\<close>

definition jstr :: "string \<Rightarrow> rstr \<Rightarrow> (rstr \<times> json) list" where
  "jstr name s = [(str name, JStr s)]"

definition jbool :: "string \<Rightarrow> bool \<Rightarrow> (rstr \<times> json) list" where
  "jbool name b = [(str name, JBool b)]"

definition jword :: "string \<Rightarrow> 'a::len word \<Rightarrow> (rstr \<times> json) list" where
  "jword name w = [(str name, JNum (uint w))]"

definition jval :: "string \<Rightarrow> json \<Rightarrow> (rstr \<times> json) list" where
  "jval name v = [(str name, v)]"

text \<open>A field with \<open>skip_serializing_if = "Option::is_none"\<close>.\<close>

definition jopt :: "(string \<Rightarrow> 'a \<Rightarrow> (rstr \<times> json) list) \<Rightarrow> string \<Rightarrow> 'a option \<Rightarrow> (rstr \<times> json) list" where
  "jopt f name v = (case v of None \<Rightarrow> [] | Some x \<Rightarrow> f name x)"

text \<open>An optional field without that attribute: \<open>None\<close> is written as null.\<close>

definition jnullable ::
  "(string \<Rightarrow> 'a \<Rightarrow> (rstr \<times> json) list) \<Rightarrow> string \<Rightarrow> 'a option \<Rightarrow> (rstr \<times> json) list" where
  "jnullable f name v = (case v of None \<Rightarrow> [(str name, JNull)] | Some x \<Rightarrow> f name x)"

definition tagged :: "string \<Rightarrow> (rstr \<times> json) list \<Rightarrow> json" where
  "tagged t fs = JObj ((str ''type'', JStr (str t)) # fs)"

section \<open>Payloads\<close>

definition offer_json :: "OfferData \<Rightarrow> json" where
  "offer_json d = JObj (jstr ''type'' (offer_type d) @ jstr ''sdp'' (offer_sdp d))"

definition answer_json :: "AnswerData \<Rightarrow> json" where
  "answer_json d = JObj (jstr ''type'' (answer_type d) @ jstr ''sdp'' (answer_sdp d))"

definition candidate_json :: "CandidateData \<Rightarrow> json" where
  "candidate_json d =
     JObj (jstr ''candidate'' (cand_candidate d)
       @ jnullable jword ''sdpMLineIndex'' (cand_sdp_m_line_index d)
       @ jnullable jstr ''sdpMid'' (cand_sdp_mid d))"

definition file_share_json :: "FileShareInfo \<Rightarrow> json" where
  "file_share_json d =
     JObj (jstr ''shareId'' (fs_share_id d) @ jstr ''shareName'' (fs_share_name d)
       @ jstr ''playerName'' (fs_player_name d) @ jbool ''hasPassword'' (fs_has_password d))"

definition public_lobby_json :: "PublicLobbyInfo \<Rightarrow> json" where
  "public_lobby_json d =
     JObj (jstr ''lobbyName'' (pl_lobby_name d) @ jword ''playerCount'' (pl_player_count d)
       @ jopt jword ''maxPlayers'' (pl_max_players d) @ jstr ''hostName'' (pl_host_name d)
       @ jstr ''description'' (pl_description d) @ jstr ''serverNode'' (pl_server_node d))"

definition community_node_json :: "CommunityNodeInfo \<Rightarrow> json" where
  "community_node_json d =
     JObj (jstr ''name'' (cn_name d) @ jstr ''address'' (cn_address d)
       @ jopt jstr ''submitter'' (cn_submitter d) @ jword ''submittedAt'' (cn_submitted_at d)
       @ jword ''lastOkAt'' (cn_last_ok_at d) @ jbool ''online'' (cn_online d)
       @ jopt jword ''latencyMs'' (cn_latency_ms d))"

definition player_json :: "PlayerInfo \<Rightarrow> json" where
  "player_json d =
     JObj (jstr ''playerId'' (pi_player_id d) @ jstr ''playerName'' (pi_player_name d)
       @ jopt jstr ''virtualIp'' (pi_virtual_ip d) @ jopt jstr ''virtualDomain'' (pi_virtual_domain d)
       @ jopt jbool ''useDomain'' (pi_use_domain d)
       @ jopt jstr ''chatPublicKey'' (pi_chat_public_key d)
       @ jword ''sessionGeneration'' (pi_session_generation d))"

definition entry_mode_json :: "string \<Rightarrow> LobbyEntryMode \<Rightarrow> (rstr \<times> json) list" where
  "entry_mode_json name m =
     jstr name (case m of Create \<Rightarrow> str ''create'' | Join \<Rightarrow> str ''join'' | Auto \<Rightarrow> str ''auto'')"

definition strs_json :: "string \<Rightarrow> rstr list \<Rightarrow> (rstr \<times> json) list" where
  "strs_json name xs = jval name (JArr (map JStr xs))"

section \<open>Messages\<close>

text \<open>Registration, roster and session messages.\<close>

definition session_json :: "SignalingMessage \<Rightarrow> json" where
  "session_json m =
     (case m of
        ServerChallenge challenge lobby_entry_modes protocol_version \<Rightarrow>
          tagged ''server-challenge'' (jstr ''challenge'' challenge
            @ jbool ''lobbyEntryModes'' lobby_entry_modes @ jword ''protocolVersion'' protocol_version)
      | RegisterV3 entry_mode protocol_version key sig player_name virtual_ip lobby_name
            lobby_password client_version virtual_domain use_domain \<Rightarrow>
          tagged ''register-v3'' (jnullable entry_mode_json ''entryMode'' entry_mode
            @ jword ''protocolVersion'' protocol_version @ jstr ''identityPublicKey'' key
            @ jstr ''challengeSignature'' sig @ jstr ''playerName'' player_name
            @ jopt jstr ''virtualIp'' virtual_ip @ jstr ''lobbyName'' lobby_name
            @ jstr ''lobbyPassword'' lobby_password @ jopt jstr ''clientVersion'' client_version
            @ jopt jstr ''virtualDomain'' virtual_domain @ jopt jbool ''useDomain'' use_domain)
      | Register client_id player_name virtual_ip virtual_domain use_domain lobby_name
            lobby_password client_version chat_public_key \<Rightarrow>
          tagged ''register'' (jstr ''clientId'' client_id @ jstr ''playerName'' player_name
            @ jopt jstr ''virtualIp'' virtual_ip @ jopt jstr ''virtualDomain'' virtual_domain
            @ jopt jbool ''useDomain'' use_domain @ jstr ''lobbyName'' lobby_name
            @ jstr ''lobbyPassword'' lobby_password @ jopt jstr ''clientVersion'' client_version
            @ jopt jstr ''chatPublicKey'' chat_public_key)
      | RegisterSuccess client_id gen lobby_id host_id max_players is_public muted token epoch \<Rightarrow>
          tagged ''register-success'' (jstr ''clientId'' client_id @ jword ''sessionGeneration'' gen
            @ jstr ''lobbyId'' lobby_id @ jopt jstr ''hostId'' host_id
            @ jopt jword ''maxPlayers'' max_players @ jopt jbool ''isPublic'' is_public
            @ jopt strs_json ''mutedPlayers'' muted @ jstr ''chatToken'' token
            @ jword ''chatTokenEpoch'' epoch)
      | ChatTokenRotated lobby_id token epoch \<Rightarrow>
          tagged ''chat-token-rotated'' (jstr ''lobbyId'' lobby_id @ jstr ''chatToken'' token
            @ jword ''chatTokenEpoch'' epoch)
      | RegisterError msg \<Rightarrow> tagged ''register-error'' (jstr ''message'' msg)
      | Leave client_id \<Rightarrow> tagged ''leave'' (jstr ''clientId'' client_id)
      | VersionTooOld msg current minimum url \<Rightarrow>
          tagged ''version-too-old'' (jstr ''message'' msg @ jstr ''currentVersion'' current
            @ jstr ''minimumVersion'' minimum @ jstr ''downloadUrl'' url)
      | PlayersList players \<Rightarrow>
          tagged ''players-list'' (jval ''players'' (JArr (map player_json players)))
      | PlayersListRequest \<Rightarrow> tagged ''players-list-request'' []
      | PlayerJoined player_id player_name virtual_ip virtual_domain use_domain key gen \<Rightarrow>
          tagged ''player-joined'' (jstr ''playerId'' player_id @ jstr ''playerName'' player_name
            @ jopt jstr ''virtualIp'' virtual_ip @ jopt jstr ''virtualDomain'' virtual_domain
            @ jopt jbool ''useDomain'' use_domain @ jopt jstr ''chatPublicKey'' key
            @ jword ''sessionGeneration'' gen)
      | PlayerLeft player_id gen \<Rightarrow>
          tagged ''player-left'' (jstr ''playerId'' player_id @ jword ''sessionGeneration'' gen)
      | _ \<Rightarrow> JNull)"

text \<open>Voice and screen-sharing messages.\<close>

definition media_json :: "SignalingMessage \<Rightarrow> json" where
  "media_json m =
     (case m of
        Offer frm dst offer player_name \<Rightarrow>
          tagged ''offer'' (jstr ''from'' frm @ jstr ''to'' dst @ jval ''offer'' (offer_json offer)
            @ jopt jstr ''playerName'' player_name)
      | VoiceReconnect frm dst \<Rightarrow> tagged ''voice-reconnect'' (jstr ''from'' frm @ jstr ''to'' dst)
      | Answer frm dst answer \<Rightarrow>
          tagged ''answer'' (jstr ''from'' frm @ jstr ''to'' dst @ jval ''answer'' (answer_json answer))
      | IceCandidate frm dst candidate \<Rightarrow>
          tagged ''ice-candidate'' (jstr ''from'' frm @ jstr ''to'' dst
            @ jval ''candidate'' (candidate_json candidate))
      | ChatMessage frm player_id player_name content timestamp \<Rightarrow>
          tagged ''chat-message'' (jstr ''from'' frm @ jstr ''playerId'' player_id
            @ jstr ''playerName'' player_name @ jstr ''content'' content
            @ jval ''timestamp'' (JNum (sint timestamp)))
      | StatusUpdate client_id mic_enabled \<Rightarrow>
          tagged ''status-update'' (jstr ''clientId'' client_id @ jbool ''micEnabled'' mic_enabled)
      | ScreenShareStart frm share_id player_name has_password \<Rightarrow>
          tagged ''screen-share-start'' (jstr ''from'' frm @ jstr ''shareId'' share_id
            @ jstr ''playerName'' player_name @ jbool ''hasPassword'' has_password)
      | ScreenShareStop frm share_id \<Rightarrow>
          tagged ''screen-share-stop'' (jstr ''from'' frm @ jstr ''shareId'' share_id)
      | ScreenShareRelay frm dst share_id action player_name password upstream_id downstream_id
            route_version sq source_sequence sent_sequence limited reason \<Rightarrow>
          tagged ''screen-share-relay'' (jstr ''from'' frm @ jstr ''to'' dst
            @ jstr ''shareId'' share_id @ jstr ''action'' action @ jopt jstr ''playerName'' player_name
            @ jopt jstr ''password'' password @ jopt jstr ''upstreamId'' upstream_id
            @ jopt jstr ''downstreamId'' downstream_id @ jopt jword ''routeVersion'' route_version
            @ jopt jword ''sequence'' sq @ jopt jword ''sourceSequence'' source_sequence
            @ jopt jword ''sentSequence'' sent_sequence @ jopt jbool ''limited'' limited
            @ jopt jstr ''reason'' reason)
      | ScreenShareOffer frm dst share_id player_name password route_version offer \<Rightarrow>
          tagged ''screen-share-offer'' (jstr ''from'' frm @ jstr ''to'' dst
            @ jstr ''shareId'' share_id @ jopt jstr ''playerName'' player_name
            @ jopt jstr ''password'' password @ jopt jword ''routeVersion'' route_version
            @ jval ''offer'' (offer_json offer))
      | ScreenShareAnswer frm dst share_id route_version answer \<Rightarrow>
          tagged ''screen-share-answer'' (jstr ''from'' frm @ jstr ''to'' dst
            @ jstr ''shareId'' share_id @ jopt jword ''routeVersion'' route_version
            @ jval ''answer'' (answer_json answer))
      | ScreenShareIceCandidate frm dst share_id connection_role route_version candidate \<Rightarrow>
          tagged ''screen-share-ice-candidate'' (jstr ''from'' frm @ jstr ''to'' dst
            @ jstr ''shareId'' share_id @ jopt jstr ''connectionRole'' connection_role
            @ jopt jword ''routeVersion'' route_version
            @ jval ''candidate'' (candidate_json candidate))
      | ScreenShareError frm dst share_id err \<Rightarrow>
          tagged ''screen-share-error'' (jstr ''from'' frm @ jstr ''to'' dst
            @ jstr ''shareId'' share_id @ jstr ''error'' err)
      | ScreenShareListRequest frm \<Rightarrow> tagged ''screen-share-list-request'' (jstr ''from'' frm)
      | ScreenShareListResponse frm dst share_id player_name has_password \<Rightarrow>
          tagged ''screen-share-list-response'' (jstr ''from'' frm @ jstr ''to'' dst
            @ jstr ''shareId'' share_id @ jstr ''playerName'' player_name
            @ jbool ''hasPassword'' has_password)
      | ScreenShareViewerLeft frm share_id \<Rightarrow>
          tagged ''screen-share-viewer-left'' (jstr ''from'' frm @ jstr ''shareId'' share_id)
      | ScreenShareUpdate frm share_id viewer_id viewer_name viewer_count \<Rightarrow>
          tagged ''screen-share-update'' (jstr ''from'' frm @ jstr ''shareId'' share_id
            @ jopt jstr ''viewerId'' viewer_id @ jopt jstr ''viewerName'' viewer_name
            @ jopt jword ''viewerCount'' viewer_count)
      | _ \<Rightarrow> JNull)"

text \<open>File sharing and remote control.\<close>

definition share_json :: "SignalingMessage \<Rightarrow> json" where
  "share_json m =
     (case m of
        FileShareAdded frm share_id share_name player_name has_password \<Rightarrow>
          tagged ''file-share-added'' (jstr ''from'' frm @ jstr ''shareId'' share_id
            @ jstr ''shareName'' share_name @ jstr ''playerName'' player_name
            @ jbool ''hasPassword'' has_password)
      | FileShareRemoved frm share_id \<Rightarrow>
          tagged ''file-share-removed'' (jstr ''from'' frm @ jstr ''shareId'' share_id)
      | FileShareListRequest frm \<Rightarrow> tagged ''file-share-list-request'' (jstr ''from'' frm)
      | FileShareListResponse frm dst shares \<Rightarrow>
          tagged ''file-share-list-response'' (jstr ''from'' frm @ jstr ''to'' dst
            @ jval ''shares'' (JArr (map file_share_json shares)))
      | ShareUpdated frm share_id share_name player_name has_password \<Rightarrow>
          tagged ''share-updated'' (jstr ''from'' frm @ jstr ''shareId'' share_id
            @ jopt jstr ''shareName'' share_name @ jopt jstr ''playerName'' player_name
            @ jopt jbool ''hasPassword'' has_password)
      | RemoteControlRequest frm dst session_id from_name \<Rightarrow>
          tagged ''remote-control-request'' (jstr ''from'' frm @ jstr ''to'' dst
            @ jstr ''sessionId'' session_id @ jstr ''fromName'' from_name)
      | RemoteControlAccept frm dst session_id \<Rightarrow>
          tagged ''remote-control-accept'' (jstr ''from'' frm @ jstr ''to'' dst
            @ jstr ''sessionId'' session_id)
      | RemoteControlReject frm dst session_id reason \<Rightarrow>
          tagged ''remote-control-reject'' (jstr ''from'' frm @ jstr ''to'' dst
            @ jstr ''sessionId'' session_id @ jstr ''reason'' reason)
      | RemoteControlOffer frm dst session_id offer \<Rightarrow>
          tagged ''remote-control-offer'' (jstr ''from'' frm @ jstr ''to'' dst
            @ jstr ''sessionId'' session_id @ jval ''offer'' (offer_json offer))
      | RemoteControlAnswer frm dst session_id answer \<Rightarrow>
          tagged ''remote-control-answer'' (jstr ''from'' frm @ jstr ''to'' dst
            @ jstr ''sessionId'' session_id @ jval ''answer'' (answer_json answer))
      | RemoteControlIce frm dst session_id candidate \<Rightarrow>
          tagged ''remote-control-ice'' (jstr ''from'' frm @ jstr ''to'' dst
            @ jstr ''sessionId'' session_id @ jval ''candidate'' (candidate_json candidate))
      | RemoteControlStop frm dst session_id \<Rightarrow>
          tagged ''remote-control-stop'' (jstr ''from'' frm @ jstr ''to'' dst
            @ jstr ''sessionId'' session_id)
      | _ \<Rightarrow> JNull)"

text \<open>Heartbeat, moderation, public list and community nodes.\<close>

definition admin_json :: "SignalingMessage \<Rightarrow> json" where
  "admin_json m =
     (case m of
        Ping \<Rightarrow> tagged ''ping'' []
      | Pong \<Rightarrow> tagged ''pong'' []
      | KickPlayer frm target \<Rightarrow> tagged ''kick-player'' (jstr ''from'' frm @ jstr ''target'' target)
      | Kicked reason \<Rightarrow> tagged ''kicked'' (jstr ''reason'' reason)
      | MutePlayer frm target muted \<Rightarrow>
          tagged ''mute-player'' (jstr ''from'' frm @ jstr ''target'' target @ jbool ''muted'' muted)
      | PlayerMuteChanged player_id muted \<Rightarrow>
          tagged ''player-mute-changed'' (jstr ''playerId'' player_id @ jbool ''muted'' muted)
      | TransferHost frm target \<Rightarrow>
          tagged ''transfer-host'' (jstr ''from'' frm @ jstr ''target'' target)
      | HostChanged host_id \<Rightarrow> tagged ''host-changed'' (jstr ''hostId'' host_id)
      | SetLobbyOptions frm max_players is_public description server_node \<Rightarrow>
          tagged ''set-lobby-options'' (jstr ''from'' frm @ jopt jword ''maxPlayers'' max_players
            @ jopt jbool ''isPublic'' is_public @ jopt jstr ''description'' description
            @ jopt jstr ''serverNode'' server_node)
      | LobbyOptionsChanged max_players is_public \<Rightarrow>
          tagged ''lobby-options-changed'' (jopt jword ''maxPlayers'' max_players
            @ jbool ''isPublic'' is_public)
      | PublicLobbyListRequest \<Rightarrow> tagged ''public-lobby-list-request'' []
      | PublicLobbyListResponse lobbies \<Rightarrow>
          tagged ''public-lobby-list-response''
            (jval ''lobbies'' (JArr (map public_lobby_json lobbies)))
      | CommunityNodeListRequest \<Rightarrow> tagged ''community-node-list-request'' []
      | CommunityNodeListResponse nodes \<Rightarrow>
          tagged ''community-node-list-response''
            (jval ''nodes'' (JArr (map community_node_json nodes)))
      | CommunityNodeSubmit name address submitter \<Rightarrow>
          tagged ''community-node-submit'' (jstr ''name'' name @ jstr ''address'' address
            @ jopt jstr ''submitter'' submitter)
      | CommunityNodeSubmitResult ok msg node \<Rightarrow>
          tagged ''community-node-submit-result'' (jbool ''ok'' ok @ jstr ''message'' msg
            @ jopt (\<lambda>name n. jval name (community_node_json n)) ''node'' node)
      | _ \<Rightarrow> JNull)"

text \<open>Each message is written by exactly one of the four groups.\<close>

definition message_json :: "SignalingMessage \<Rightarrow> json" where
  "message_json m =
     (if session_json m \<noteq> JNull then session_json m
      else if media_json m \<noteq> JNull then media_json m
      else if share_json m \<noteq> JNull then share_json m
      else admin_json m)"

definition message_text :: "serde \<Rightarrow> SignalingMessage \<Rightarrow> rstr" where
  "message_text S m = json_to_string S (message_json m)"

end
