(* ===== verification/Config_Limits.thy ===== *)
theory Config_Limits
  imports Rust_Str
begin

text \<open>
  \<open>src/src/config.rs\<close> and the constants of \<open>src/src/community_nodes.rs\<close>: protocol
  limits and the process configuration read from the environment. The environment is the
  function \<open>env\<close> from a variable's name to its value (\<open>std::env::var(..).ok()\<close>).
\<close>

section \<open>Limits\<close>

definition WEBSOCKET_HANDSHAKE_TIMEOUT_SECS :: nat where
  [config_simps]: "WEBSOCKET_HANDSHAKE_TIMEOUT_SECS = 10"
definition REGISTRATION_TIMEOUT_SECS :: nat where
  [config_simps]: "REGISTRATION_TIMEOUT_SECS = 15"
definition SEND_TIMEOUT_SECS :: nat where
  [config_simps]: "SEND_TIMEOUT_SECS = 5"
definition MAX_MESSAGE_SIZE :: nat where
  [config_simps]: "MAX_MESSAGE_SIZE = 512 * 1024"
definition MAX_FRAME_SIZE :: nat where
  [config_simps]: "MAX_FRAME_SIZE = 256 * 1024"
definition MAX_LOBBY_MEMBERS :: nat where
  [config_simps]: "MAX_LOBBY_MEMBERS = 64"
definition MAX_CLIENT_ID_LEN :: nat where
  [config_simps]: "MAX_CLIENT_ID_LEN = 128"
definition MAX_PLAYER_NAME_LEN :: nat where
  [config_simps]: "MAX_PLAYER_NAME_LEN = 128"
definition MAX_LOBBY_NAME_LEN :: nat where
  [config_simps]: "MAX_LOBBY_NAME_LEN = 128"
definition MAX_LOBBY_PASSWORD_LEN :: nat where
  [config_simps]: "MAX_LOBBY_PASSWORD_LEN = 256"
definition MAX_VIRTUAL_DOMAIN_LEN :: nat where
  [config_simps]: "MAX_VIRTUAL_DOMAIN_LEN = 253"
definition MAX_CLIENT_VERSION_LEN :: nat where
  [config_simps]: "MAX_CLIENT_VERSION_LEN = 32"
definition SIGNALING_PROTOCOL_VERSION :: u32 where
  [config_simps]: "SIGNALING_PROTOCOL_VERSION = 3"
definition CHALLENGE_BYTES :: nat where
  [config_simps]: "CHALLENGE_BYTES = 32"
definition MAX_IDENTITY_PUBLIC_KEY_LEN :: nat where
  [config_simps]: "MAX_IDENTITY_PUBLIC_KEY_LEN = 512"
definition MAX_IDENTITY_SIGNATURE_LEN :: nat where
  [config_simps]: "MAX_IDENTITY_SIGNATURE_LEN = 256"
definition MAX_SDP_LEN :: nat where
  [config_simps]: "MAX_SDP_LEN = 128 * 1024"
definition MAX_ICE_CANDIDATE_LEN :: nat where
  [config_simps]: "MAX_ICE_CANDIDATE_LEN = 16 * 1024"
definition MAX_CONTROL_TEXT_LEN :: nat where
  [config_simps]: "MAX_CONTROL_TEXT_LEN = 8 * 1024"
definition MAX_MESSAGES_PER_WINDOW :: u32 where
  [config_simps]: "MAX_MESSAGES_PER_WINDOW = 120"
definition MESSAGE_RATE_WINDOW_SECS :: nat where
  [config_simps]: "MESSAGE_RATE_WINDOW_SECS = 10"
definition MAX_OUTBOUND_FRAMES_PER_WINDOW :: u32 where
  [config_simps]: "MAX_OUTBOUND_FRAMES_PER_WINDOW = 64"
definition MAX_OUTBOUND_BYTES_PER_WINDOW :: nat where
  [config_simps]: "MAX_OUTBOUND_BYTES_PER_WINDOW = 1024 * 1024"
definition OUTBOUND_BUDGET_WINDOW_SECS :: nat where
  [config_simps]: "OUTBOUND_BUDGET_WINDOW_SECS = 1"
definition COMMUNITY_NODE_SUBMIT_MAX_PER_WINDOW :: u32 where
  [config_simps]: "COMMUNITY_NODE_SUBMIT_MAX_PER_WINDOW = 8"
definition COMMUNITY_NODE_SUBMIT_WINDOW_SECS :: nat where
  [config_simps]: "COMMUNITY_NODE_SUBMIT_WINDOW_SECS = 10 * 60"
definition MAX_TRACKED_IP_SUBMITTERS :: nat where
  [config_simps]: "MAX_TRACKED_IP_SUBMITTERS = 8192"
definition COMMUNITY_NODE_PROBE_QUEUE_TIMEOUT_SECS :: nat where
  [config_simps]: "COMMUNITY_NODE_PROBE_QUEUE_TIMEOUT_SECS = 1"
definition MAX_REMOTE_SESSION_ID_LEN :: nat where
  [config_simps]: "MAX_REMOTE_SESSION_ID_LEN = 128"
definition MAX_SHARE_ID_LEN :: nat where
  [config_simps]: "MAX_SHARE_ID_LEN = 128"
definition MAX_SHARE_NAME_LEN :: nat where
  [config_simps]: "MAX_SHARE_NAME_LEN = 256"
definition MAX_ERROR_TEXT_LEN :: nat where
  [config_simps]: "MAX_ERROR_TEXT_LEN = 512"
definition MAX_CHAT_PUBLIC_KEY_LEN :: nat where
  [config_simps]: "MAX_CHAT_PUBLIC_KEY_LEN = 512"
definition REGISTERED_IDLE_TIMEOUT_SECS :: nat where
  [config_simps]: "REGISTERED_IDLE_TIMEOUT_SECS = 60"

definition COMMUNITY_NODE_MAX_OFFLINE_SECS :: u64 where
  [config_simps]: "COMMUNITY_NODE_MAX_OFFLINE_SECS = 24 * 60 * 60"
definition COMMUNITY_NODE_PROBE_CONCURRENCY :: nat where
  [config_simps]: "COMMUNITY_NODE_PROBE_CONCURRENCY = 16"
definition DEFAULT_COMMUNITY_NODE_CAPACITY :: nat where
  [config_simps]: "DEFAULT_COMMUNITY_NODE_CAPACITY = 200"
definition COMMUNITY_NODE_SUBMIT_COOLDOWN_SECS :: u64 where
  [config_simps]: "COMMUNITY_NODE_SUBMIT_COOLDOWN_SECS = 30"
definition COMMUNITY_NODE_NAME_MAX_LEN :: nat where
  [config_simps]: "COMMUNITY_NODE_NAME_MAX_LEN = 32"
definition COMMUNITY_NODE_ADDRESS_MAX_LEN :: nat where
  [config_simps]: "COMMUNITY_NODE_ADDRESS_MAX_LEN = 128"
definition COMMUNITY_NODE_SUBMITTER_MAX_LEN :: nat where
  [config_simps]: "COMMUNITY_NODE_SUBMITTER_MAX_LEN = 24"
definition COMMUNITY_NODE_PROBE_MAX_TARGETS :: nat where
  [config_simps]: "COMMUNITY_NODE_PROBE_MAX_TARGETS = 4"

section \<open>The process configuration\<close>

definition DEFAULT_MINIMUM_CLIENT_VERSION :: rstr where
  "DEFAULT_MINIMUM_CLIENT_VERSION = str ''3.8.0''"
definition DEFAULT_BIND_ADDRESS :: rstr where
  "DEFAULT_BIND_ADDRESS = str ''0.0.0.0:8445''"
definition DEFAULT_CLIENT_DOWNLOAD_URL :: rstr where
  "DEFAULT_CLIENT_DOWNLOAD_URL = str ''https://mctier.pmhs.top''"
definition DEFAULT_MAX_CONNECTIONS :: nat where
  [config_simps]: "DEFAULT_MAX_CONNECTIONS = 4096"
definition DEFAULT_COMMUNITY_NODES_FILE :: rstr where
  "DEFAULT_COMMUNITY_NODES_FILE = str ''community_nodes.json''"

record ServerConfig =
  bind_address :: rstr
  minimum_client_version :: rstr
  client_download_url :: rstr
  max_connections :: nat
  max_connections_per_source :: "nat option"
  cfg_trusted_proxies :: rstr
  community_nodes_file :: rstr
  community_node_capacity :: nat
  community_node_allow_private_targets :: bool

definition USIZE_MAX :: nat where
  "USIZE_MAX = 2 ^ 64 - 1"

definition env_value :: "rstr option \<Rightarrow> rstr \<Rightarrow> rstr" where
  "env_value v dflt =
     (case map_option trim v of None \<Rightarrow> dflt | Some s \<Rightarrow> if s \<noteq> [] then s else dflt)"

definition env_or :: "(rstr \<Rightarrow> rstr option) \<Rightarrow> rstr \<Rightarrow> rstr \<Rightarrow> rstr" where
  "env_or env key dflt = env_value (env key) dflt"

definition parse_bool :: "rstr option \<Rightarrow> bool \<Rightarrow> bool" where
  "parse_bool v dflt =
     (case v of
        None \<Rightarrow> dflt
      | Some s \<Rightarrow> to_ascii_lowercase (trim s) \<in> {str ''1'', str ''true'', str ''yes'', str ''on''})"

definition positive_limit_from_env :: "rstr option \<Rightarrow> nat option" where
  "positive_limit_from_env v =
     (case Option.bind v (\<lambda>raw. parse_uint USIZE_MAX (trim raw)) of
        None \<Rightarrow> None
      | Some limit \<Rightarrow> if 0 < limit then Some limit else None)"

definition connection_limit_from_env :: "rstr option \<Rightarrow> nat" where
  "connection_limit_from_env v =
     (case positive_limit_from_env v of None \<Rightarrow> DEFAULT_MAX_CONNECTIONS | Some n \<Rightarrow> n)"

definition from_env :: "(rstr \<Rightarrow> rstr option) \<Rightarrow> ServerConfig" where
  "from_env env =
     \<lparr>bind_address = env_or env (str ''BIND_ADDRESS'') DEFAULT_BIND_ADDRESS,
      minimum_client_version =
        env_or env (str ''MINIMUM_CLIENT_VERSION'') DEFAULT_MINIMUM_CLIENT_VERSION,
      client_download_url = env_or env (str ''CLIENT_DOWNLOAD_URL'') DEFAULT_CLIENT_DOWNLOAD_URL,
      max_connections = connection_limit_from_env (env (str ''MAX_CONNECTIONS'')),
      max_connections_per_source =
        positive_limit_from_env (env (str ''MAX_CONNECTIONS_PER_SOURCE'')),
      cfg_trusted_proxies =
        (case env (str ''TRUSTED_PROXIES'') of None \<Rightarrow> [] | Some s \<Rightarrow> s),
      community_nodes_file = env_or env (str ''COMMUNITY_NODES_FILE'') DEFAULT_COMMUNITY_NODES_FILE,
      community_node_capacity =
        (case Option.bind (env (str ''COMMUNITY_NODE_CAPACITY''))
                (\<lambda>raw. parse_uint USIZE_MAX (trim raw)) of
           None \<Rightarrow> DEFAULT_COMMUNITY_NODE_CAPACITY
         | Some v \<Rightarrow> if 0 < v then v else DEFAULT_COMMUNITY_NODE_CAPACITY),
      community_node_allow_private_targets =
        parse_bool (env (str ''COMMUNITY_NODE_ALLOW_PRIVATE_TARGETS'')) False\<rparr>"

text \<open>
  The process keeps its configuration in a cell that is written once (\<open>SERVER_CONFIG\<close>); whoever
  comes first decides, and what is read later no longer depends on the environment.
\<close>

definition initialize :: "ServerConfig \<Rightarrow> ServerConfig option \<Rightarrow> ServerConfig \<times> ServerConfig option" where
  "initialize config cell = (case cell of None \<Rightarrow> (config, Some config) | Some c \<Rightarrow> (c, cell))"

definition server_config ::
  "(rstr \<Rightarrow> rstr option) \<Rightarrow> ServerConfig option \<Rightarrow> ServerConfig \<times> ServerConfig option" where
  "server_config env cell =
     (case cell of None \<Rightarrow> (from_env env, Some (from_env env)) | Some c \<Rightarrow> (c, cell))"

lemma config_written_once:
  "snd (initialize config cell) = Some (fst (initialize config cell))"
  "server_config env (snd (initialize config cell)) =
     (fst (initialize config cell), snd (initialize config cell))"
  "initialize config' (snd (server_config env cell)) = server_config env cell"
  by (simp_all add: initialize_def server_config_def split: option.split)

lemma positive_limit_bounds:
  "positive_limit_from_env v = Some n \<Longrightarrow> 0 < n \<and> n \<le> USIZE_MAX"
  by (auto simp: positive_limit_from_env_def Option.bind_eq_Some_conv dest: parse_uint_le
      split: option.splits if_splits)

lemma env_value_nonempty: "dflt \<noteq> [] \<Longrightarrow> env_value v dflt \<noteq> []"
  by (auto simp: env_value_def split: option.splits)

end
