(* ===== verification/Security_Primitives.thy ===== *)
theory Security_Primitives
  imports Config_Limits
begin

text \<open>
  \<open>src/src/security.rs\<close>: random tokens, salted lobby passwords, constant-time comparison,
  session generations, and the signed registration proof.

  Random bytes are arguments of the functions that draw them. The cryptographic packages
  (sha2, base64, p256) are the record \<open>crypto\<close>: a hash function, a decoder, the two DER
  readers and the signature check. A verifying key and a signature are represented by the
  bytes that encode them.
\<close>

unbundle bit_operations_syntax

section \<open>Definitions\<close>

record crypto =
  sha256 :: "bytes \<Rightarrow> bytes"
  base64_decode :: "rstr \<Rightarrow> bytes option"
  key_from_der :: "bytes \<Rightarrow> bytes option"
  signature_from_der :: "bytes \<Rightarrow> bytes option"
  verify :: "bytes \<Rightarrow> bytes \<Rightarrow> bytes \<Rightarrow> bool"

definition CHAT_TOKEN_BYTES :: nat where
  [config_simps]: "CHAT_TOKEN_BYTES = 32"

definition LOBBY_PASSWORD_SALT_BYTES :: nat where
  [config_simps]: "LOBBY_PASSWORD_SALT_BYTES = 16"

text \<open>\<open>rnd\<close> are the bytes \<open>OsRng.fill_bytes\<close> puts into the buffer.\<close>

definition generate_chat_token :: "bytes \<Rightarrow> rstr" where
  "generate_chat_token rnd = hex_bytes rnd"

definition random_hex :: "bytes \<Rightarrow> rstr" where
  "random_hex rnd = hex_bytes rnd"

definition hash_lobby_password :: "crypto \<Rightarrow> rstr \<Rightarrow> rstr \<Rightarrow> rstr" where
  "hash_lobby_password C salt password = hex_bytes (sha256 C (as_bytes salt @ as_bytes password))"

text \<open>The loop of \<open>ct_eq\<close>, from index \<open>i\<close> on.\<close>

fun ct_diff :: "bytes \<Rightarrow> bytes \<Rightarrow> u8 \<Rightarrow> u8" where
  "ct_diff (x # xs) (y # ys) diff = ct_diff xs ys (diff OR (x XOR y))"
| "ct_diff _ _ diff = diff"

definition ct_eq :: "bytes \<Rightarrow> bytes \<Rightarrow> bool" where
  "ct_eq a b \<longleftrightarrow> (if length a \<noteq> length b then False else ct_diff a b 0 = 0)"

text \<open>
  The rejection loop of \<open>random_session_generation\<close> over the draws of \<open>OsRng.next_u64\<close>;
  \<open>None\<close> when the given draws are used up and the loop would still go on.
\<close>

definition GENERATION_MIN :: u64 where
  "GENERATION_MIN = 1000000000000000"

definition GENERATION_MAX :: u64 where
  "GENERATION_MAX = 9000000000000000"

fun random_session_generation :: "u64 list \<Rightarrow> u64 option" where
  "random_session_generation [] = None"
| "random_session_generation (draw # draws) =
     (let v = draw AND (push_bit 53 1 - 1)
      in if GENERATION_MIN \<le> v \<and> v \<le> GENERATION_MAX then Some v
         else random_session_generation draws)"

definition registration_canonical :: "rstr \<Rightarrow> rstr \<Rightarrow> rstr \<Rightarrow> bytes" where
  "registration_canonical challenge lobby_name virtual_ip =
     as_bytes (str ''MCTIER-SIGNALING-V3'' @ [10] @ show_nat (unat SIGNALING_PROTOCOL_VERSION)
       @ [10] @ challenge @ [10] @ lobby_name @ [10] @ virtual_ip)"

text \<open>
  Slicing the client id at 32 cannot fail: a SHA-256 digest has 32 bytes, so the id has 64
  ASCII characters.
\<close>

definition verify_registration_identity ::
  "crypto \<Rightarrow> rstr \<Rightarrow> rstr \<Rightarrow> rstr \<Rightarrow> rstr \<Rightarrow> rstr \<Rightarrow> (rstr \<times> rstr \<times> rstr) option" where
  "verify_registration_identity C challenge lobby_name virtual_ip identity_public_key
       challenge_signature =
     (let encoded = trim identity_public_key
      in if encoded = [] \<or> MAX_IDENTITY_PUBLIC_KEY_LEN < str_len encoded then None
         else Option.bind (base64_decode C encoded) (\<lambda>public_key_der.
           if public_key_der = [] \<or> 200 < length public_key_der then None
           else Option.bind (key_from_der C public_key_der) (\<lambda>verifying_key.
             let encoded_signature = trim challenge_signature
             in if encoded_signature = [] \<or> MAX_IDENTITY_SIGNATURE_LEN < str_len encoded_signature
                then None
                else Option.bind (base64_decode C encoded_signature) (\<lambda>signature_der.
                  Option.bind (signature_from_der C signature_der) (\<lambda>signature.
                    if verify C verifying_key
                         (registration_canonical challenge lobby_name virtual_ip) signature
                    then let client_id = hex_bytes (sha256 C public_key_der)
                         in Some (client_id, encoded, take 32 client_id @ str ''.mct.net'')
                    else None)))))"

section \<open>Facts\<close>

lemma or_eq_0_iff: "(a OR b) = 0 \<longleftrightarrow> a = 0 \<and> b = 0" for a b :: u8
  by (auto simp: bit_eq_iff bit_or_iff)

lemma xor_eq_0_iff: "(a XOR b) = 0 \<longleftrightarrow> a = b" for a b :: u8
  by (auto simp: bit_eq_iff bit_xor_iff)

lemma ct_diff_0: "length a = length b \<Longrightarrow> ct_diff a b d = 0 \<longleftrightarrow> d = 0 \<and> a = b"
  by (induction a b arbitrary: d rule: list_induct2) (auto simp: or_eq_0_iff xor_eq_0_iff)

lemma ct_eq_iff: "ct_eq a b \<longleftrightarrow> a = b"
  by (auto simp: ct_eq_def ct_diff_0)

lemma random_session_generation_Cons:
  "random_session_generation (d # ds) =
     (if GENERATION_MIN \<le> take_bit 53 d \<and> take_bit 53 d \<le> GENERATION_MAX
      then Some (take_bit 53 d) else random_session_generation ds)"
proof -
  have "(d AND (push_bit 53 1 - 1)) = take_bit 53 d"
    by (simp add: take_bit_eq_mask mask_eq_exp_minus_1 push_bit_eq_mult)
  then show ?thesis by (simp only: random_session_generation.simps Let_def)
qed

declare random_session_generation.simps(2) [simp del]

lemma random_session_generation_range:
  "random_session_generation draws = Some v \<Longrightarrow>
     GENERATION_MIN \<le> v \<and> v \<le> GENERATION_MAX \<and> unat v < 2 ^ 53"
proof (induction draws)
  case (Cons d ds)
  have "unat (take_bit 53 d) = take_bit 53 (unat d)"
    by (rule unsigned_take_bit_eq)
  then have "unat (take_bit 53 d) < 2 ^ 53"
    by (simp only: take_bit_nat_less_exp)
  with Cons show ?case by (auto simp: random_session_generation_Cons split: if_splits)
qed simp

lemma random_session_generation_total:
  assumes "d \<in> set draws" "GENERATION_MIN \<le> take_bit 53 d" "take_bit 53 d \<le> GENERATION_MAX"
  shows "\<exists>v. random_session_generation draws = Some v"
  using assms by (induction draws) (auto simp: random_session_generation_Cons)

text \<open>The same function over natural numbers, for evaluation.\<close>

lemma random_session_generation_code [code]:
  "random_session_generation [] = None"
  "random_session_generation (d # ds) =
     (let n = unat d mod 9007199254740992
      in if 1000000000000000 \<le> n \<and> n \<le> 9000000000000000 then Some (of_nat n)
         else random_session_generation ds)"
proof -
  have n: "unat (take_bit 53 d) = unat d mod 9007199254740992"
  proof -
    have "unat (take_bit 53 d) = take_bit 53 (unat d)" by (rule unsigned_take_bit_eq)
    then show ?thesis by (simp only: take_bit_eq_mod) simp
  qed
  then have "take_bit 53 d = of_nat (unat d mod 9007199254740992)"
    by (metis of_nat_unat ucast_id)
  moreover have "GENERATION_MIN \<le> take_bit 53 d \<longleftrightarrow> 1000000000000000 \<le> unat d mod 9007199254740992"
    "take_bit 53 d \<le> GENERATION_MAX \<longleftrightarrow> unat d mod 9007199254740992 \<le> 9000000000000000"
    unfolding word_le_nat_alt n by (simp_all add: GENERATION_MIN_def GENERATION_MAX_def)
  ultimately show "random_session_generation (d # ds) =
     (let n = unat d mod 9007199254740992
      in if 1000000000000000 \<le> n \<and> n \<le> 9000000000000000 then Some (of_nat n)
         else random_session_generation ds)"
    by (simp only: random_session_generation_Cons Let_def)
qed simp

end
