(* ===== verification/Ip_Addr.thy ===== *)
theory Ip_Addr
  imports Rust_Str
begin

text \<open>
  The part of \<open>std::net\<close> the server uses: \<open>IpAddr\<close>, the address classes of
  \<open>Ipv4Addr\<close> and \<open>Ipv6Addr\<close>, and the textual form of an address (the parser of
  \<open>FromStr\<close> and the printer of IPv4 addresses). An IPv4 address is a 32-bit word and an
  IPv6 address a 128-bit word in network order.
\<close>

unbundle bit_operations_syntax

section \<open>Addresses\<close>

datatype ip_addr = V4 u32 | V6 u128

type_synonym socket_addr = "ip_addr \<times> u16"

definition ipv4_octets :: "u32 \<Rightarrow> nat list" where
  "ipv4_octets a =
     [unat a div 16777216, unat a div 65536 mod 256, unat a div 256 mod 256, unat a mod 256]"

definition ipv4_of :: "nat \<Rightarrow> nat \<Rightarrow> nat \<Rightarrow> nat \<Rightarrow> u32" where
  "ipv4_of a b c d = of_nat (((a * 256 + b) * 256 + c) * 256 + d)"

definition segment :: "nat \<Rightarrow> u128 \<Rightarrow> nat" where
  "segment i a = unat a div 65536 ^ (7 - i) mod 65536"

definition ipv6_segments :: "u128 \<Rightarrow> nat list" where
  "ipv6_segments a = map (\<lambda>i. segment i a) [0..<8]"

definition ipv6_of :: "nat list \<Rightarrow> u128" where
  "ipv6_of gs = of_nat (foldl (\<lambda>acc g. acc * 65536 + g) 0 gs)"

definition to_ipv4_mapped :: "u128 \<Rightarrow> u32 option" where
  "to_ipv4_mapped a =
     (if unat a div 2 ^ 32 = 65535 then Some (of_nat (unat a mod 2 ^ 32)) else None)"

subsection \<open>Address classes\<close>

definition v4_is_unspecified :: "u32 \<Rightarrow> bool" where
  "v4_is_unspecified a \<longleftrightarrow> a = 0"

definition v4_is_loopback :: "u32 \<Rightarrow> bool" where
  "v4_is_loopback a \<longleftrightarrow> ipv4_octets a ! 0 = 127"

definition v4_is_private :: "u32 \<Rightarrow> bool" where
  "v4_is_private a \<longleftrightarrow>
     (let o0 = ipv4_octets a ! 0; o1 = ipv4_octets a ! 1
      in o0 = 10 \<or> o0 = 172 \<and> 16 \<le> o1 \<and> o1 \<le> 31 \<or> o0 = 192 \<and> o1 = 168)"

definition v4_is_link_local :: "u32 \<Rightarrow> bool" where
  "v4_is_link_local a \<longleftrightarrow> ipv4_octets a ! 0 = 169 \<and> ipv4_octets a ! 1 = 254"

definition v4_is_broadcast :: "u32 \<Rightarrow> bool" where
  "v4_is_broadcast a \<longleftrightarrow> a = - 1"

definition v4_is_documentation :: "u32 \<Rightarrow> bool" where
  "v4_is_documentation a \<longleftrightarrow>
     take 3 (ipv4_octets a) = [192, 0, 2] \<or> take 3 (ipv4_octets a) = [198, 51, 100] \<or>
     take 3 (ipv4_octets a) = [203, 0, 113]"

definition v4_is_multicast :: "u32 \<Rightarrow> bool" where
  "v4_is_multicast a \<longleftrightarrow> 224 \<le> ipv4_octets a ! 0 \<and> ipv4_octets a ! 0 \<le> 239"

definition v6_is_unspecified :: "u128 \<Rightarrow> bool" where
  "v6_is_unspecified a \<longleftrightarrow> a = 0"

definition v6_is_loopback :: "u128 \<Rightarrow> bool" where
  "v6_is_loopback a \<longleftrightarrow> a = 1"

definition v6_is_multicast :: "u128 \<Rightarrow> bool" where
  "v6_is_multicast a \<longleftrightarrow> (segment 0 a AND 65280) = 65280"

section \<open>Textual addresses\<close>

text \<open>
  The recursive-descent parser of \<open>core::net\<close>. Each reader returns the value and the rest
  of the input, or \<open>None\<close> without consuming anything.
\<close>

definition digit_val :: "nat \<Rightarrow> nat \<Rightarrow> nat option" where
  "digit_val radix c =
     (let v = (if 48 \<le> c \<and> c \<le> 57 then Some (c - 48)
               else if 97 \<le> c \<and> c \<le> 122 then Some (c - 87)
               else if 65 \<le> c \<and> c \<le> 90 then Some (c - 55) else None)
      in case v of Some n \<Rightarrow> if n < radix then Some n else None | None \<Rightarrow> None)"

definition read_number :: "nat \<Rightarrow> nat \<Rightarrow> bool \<Rightarrow> nat \<Rightarrow> rstr \<Rightarrow> (nat \<times> rstr) option" where
  "read_number radix max_digits allow_zero_prefix bound s =
     (let ds = takeWhile (\<lambda>c. digit_val radix c \<noteq> None) s;
          v = foldl (\<lambda>a c. a * radix + the (digit_val radix c)) 0 ds
      in if ds = [] \<or> max_digits < length ds \<or> bound < v
            \<or> \<not> allow_zero_prefix \<and> hd ds = 48 \<and> 1 < length ds
         then None
         else Some (v, dropWhile (\<lambda>c. digit_val radix c \<noteq> None) s))"

definition read_char :: "nat \<Rightarrow> rstr \<Rightarrow> rstr option" where
  "read_char c s = strip_prefix c s"

definition read_octet :: "rstr \<Rightarrow> (nat \<times> rstr) option" where
  "read_octet s = read_number 10 3 False 255 s"

definition read_ipv4 :: "rstr \<Rightarrow> (u32 \<times> rstr) option" where
  "read_ipv4 s =
     Option.bind (read_octet s) (\<lambda>(a, s).
     Option.bind (read_char 46 s) (\<lambda>s. Option.bind (read_octet s) (\<lambda>(b, s).
     Option.bind (read_char 46 s) (\<lambda>s. Option.bind (read_octet s) (\<lambda>(c, s).
     Option.bind (read_char 46 s) (\<lambda>s. Option.bind (read_octet s) (\<lambda>(d, s).
     Some (ipv4_of a b c d, s))))))))"

definition read_sep :: "nat \<Rightarrow> (rstr \<Rightarrow> ('a \<times> rstr) option) \<Rightarrow> rstr \<Rightarrow> ('a \<times> rstr) option" where
  "read_sep i f s = (if 0 < i then Option.bind (read_char 58 s) f else f s)"

text \<open>
  \<open>read_groups\<close> reads up to \<open>left\<close> 16-bit groups, the \<open>i\<close>-th of them first; the flag
  says that the last two groups are an embedded IPv4 address.
\<close>

fun read_groups :: "nat \<Rightarrow> nat \<Rightarrow> rstr \<Rightarrow> nat list \<times> bool \<times> rstr" where
  "read_groups 0 i s = ([], False, s)"
| "read_groups (Suc left) i s =
     (case (if 0 < left then read_sep i read_ipv4 s else None) of
        Some (a, rest) \<Rightarrow> ([unat a div 65536, unat a mod 65536], True, rest)
      | None \<Rightarrow>
          (case read_sep i (read_number 16 4 True 65535) s of
             Some (g, rest) \<Rightarrow>
               (let (gs, v4, rest') = read_groups left (Suc i) rest in (g # gs, v4, rest'))
           | None \<Rightarrow> ([], False, s)))"

definition read_ipv6 :: "rstr \<Rightarrow> (u128 \<times> rstr) option" where
  "read_ipv6 s =
     (let (hd_groups, hd_v4, s1) = read_groups 8 0 s
      in if length hd_groups = 8 then Some (ipv6_of hd_groups, s1)
         else if hd_v4 then None
         else Option.bind (read_char 58 s1) (\<lambda>s2. Option.bind (read_char 58 s2) (\<lambda>s3.
           let (tl_groups, _, s4) = read_groups (8 - (length hd_groups + 1)) 0 s3
           in Some (ipv6_of (hd_groups
                       @ replicate (8 - length hd_groups - length tl_groups) 0 @ tl_groups),
                    s4))))"

definition parse_ipv4 :: "rstr \<Rightarrow> u32 option" where
  "parse_ipv4 s =
     (if 15 < str_len s then None
      else case read_ipv4 s of Some (a, []) \<Rightarrow> Some a | _ \<Rightarrow> None)"

definition parse_ip :: "rstr \<Rightarrow> ip_addr option" where
  "parse_ip s =
     (case (case read_ipv4 s of
              Some (a, r) \<Rightarrow> Some (V4 a, r)
            | None \<Rightarrow> map_option (\<lambda>(a, r). (V6 a, r)) (read_ipv6 s)) of
        Some (ip, []) \<Rightarrow> Some ip
      | _ \<Rightarrow> None)"

definition show_ipv4 :: "u32 \<Rightarrow> rstr" where
  "show_ipv4 a =
     show_nat (ipv4_octets a ! 0) @ 46 # show_nat (ipv4_octets a ! 1) @ 46 #
     show_nat (ipv4_octets a ! 2) @ 46 # show_nat (ipv4_octets a ! 3)"

section \<open>Reading back a printed IPv4 address\<close>

lemma digit_val_digit: "is_digit c \<Longrightarrow> digit_val 10 c = Some (c - 48)"
  by (auto simp: digit_val_def is_digit_def)

lemma digit_val_sep [simp]: "digit_val 10 46 = None"
  by (simp add: digit_val_def)

lemma show_nat_small:
  "n < 10 \<Longrightarrow> show_nat n = [48 + n]"
  "10 \<le> n \<Longrightarrow> n < 100 \<Longrightarrow> show_nat n = [48 + n div 10, 48 + n mod 10]"
  "100 \<le> n \<Longrightarrow> n < 1000 \<Longrightarrow> show_nat n = [48 + n div 100, 48 + n div 10 mod 10, 48 + n mod 10]"
proof -
  show 1: "show_nat n = [48 + n]" if "n < 10" for n
    using that by (simp add: show_nat.simps)
  show 2: "show_nat n = [48 + n div 10, 48 + n mod 10]" if "10 \<le> n" "n < 100" for n
    using that by (subst show_nat.simps) (auto simp: 1)
  show "100 \<le> n \<Longrightarrow> n < 1000 \<Longrightarrow> show_nat n = [48 + n div 100, 48 + n div 10 mod 10, 48 + n mod 10]"
  proof -
    assume n: "100 \<le> n" "n < 1000"
    then have "10 \<le> n div 10" "n div 10 < 100" by auto
    with n show ?thesis
      by (subst show_nat.simps) (simp add: 2 div_mult2_eq [symmetric])
  qed
qed

lemma read_octet_show:
  assumes "n < 256" and "r = [] \<or> hd r = 46"
  shows "read_octet (show_nat n @ r) = Some (n, r)"
proof -
  have digits: "\<forall>c \<in> set (show_nat n). digit_val 10 c \<noteq> None"
    using show_nat_digits [of n] by (auto simp: list_all_iff digit_val_digit)
  have stop: "r = [] \<or> \<not> digit_val 10 (hd r) \<noteq> None" using assms(2) by auto
  note split = takeWhile_append_stop [OF digits stop]
  have "foldl (\<lambda>a c. a * 10 + the (digit_val 10 c)) 0 (show_nat n) = n"
  proof -
    have "foldl (\<lambda>a c. a * 10 + the (digit_val 10 c)) acc ds =
        foldl (\<lambda>a d. 10 * a + (d - 48)) acc ds" if "list_all is_digit ds" for ds acc
      using that by (induction ds arbitrary: acc) (auto simp: digit_val_digit ac_simps)
    then show ?thesis
      using show_nat_digits [of n] digits_val_show_nat [of n] by (simp add: digits_val_def)
  qed
  moreover have "length (show_nat n) \<le> 3 \<and> (hd (show_nat n) = 48 \<longrightarrow> length (show_nat n) \<le> 1)"
    using assms(1) show_nat_small [of n]
    by (cases "n < 10"; cases "n < 100") auto
  ultimately show ?thesis
    using split show_nat_digits [of n] assms(1)
    by (auto simp: read_octet_def read_number_def Let_def)
qed

lemma ipv4_octets_lt:
  "ipv4_octets a ! 0 < 256" "ipv4_octets a ! 1 < 256"
  "ipv4_octets a ! 2 < 256" "ipv4_octets a ! 3 < 256"
proof -
  have "unat a < 256 * 16777216" using unat_bound [of a] by simp
  then have "unat a div 16777216 < 256" by (simp add: less_mult_imp_div_less)
  then show "ipv4_octets a ! 0 < 256" "ipv4_octets a ! 1 < 256"
    "ipv4_octets a ! 2 < 256" "ipv4_octets a ! 3 < 256"
    by (simp_all add: ipv4_octets_def)
qed

lemma ipv4_of_octets:
  "ipv4_of (ipv4_octets a ! 0) (ipv4_octets a ! 1) (ipv4_octets a ! 2) (ipv4_octets a ! 3) = a"
proof -
  define n where "n = unat a"
  have 1: "n div 16777216 * 256 + n div 65536 mod 256 = n div 65536"
    using div_mult_mod_eq [of "n div 65536" 256] by (simp add: div_mult2_eq [symmetric])
  have 2: "n div 65536 * 256 + n div 256 mod 256 = n div 256"
    using div_mult_mod_eq [of "n div 256" 256] by (simp add: div_mult2_eq [symmetric])
  have 3: "n div 256 * 256 + n mod 256 = n" by (rule div_mult_mod_eq)
  have "((n div 16777216 * 256 + n div 65536 mod 256) * 256 + n div 256 mod 256) * 256
      + n mod 256 = n"
    by (simp only: 1 2 3)
  then show ?thesis by (simp add: ipv4_of_def ipv4_octets_def n_def)
qed

lemma show_nat_len: "n < 256 \<Longrightarrow> str_len (show_nat n) \<le> 3"
  using show_nat_small [of n]
  by (cases "n < 10"; cases "n < 100") (auto simp: utf8_len_def)

lemma show_ipv4_len: "str_len (show_ipv4 a) \<le> 15"
  using ipv4_octets_lt [of a, THEN show_nat_len]
  by (simp add: show_ipv4_def utf8_len_def)

lemma parse_show_ipv4: "parse_ipv4 (show_ipv4 a) = Some a"
proof -
  have "read_ipv4 (show_ipv4 a) = Some (a, [])"
    using read_octet_show [OF ipv4_octets_lt(4), of "[]" a] ipv4_of_octets [of a]
    by (simp add: read_ipv4_def show_ipv4_def read_octet_show ipv4_octets_lt
        ipv4_octets_lt(2) [unfolded One_nat_def] read_char_def strip_prefix_def)
  with show_ipv4_len [of a] show ?thesis by (simp add: parse_ipv4_def)
qed

end
