(* ===== verification/Wire_Protocol.thy ===== *)
theory Wire_Protocol
  imports Wire_Messages Security_Primitives Ip_Addr
begin

text \<open>
  The functions of \<open>src/src/protocol.rs\<close>: the sender a message claims and the bounds every
  incoming message is checked against before it is routed.
\<close>

section \<open>The claimed sender\<close>

definition claimed_sender :: "SignalingMessage \<Rightarrow> rstr option" where
  "claimed_sender m =
     (case m of
        Offer frm _ _ _ \<Rightarrow> Some frm
      | VoiceReconnect frm _ \<Rightarrow> Some frm
      | Answer frm _ _ \<Rightarrow> Some frm
      | IceCandidate frm _ _ \<Rightarrow> Some frm
      | ChatMessage frm _ _ _ _ \<Rightarrow> Some frm
      | ScreenShareStart frm _ _ _ \<Rightarrow> Some frm
      | ScreenShareStop frm _ \<Rightarrow> Some frm
      | ScreenShareRelay frm _ _ _ _ _ _ _ _ _ _ _ _ _ \<Rightarrow> Some frm
      | ScreenShareOffer frm _ _ _ _ _ _ \<Rightarrow> Some frm
      | ScreenShareAnswer frm _ _ _ _ \<Rightarrow> Some frm
      | ScreenShareIceCandidate frm _ _ _ _ _ \<Rightarrow> Some frm
      | ScreenShareError frm _ _ _ \<Rightarrow> Some frm
      | ScreenShareListRequest frm \<Rightarrow> Some frm
      | ScreenShareListResponse frm _ _ _ _ \<Rightarrow> Some frm
      | ScreenShareViewerLeft frm _ \<Rightarrow> Some frm
      | ScreenShareUpdate frm _ _ _ _ \<Rightarrow> Some frm
      | FileShareAdded frm _ _ _ _ \<Rightarrow> Some frm
      | FileShareRemoved frm _ \<Rightarrow> Some frm
      | FileShareListRequest frm \<Rightarrow> Some frm
      | FileShareListResponse frm _ _ \<Rightarrow> Some frm
      | ShareUpdated frm _ _ _ _ \<Rightarrow> Some frm
      | RemoteControlRequest frm _ _ _ \<Rightarrow> Some frm
      | RemoteControlAccept frm _ _ \<Rightarrow> Some frm
      | RemoteControlReject frm _ _ _ \<Rightarrow> Some frm
      | RemoteControlOffer frm _ _ _ \<Rightarrow> Some frm
      | RemoteControlAnswer frm _ _ _ \<Rightarrow> Some frm
      | RemoteControlIce frm _ _ _ \<Rightarrow> Some frm
      | RemoteControlStop frm _ _ \<Rightarrow> Some frm
      | KickPlayer frm _ \<Rightarrow> Some frm
      | MutePlayer frm _ _ \<Rightarrow> Some frm
      | TransferHost frm _ \<Rightarrow> Some frm
      | SetLobbyOptions frm _ _ _ _ \<Rightarrow> Some frm
      | StatusUpdate client_id _ \<Rightarrow> Some client_id
      | Leave client_id \<Rightarrow> Some client_id
      | _ \<Rightarrow> None)"

section \<open>Bounded text\<close>

definition parse_virtual_ipv4 :: "rstr option \<Rightarrow> u32 option" where
  "parse_virtual_ipv4 raw =
     Option.bind raw (\<lambda>s. Option.bind (parse_ipv4 (trim s)) (\<lambda>ip.
       let octets = ipv4_octets ip
       in if take 3 octets \<noteq> [10, 126, 126] \<or> octets ! 3 = 0 \<or> octets ! 3 = 255 then None
          else Some ip))"

definition valid_text :: "rstr \<Rightarrow> nat \<Rightarrow> bool \<Rightarrow> bool" where
  "valid_text s max_len allow_empty \<longleftrightarrow>
     (allow_empty \<or> trim s \<noteq> []) \<and> str_len s \<le> max_len \<and> \<not> list_ex is_control s"

definition valid_identifier :: "rstr \<Rightarrow> bool" where
  "valid_identifier s \<longleftrightarrow> valid_text s MAX_CLIENT_ID_LEN False"

definition valid_control_text :: "rstr \<Rightarrow> nat \<Rightarrow> bool \<Rightarrow> bool" where
  "valid_control_text s max_len allow_empty \<longleftrightarrow>
     valid_text s (min max_len MAX_CONTROL_TEXT_LEN) allow_empty"

definition valid_session_id :: "rstr \<Rightarrow> bool" where
  "valid_session_id s \<longleftrightarrow> valid_text s MAX_REMOTE_SESSION_ID_LEN False"

definition valid_share_id :: "rstr \<Rightarrow> bool" where
  "valid_share_id s \<longleftrightarrow> valid_text s MAX_SHARE_ID_LEN False"

definition valid_session_description :: "rstr \<Rightarrow> rstr \<Rightarrow> rstr \<Rightarrow> bool" where
  "valid_session_description sdp_type sdp expected_type \<longleftrightarrow>
     sdp_type = expected_type \<and> str_len sdp \<le> MAX_SDP_LEN \<and> sdp \<noteq> [] \<and>
     \<not> list_ex (\<lambda>ch. is_control ch \<and> ch \<noteq> 13 \<and> ch \<noteq> 10) sdp"

definition valid_offer_data :: "OfferData \<Rightarrow> rstr \<Rightarrow> bool" where
  "valid_offer_data d expected_type \<longleftrightarrow>
     valid_session_description (offer_type d) (offer_sdp d) expected_type"

definition valid_answer_data :: "AnswerData \<Rightarrow> rstr \<Rightarrow> bool" where
  "valid_answer_data d expected_type \<longleftrightarrow>
     valid_session_description (answer_type d) (answer_sdp d) expected_type"

text \<open>\<open>Option::is_none_or\<close> and \<open>Option::is_some_and\<close>.\<close>

definition is_none_or :: "'a option \<Rightarrow> ('a \<Rightarrow> bool) \<Rightarrow> bool" where
  "is_none_or v P \<longleftrightarrow> (case v of None \<Rightarrow> True | Some x \<Rightarrow> P x)"

definition is_some_and :: "'a option \<Rightarrow> ('a \<Rightarrow> bool) \<Rightarrow> bool" where
  "is_some_and v P \<longleftrightarrow> (case v of None \<Rightarrow> False | Some x \<Rightarrow> P x)"

definition valid_candidate_data :: "CandidateData \<Rightarrow> bool" where
  "valid_candidate_data d \<longleftrightarrow>
     cand_candidate d \<noteq> [] \<and> str_len (cand_candidate d) \<le> MAX_ICE_CANDIDATE_LEN \<and>
     \<not> list_ex is_control (cand_candidate d) \<and>
     is_none_or (cand_sdp_m_line_index d) (\<lambda>index. index \<le> 256) \<and>
     is_none_or (cand_sdp_mid d) (\<lambda>mid. valid_control_text mid 128 True)"

section \<open>The shape of a message\<close>

definition ids :: "rstr \<Rightarrow> rstr \<Rightarrow> bool" where
  "ids frm dst \<longleftrightarrow> valid_identifier frm \<and> valid_identifier dst"

definition optional_control :: "rstr option \<Rightarrow> nat \<Rightarrow> bool" where
  "optional_control v max_len \<longleftrightarrow> is_none_or v (\<lambda>s. valid_control_text s max_len True)"

text \<open>The branch for \<open>RegisterV3\<close>, the message that creates sessions.\<close>

definition valid_register_v3 ::
  "rstr \<Rightarrow> rstr \<Rightarrow> rstr \<Rightarrow> rstr option \<Rightarrow> rstr \<Rightarrow> rstr \<Rightarrow> rstr option \<Rightarrow> rstr option \<Rightarrow> bool" where
  "valid_register_v3 identity_public_key challenge_signature player_name virtual_ip lobby_name
       lobby_password client_version virtual_domain \<longleftrightarrow>
     str_len identity_public_key \<le> MAX_IDENTITY_PUBLIC_KEY_LEN \<and>
     str_len challenge_signature \<le> MAX_IDENTITY_SIGNATURE_LEN \<and>
     valid_control_text player_name MAX_PLAYER_NAME_LEN False \<and>
     is_some_and virtual_ip (\<lambda>ip. valid_control_text ip 32 False) \<and>
     optional_control virtual_domain MAX_VIRTUAL_DOMAIN_LEN \<and>
     valid_control_text lobby_name MAX_LOBBY_NAME_LEN False \<and>
     valid_control_text lobby_password MAX_LOBBY_PASSWORD_LEN True \<and>
     optional_control client_version MAX_CLIENT_VERSION_LEN"

text \<open>The screen-sharing branches.\<close>

definition valid_screen_share :: "SignalingMessage \<Rightarrow> bool" where
  "valid_screen_share m \<longleftrightarrow>
     (case m of
        ScreenShareStart frm share_id player_name _ \<Rightarrow>
          valid_identifier frm \<and> valid_share_id share_id \<and>
          valid_control_text player_name MAX_PLAYER_NAME_LEN False
      | ScreenShareStop frm share_id \<Rightarrow> valid_identifier frm \<and> valid_share_id share_id
      | ScreenShareViewerLeft frm share_id \<Rightarrow> valid_identifier frm \<and> valid_share_id share_id
      | ScreenShareRelay frm dst share_id action player_name password upstream_id downstream_id
            _ sq source_sequence sent_sequence _ reason \<Rightarrow>
          ids frm dst \<and> valid_share_id share_id \<and> valid_control_text action 32 False \<and>
          optional_control player_name MAX_PLAYER_NAME_LEN \<and>
          optional_control password MAX_CONTROL_TEXT_LEN \<and>
          optional_control upstream_id MAX_CLIENT_ID_LEN \<and>
          optional_control downstream_id MAX_CLIENT_ID_LEN \<and>
          optional_control reason 256 \<and>
          list_all (\<lambda>v. is_none_or v (\<lambda>n. n \<le> 1000000000)) [sq, source_sequence, sent_sequence]
      | ScreenShareOffer frm dst share_id player_name password _ offer \<Rightarrow>
          ids frm dst \<and> valid_share_id share_id \<and>
          optional_control player_name MAX_PLAYER_NAME_LEN \<and>
          optional_control password MAX_CONTROL_TEXT_LEN \<and>
          valid_offer_data offer (str ''offer'')
      | ScreenShareAnswer frm dst share_id _ answer \<Rightarrow>
          ids frm dst \<and> valid_share_id share_id \<and> valid_answer_data answer (str ''answer'')
      | ScreenShareIceCandidate frm dst share_id connection_role _ candidate \<Rightarrow>
          ids frm dst \<and> valid_share_id share_id \<and> optional_control connection_role 32 \<and>
          valid_candidate_data candidate
      | ScreenShareError frm dst share_id err \<Rightarrow>
          ids frm dst \<and> valid_share_id share_id \<and> valid_control_text err MAX_ERROR_TEXT_LEN False
      | ScreenShareListRequest frm \<Rightarrow> valid_identifier frm
      | ScreenShareListResponse frm dst share_id player_name _ \<Rightarrow>
          ids frm dst \<and> valid_share_id share_id \<and>
          valid_control_text player_name MAX_PLAYER_NAME_LEN False
      | ScreenShareUpdate frm share_id viewer_id viewer_name _ \<Rightarrow>
          valid_identifier frm \<and> valid_share_id share_id \<and>
          optional_control viewer_id MAX_CLIENT_ID_LEN \<and>
          optional_control viewer_name MAX_PLAYER_NAME_LEN
      | _ \<Rightarrow> True)"

text \<open>The file-sharing and remote-control branches.\<close>

definition valid_file_share :: "SignalingMessage \<Rightarrow> bool" where
  "valid_file_share m \<longleftrightarrow>
     (case m of
        FileShareListRequest frm \<Rightarrow> valid_identifier frm
      | FileShareAdded frm share_id share_name player_name _ \<Rightarrow>
          valid_identifier frm \<and> valid_share_id share_id \<and>
          valid_control_text share_name MAX_SHARE_NAME_LEN False \<and>
          valid_control_text player_name MAX_PLAYER_NAME_LEN False
      | FileShareRemoved frm share_id \<Rightarrow> valid_identifier frm \<and> valid_share_id share_id
      | FileShareListResponse frm dst shares \<Rightarrow>
          ids frm dst \<and> length shares \<le> 256 \<and>
          list_all (\<lambda>share. valid_share_id (fs_share_id share) \<and>
            valid_control_text (fs_share_name share) MAX_SHARE_NAME_LEN False \<and>
            valid_control_text (fs_player_name share) MAX_PLAYER_NAME_LEN False) shares
      | ShareUpdated frm share_id share_name player_name _ \<Rightarrow>
          valid_identifier frm \<and> valid_share_id share_id \<and>
          optional_control share_name MAX_SHARE_NAME_LEN \<and>
          optional_control player_name MAX_PLAYER_NAME_LEN
      | _ \<Rightarrow> True)"

definition valid_remote_control :: "SignalingMessage \<Rightarrow> bool" where
  "valid_remote_control m \<longleftrightarrow>
     (case m of
        RemoteControlRequest frm dst session_id from_name \<Rightarrow>
          ids frm dst \<and> valid_session_id session_id \<and> valid_control_text from_name 64 False
      | RemoteControlAccept frm dst session_id \<Rightarrow> ids frm dst \<and> valid_session_id session_id
      | RemoteControlStop frm dst session_id \<Rightarrow> ids frm dst \<and> valid_session_id session_id
      | RemoteControlReject frm dst session_id reason \<Rightarrow>
          ids frm dst \<and> valid_session_id session_id \<and>
          valid_control_text reason MAX_ERROR_TEXT_LEN False
      | RemoteControlOffer frm dst session_id offer \<Rightarrow>
          ids frm dst \<and> valid_session_id session_id \<and> valid_offer_data offer (str ''offer'')
      | RemoteControlAnswer frm dst session_id answer \<Rightarrow>
          ids frm dst \<and> valid_session_id session_id \<and> valid_answer_data answer (str ''answer'')
      | RemoteControlIce frm dst session_id candidate \<Rightarrow>
          ids frm dst \<and> valid_session_id session_id \<and> valid_candidate_data candidate
      | _ \<Rightarrow> True)"

definition is_hex_lower :: "u8 \<Rightarrow> bool" where
  "is_hex_lower b \<longleftrightarrow> 48 \<le> b \<and> b \<le> 57 \<or> 97 \<le> b \<and> b \<le> 102"

text \<open>The whole check; the groups above are the branches of its \<open>match\<close>.\<close>

definition validate_message_shape :: "SignalingMessage \<Rightarrow> bool" where
  "validate_message_shape m \<longleftrightarrow>
     (case m of
        ServerChallenge challenge _ _ \<Rightarrow>
          str_len challenge = CHALLENGE_BYTES * 2 \<and> list_all is_hex_lower (as_bytes challenge)
      | RegisterV3 _ _ identity_public_key challenge_signature player_name virtual_ip lobby_name
            lobby_password client_version virtual_domain _ \<Rightarrow>
          valid_register_v3 identity_public_key challenge_signature player_name virtual_ip
            lobby_name lobby_password client_version virtual_domain
      | Register client_id player_name virtual_ip virtual_domain _ lobby_name lobby_password
            client_version chat_public_key \<Rightarrow>
          valid_identifier client_id \<and>
          valid_control_text player_name MAX_PLAYER_NAME_LEN False \<and>
          is_none_or virtual_ip (\<lambda>ip. valid_control_text ip 32 False) \<and>
          optional_control virtual_domain MAX_VIRTUAL_DOMAIN_LEN \<and>
          valid_control_text lobby_name MAX_LOBBY_NAME_LEN False \<and>
          valid_control_text lobby_password MAX_LOBBY_PASSWORD_LEN True \<and>
          optional_control client_version MAX_CLIENT_VERSION_LEN \<and>
          optional_control chat_public_key MAX_CHAT_PUBLIC_KEY_LEN
      | Offer frm dst offer _ \<Rightarrow> ids frm dst \<and> valid_offer_data offer (str ''offer'')
      | Answer frm dst answer \<Rightarrow> ids frm dst \<and> valid_answer_data answer (str ''answer'')
      | VoiceReconnect frm dst \<Rightarrow> ids frm dst \<and> frm \<noteq> dst
      | IceCandidate frm dst candidate \<Rightarrow> ids frm dst \<and> valid_candidate_data candidate
      | ChatMessage frm player_id player_name content _ \<Rightarrow>
          valid_identifier frm \<and> valid_identifier player_id \<and>
          valid_control_text player_name MAX_PLAYER_NAME_LEN False \<and>
          valid_control_text content MAX_CONTROL_TEXT_LEN False
      | StatusUpdate client_id _ \<Rightarrow> valid_identifier client_id
      | Leave client_id \<Rightarrow> valid_identifier client_id
      | KickPlayer frm target \<Rightarrow> valid_identifier frm \<and> valid_identifier target
      | MutePlayer frm target _ \<Rightarrow> valid_identifier frm \<and> valid_identifier target
      | TransferHost frm target \<Rightarrow> valid_identifier frm \<and> valid_identifier target
      | SetLobbyOptions frm _ _ description server_node \<Rightarrow>
          valid_identifier frm \<and> optional_control description MAX_CONTROL_TEXT_LEN \<and>
          optional_control server_node MAX_LOBBY_PASSWORD_LEN
      | CommunityNodeSubmit name address submitter \<Rightarrow>
          valid_control_text name COMMUNITY_NODE_NAME_MAX_LEN False \<and>
          valid_control_text address COMMUNITY_NODE_ADDRESS_MAX_LEN False \<and>
          optional_control submitter COMMUNITY_NODE_SUBMITTER_MAX_LEN
      | _ \<Rightarrow> valid_screen_share m \<and> valid_file_share m \<and> valid_remote_control m)"

definition valid_chat_public_key :: "crypto \<Rightarrow> rstr \<Rightarrow> bool" where
  "valid_chat_public_key C s \<longleftrightarrow>
     (if s = [] \<or> MAX_CHAT_PUBLIC_KEY_LEN < str_len s then False
      else is_some_and (base64_decode C s) (\<lambda>der. key_from_der C der \<noteq> None))"

definition normalize_chat_public_key :: "crypto \<Rightarrow> rstr option \<Rightarrow> rstr option" where
  "normalize_chat_public_key C raw =
     Option.bind raw (\<lambda>s. if valid_chat_public_key C (trim s) then Some (trim s) else None)"

definition effective_public_setting :: "bool \<Rightarrow> bool \<Rightarrow> bool" where
  "effective_public_setting requested_public is_passwordless \<longleftrightarrow>
     requested_public \<and> is_passwordless"

end
