(* ===== verification/Wire_Codec.thy ===== *)
theory Wire_Codec
  imports Wire_Json Wire_Protocol "HOL-Library.Sublist" "HOL-Library.Multiset"
begin

text \<open>
  Facts on serialised messages: every message is a JSON object with distinct fields, the field
  \<open>from\<close> (or \<open>clientId\<close>) of a client message is the sender it claims, and a message that
  passed the shape check carries bounded text only. The last section gives one printer and
  reader of values that satisfies \<open>serde_law\<close>.
\<close>

section \<open>Messages are objects\<close>

definition keys_in :: "(rstr \<times> json) list \<Rightarrow> string list \<Rightarrow> bool" where
  "keys_in fs names \<longleftrightarrow> subseq (map fst fs) (map str names)"

lemma keys_in_append: "keys_in a xs \<Longrightarrow> keys_in b ys \<Longrightarrow> keys_in (a @ b) (xs @ ys)"
  by (simp add: keys_in_def list_emb_append_mono)

lemma keys_in_field:
  "keys_in (jstr n s) [n]" "keys_in (jbool n b) [n]" "keys_in (jword n w) [n]" "keys_in (jval n v) [n]"
  "keys_in (strs_json n xs) [n]" "keys_in (entry_mode_json n e) [n]" "keys_in [] []"
  by (simp_all add: keys_in_def jstr_def jbool_def jword_def jval_def strs_json_def entry_mode_json_def)

lemma keys_in_jopt: "(\<And>x. keys_in (f n x) [n]) \<Longrightarrow> keys_in (jopt f n v) [n]"
  by (cases v) (auto simp: jopt_def keys_in_def)

lemma keys_in_jnullable: "(\<And>x. keys_in (f n x) [n]) \<Longrightarrow> keys_in (jnullable f n v) [n]"
  by (cases v) (auto simp: jnullable_def keys_in_def)

definition json_object :: "json \<Rightarrow> bool" where
  "json_object j \<longleftrightarrow> (case j of JObj fs \<Rightarrow> distinct (map fst fs) | _ \<Rightarrow> False)"

lemma json_object_tagged: "keys_in fs names \<Longrightarrow> distinct (''type'' # names) \<Longrightarrow> json_object (tagged t fs)"
proof -
  assume k: "keys_in fs names" and d: "distinct (''type'' # names)"
  have "subseq (str ''type'' # map fst fs) (map str (''type'' # names))"
    using k by (simp add: keys_in_def)
  moreover have "distinct (map str (''type'' # names))"
    using d by (simp only: distinct_map inj_on_def str_eq_iff) simp
  ultimately have "distinct (str ''type'' # map fst fs)"
    by (metis distinct_nthsI subseq_conv_nths)
  then show ?thesis by (simp add: json_object_def tagged_def)
qed

lemmas keys_in_rules = keys_in_append keys_in_field keys_in_jopt keys_in_jnullable

lemma tagged_neq: "tagged t fs \<noteq> JNull" by (simp add: tagged_def)

lemma message_json_object: "json_object (message_json m)"
  by (cases m; simp only: message_json_def session_json_def media_json_def share_json_def
      admin_json_def SignalingMessage.case tagged_neq simp_thms if_True if_False;
      rule json_object_tagged, (rule keys_in_rules)+, simp)

definition json_sender :: "json \<Rightarrow> rstr option" where
  "json_sender j =
     Option.bind
       (case json_get j (str ''from'') of Some v \<Rightarrow> Some v | None \<Rightarrow> json_get j (str ''clientId''))
       json_as_str"

lemma json_sender_from: "json_sender (tagged t (jstr ''from'' s @ fs)) = Some s"
  by (simp add: json_sender_def tagged_def json_get_def jstr_def json_as_str_def)

lemma json_sender_client: "json_sender (tagged t (jstr ''clientId'' s)) = Some s"
  "json_sender (tagged t (jstr ''clientId'' s @ jbool ''micEnabled'' b)) = Some s"
  "json_sender (tagged t (jstr ''from'' s)) = Some s"
  by (simp_all add: json_sender_def tagged_def json_get_def jstr_def jbool_def json_as_str_def)

lemma message_json_sender:
  "claimed_sender m = Some s \<Longrightarrow> json_sender (message_json m) = Some s"
  by (cases m; simp only: message_json_def session_json_def media_json_def share_json_def
      admin_json_def SignalingMessage.case tagged_neq simp_thms if_True if_False
      claimed_sender_def option.inject option.distinct json_sender_from json_sender_client)

section \<open>Messages can be written and read back\<close>

lemma json_shape_mono: "json_shape n j \<Longrightarrow> n \<le> m \<Longrightarrow> json_shape m j"
proof (induction n j arbitrary: m rule: json_shape.induct)
  case (2 n xs)
  then show ?case by (cases m) (auto simp: list_all_iff)
next
  case (3 n fs)
  then show ?case by (cases m) (fastforce simp: list_all_iff)+
qed auto

definition fields_shape :: "nat \<Rightarrow> (rstr \<times> json) list \<Rightarrow> bool" where
  "fields_shape n fs \<longleftrightarrow> list_all (\<lambda>(k, v). json_shape n v) fs"

lemma uint_json: "LENGTH('a::len) \<le> 64 \<Longrightarrow> json_shape n (JNum (uint (w :: 'a word)))"
proof -
  assume "LENGTH('a) \<le> 64"
  then have "(2::int) ^ LENGTH('a) \<le> 2 ^ 64" by (intro power_increasing) auto
  with uint_bounded [of w] have "uint w < 2 ^ 64" by linarith
  moreover have "- (2 ^ 63) \<le> uint w" by (rule order_trans [OF _ uint_nonnegative]) simp
  ultimately show ?thesis by (simp only: json_shape.simps)
qed

lemma sint_json: "json_shape n (JNum (sint (w :: i64)))"
  using sint_range_size [of w] by (simp add: word_size)

lemma fields_shape_rules:
  "fields_shape n xs \<Longrightarrow> fields_shape n ys \<Longrightarrow> fields_shape n (xs @ ys)"
  "fields_shape n []" "fields_shape n (jstr t s)" "fields_shape n (jbool t b)"
  "fields_shape n (entry_mode_json t e)" "fields_shape (Suc n) (strs_json t ss)"
  "json_shape n v \<Longrightarrow> fields_shape n (jval t v)"
  by (auto simp: fields_shape_def jstr_def jbool_def entry_mode_json_def strs_json_def jval_def
      list_all_iff)

lemma fields_shape_jword:
  "fields_shape n (jword t (w16 :: u16))" "fields_shape n (jword t (w32 :: u32))"
  "fields_shape n (jword t (w64 :: u64))"
  by (simp_all add: fields_shape_def jword_def uint_json del: json_shape.simps)

lemma fields_shape_jopt: "(\<And>x. fields_shape n (f t x)) \<Longrightarrow> fields_shape n (jopt f t v)"
  by (cases v) (simp_all add: jopt_def fields_shape_def)

lemma fields_shape_jnullable: "(\<And>x. fields_shape n (f t x)) \<Longrightarrow> fields_shape n (jnullable f t v)"
  by (cases v) (simp_all add: jnullable_def fields_shape_def)

lemma json_shape_arr: "(\<And>x. json_shape n (f x)) \<Longrightarrow> json_shape (Suc n) (JArr (map f xs))"
  by (simp add: list_all_iff)

lemma json_shape_keys:
  "keys_in fs names \<Longrightarrow> distinct names \<Longrightarrow> fields_shape n fs \<Longrightarrow> json_shape (Suc n) (JObj fs)"
proof -
  assume k: "keys_in fs names" and d: "distinct names" and f: "fields_shape n fs"
  have "distinct (map str names)"
    using d by (simp only: distinct_map inj_on_def str_eq_iff) simp
  with k have "distinct (map fst fs)" unfolding keys_in_def by (metis distinct_nthsI subseq_conv_nths)
  with f show ?thesis by (simp add: fields_shape_def)
qed

lemma json_shape_tagged:
  assumes "json_object (tagged t fs)" "fields_shape n fs"
  shows "json_shape (Suc n) (tagged t fs)"
  using assms by (simp add: tagged_def json_object_def fields_shape_def)

lemma json_shape_payloads:
  "json_shape (Suc n) (offer_json a)" "json_shape (Suc n) (answer_json b)"
  "json_shape (Suc n) (candidate_json c)" "json_shape (Suc n) (file_share_json d)"
  "json_shape (Suc n) (public_lobby_json e)" "json_shape (Suc n) (community_node_json f)"
  "json_shape (Suc n) (player_json g)"
  unfolding offer_json_def answer_json_def candidate_json_def file_share_json_def
    public_lobby_json_def community_node_json_def player_json_def
  by (rule json_shape_keys, (rule keys_in_rules)+, simp,
      (rule fields_shape_rules fields_shape_jword fields_shape_jopt fields_shape_jnullable)+)+

lemmas shape_rules = fields_shape_rules fields_shape_jword fields_shape_jopt fields_shape_jnullable
  json_shape_arr json_shape_payloads sint_json

text \<open>Every message has the shape of a writable value, nested at most three deep.\<close>

lemma message_json_shape3: "json_shape (Suc (Suc (Suc 0))) (message_json m)"
  by (insert message_json_object [of m], (cases m; simp only: message_json_def session_json_def media_json_def share_json_def
      admin_json_def SignalingMessage.case tagged_neq simp_thms if_True if_False),
      (erule json_shape_tagged, (rule shape_rules)+)+)

lemma message_json_shape: "json_shape 127 (message_json m)"
  by (rule json_shape_mono [OF message_json_shape3]) simp

text \<open>What reading back keeps.\<close>

lemma map_of_filter_key: "map_of (filter (\<lambda>kv. fst kv = k) fs) k = map_of fs k"
  by (induction fs) auto

lemma map_of_sort: "map_of (sort_key fst fs) = map_of fs"
proof
  fix k
  have "filter (\<lambda>kv. fst kv = k) (sort_key fst fs) = filter (\<lambda>kv. fst kv = k) fs"
    by (rule sort_key_stable)
  then show "map_of (sort_key fst fs) k = map_of fs k" by (metis map_of_filter_key)
qed

lemma distinct_sort: "distinct (map fst (sort_key fst fs)) = distinct (map fst fs)"
proof -
  have "mset (map fst (sort_key fst fs)) = mset (map fst fs)" by simp
  then show ?thesis by (metis mset_eq_imp_distinct_iff)
qed

lemma map_of_map_sorted: "map_of (map (\<lambda>(k, v). (k, f v)) fs) k = map_option f (map_of fs k)"
  by (induction fs) auto

lemma json_get_sort: "json_get (json_sort v) k = map_option json_sort (json_get v k)"
  by (cases v) (auto simp: json_get_def map_of_sort map_of_map_sorted)

lemma json_shape_sort: "json_shape n (json_sort v) = json_shape n v"
proof (induction n v rule: json_shape.induct)
  case (3 n fs)
  have "map fst (map (\<lambda>(k, v). (k, json_sort v)) fs) = map fst fs" by (induction fs) auto
  with 3 show ?case by (auto simp: distinct_sort list_all_iff simp del: map_map)
qed (auto simp: list_all_iff)

lemma json_unicode_sort: "json_unicode (json_sort v) = json_unicode v"
  by (induction v rule: json_unicode.induct) (fastforce simp: list_all_iff)+

lemma sort_key_map_fst:
  "sort_key fst (map (\<lambda>(k, v). (k, f v)) fs) = map (\<lambda>(k, v). (k, f v)) (sort_key fst fs)"
proof -
  have "insort_key fst (k, f v) (map (\<lambda>(k, v). (k, f v)) xs) =
      map (\<lambda>(k, v). (k, f v)) (insort_key fst (k, v) xs)" for k v and xs :: "('a \<times> 'c) list"
    by (induction xs) auto
  then show ?thesis by (induction fs) (auto simp: sort_key_def)
qed

lemma json_sort_idem: "json_sort (json_sort v) = json_sort v"
proof (induction v rule: json_sort.induct)
  case (2 fs)
  have "map (\<lambda>(k, v). (k, json_sort v)) (map (\<lambda>(k, v). (k, json_sort v)) fs) =
      map (\<lambda>(k, v). (k, json_sort v)) fs"
    using 2 by auto
  then show ?case
    by (simp add: sort_key_map_fst [symmetric] sort_key_id_if_sorted del: map_map)
qed auto

section \<open>Bounded text\<close>

text \<open>At most 128 KiB, and no control character but the line ends of a session description.\<close>

definition text_ok :: "rstr \<Rightarrow> bool" where
  "text_ok s \<longleftrightarrow> str_len s \<le> MAX_SDP_LEN \<and> \<not> list_ex (\<lambda>c. is_control c \<and> c \<noteq> 13 \<and> c \<noteq> 10) s"

fun json_ok :: "json \<Rightarrow> bool" where
  "json_ok (JStr s) = text_ok s"
| "json_ok (JArr xs) = list_all json_ok xs"
| "json_ok (JObj fs) = list_all (\<lambda>(k, v). json_ok v) fs"
| "json_ok _ = True"

definition fields_ok :: "(rstr \<times> json) list \<Rightarrow> bool" where
  "fields_ok fs \<longleftrightarrow> list_all (\<lambda>(k, v). json_ok v) fs"

lemma fields_ok_simps:
  "json_ok (tagged t fs) \<longleftrightarrow> text_ok (str t) \<and> fields_ok fs"
  "json_ok (JObj fs) \<longleftrightarrow> fields_ok fs" "json_ok (JNum i)"
  "fields_ok (xs @ ys) \<longleftrightarrow> fields_ok xs \<and> fields_ok ys"
  "fields_ok []"
  "fields_ok (jstr n s) \<longleftrightarrow> text_ok s"
  "fields_ok (jbool n b)" "fields_ok (jword n w)"
  "fields_ok (jval n v) \<longleftrightarrow> json_ok v"
  "fields_ok (jopt jbool n bo)" "fields_ok (jopt jword n wo)" "fields_ok (jnullable jword n wo)"
  "fields_ok (jopt jstr n so) \<longleftrightarrow> is_none_or so text_ok"
  "fields_ok (jnullable jstr n so) \<longleftrightarrow> is_none_or so text_ok"
  by (auto simp: fields_ok_def tagged_def jstr_def jbool_def jword_def jval_def jopt_def
      jnullable_def is_none_or_def split: option.splits)

declare json_ok.simps(3) [simp del]

lemma valid_text_ok: "valid_text s n b \<Longrightarrow> n \<le> MAX_SDP_LEN \<Longrightarrow> text_ok s"
  by (auto simp: valid_text_def text_ok_def list_ex_iff)

lemma valid_texts_ok:
  "valid_identifier s \<Longrightarrow> text_ok s" "valid_control_text s n b \<Longrightarrow> text_ok s"
  "valid_session_id s \<Longrightarrow> text_ok s" "valid_share_id s \<Longrightarrow> text_ok s"
  by (auto simp: valid_identifier_def valid_control_text_def valid_session_id_def valid_share_id_def
      config_simps min_def intro: valid_text_ok)

lemma optional_control_ok: "optional_control v n \<Longrightarrow> is_none_or v text_ok"
  by (auto simp: optional_control_def is_none_or_def split: option.splits intro: valid_texts_ok)

lemma valid_payload_ok:
  "valid_offer_data d (str ''offer'') \<Longrightarrow> json_ok (offer_json d)"
  "valid_answer_data a (str ''answer'') \<Longrightarrow> json_ok (answer_json a)"
  "valid_candidate_data c \<Longrightarrow> json_ok (candidate_json c)"
proof -
  have "text_ok (str ''offer'')" "text_ok (str ''answer'')" by code_simp+
  then show "valid_offer_data d (str ''offer'') \<Longrightarrow> json_ok (offer_json d)"
    "valid_answer_data a (str ''answer'') \<Longrightarrow> json_ok (answer_json a)"
    by (auto simp: valid_offer_data_def valid_answer_data_def valid_session_description_def
        offer_json_def answer_json_def fields_ok_simps text_ok_def [of "offer_sdp d"]
        text_ok_def [of "answer_sdp a"])
  have "str_len s \<le> MAX_ICE_CANDIDATE_LEN \<Longrightarrow> \<not> list_ex is_control s \<Longrightarrow> text_ok s" for s
    by (auto simp: text_ok_def config_simps list_ex_iff)
  then show "valid_candidate_data c \<Longrightarrow> json_ok (candidate_json c)"
    by (auto simp: valid_candidate_data_def candidate_json_def fields_ok_simps is_none_or_def
        split: option.splits intro: valid_texts_ok)
qed

lemma ids_ok: "ids a b \<Longrightarrow> text_ok a \<and> text_ok b"
  by (simp add: ids_def valid_texts_ok)

lemma share_ok:
  "valid_share_id (fs_share_id x) \<and> valid_control_text (fs_share_name x) n False \<and>
   valid_control_text (fs_player_name x) n' False \<Longrightarrow> json_ok (file_share_json x)"
  by (auto simp: file_share_json_def fields_ok_simps valid_texts_ok)

lemma shares_ok:
  "list_all (\<lambda>x. valid_share_id (fs_share_id x) \<and> valid_control_text (fs_share_name x) n False \<and>
     valid_control_text (fs_player_name x) n' False) xs \<Longrightarrow>
   json_ok (JArr (map file_share_json xs))"
  by (induction xs) (auto intro: share_ok)

lemma tags_ok_all:
  "list_all (\<lambda>t. text_ok (str t))
    [''offer'', ''voice-reconnect'', ''answer'', ''ice-candidate'', ''chat-message'',
     ''status-update'', ''screen-share-start'', ''screen-share-stop'',
     ''screen-share-relay'', ''screen-share-offer'', ''screen-share-answer'',
     ''screen-share-ice-candidate'', ''screen-share-error'', ''screen-share-list-request'',
     ''screen-share-list-response'', ''screen-share-viewer-left'', ''screen-share-update'',
     ''file-share-added'', ''file-share-removed'', ''file-share-list-request'',
     ''file-share-list-response'', ''share-updated'', ''remote-control-request'',
     ''remote-control-accept'', ''remote-control-reject'', ''remote-control-offer'',
     ''remote-control-answer'', ''remote-control-ice'', ''remote-control-stop'',
     ''kick-player'', ''mute-player'', ''transfer-host'', ''set-lobby-options'', ''leave'']"
  by code_simp

lemmas tags_ok = tags_ok_all [unfolded list.pred_inject simp_thms]

lemmas message_json_defs =
  message_json_def session_json_def media_json_def share_json_def admin_json_def
  SignalingMessage.case tagged_neq simp_thms if_True if_False

lemmas shape_defs =
  validate_message_shape_def valid_screen_share_def valid_file_share_def valid_remote_control_def
  SignalingMessage.case

lemmas text_ok_elims = valid_texts_ok optional_control_ok valid_payload_ok shares_ok

text \<open>
  The one text the shape check of these messages leaves open is the player name of an
  \<open>Offer\<close>; the server replaces it by the registered name before it relays the message
  (\<open>on_offer\<close> in the theory \<open>Routing\<close>).
\<close>

definition offer_name_ok :: "SignalingMessage \<Rightarrow> bool" where
  "offer_name_ok m \<longleftrightarrow> (case m of Offer _ _ _ n \<Rightarrow> is_none_or n text_ok | _ \<Rightarrow> True)"

text \<open>
  C20. Of the client messages that name their sender (in \<open>from\<close> or \<open>clientId\<close>: every message a
  registered member has relayed or acted on in its name, and not the registrations, list requests
  and node submissions, which have length checks of their own), one that passed the shape check
  holds no text longer than 128 KiB and no control character other than CR and LF in any field,
  with a single exception: the check puts no bound on the player name of an \<open>Offer\<close>. So all
  texts are bounded exactly when that name is absent or bounded itself.
\<close>

theorem validated_message_bounded:
  assumes "validate_message_shape m" "claimed_sender m = Some s"
  shows "json_ok (message_json m) \<longleftrightarrow> offer_name_ok m"
proof (cases "\<exists>a b d n. m = Offer a b d n")
  case True
  then obtain a b d n where m: "m = Offer a b d n" by blast
  have "text_ok a \<and> text_ok b \<and> json_ok (offer_json d)"
    using assms(1) by (simp add: m shape_defs ids_def valid_texts_ok valid_payload_ok)
  then show ?thesis
    by (simp add: m message_json_defs fields_ok_simps tags_ok offer_name_ok_def)
next
  case False
  then have ok: "offer_name_ok m" by (auto simp: offer_name_ok_def split: SignalingMessage.splits)
  from False assms have "json_ok (message_json m)"
    by (cases m) (simp_all only: message_json_defs shape_defs claimed_sender_def option.distinct
      fields_ok_simps tags_ok ids_def SignalingMessage.inject ex_simps simp_thms not_ex,
      ((elim conjE)?, (intro conjI)?; (assumption | erule text_ok_elims))+)
  with ok show ?thesis by blast
qed

theorem validated_message_bounded_witness:
  "json_ok (message_json (ScreenShareStop (str ''a'') (str ''b''))) \<and>
   \<not> json_ok (message_json (Offer (str ''a'') (str ''b'')
     \<lparr>offer_type = str ''offer'', offer_sdp = str ''v''\<rparr> (Some [0])))"
proof -
  have "validate_message_shape (ScreenShareStop (str ''a'') (str ''b''))"
    "offer_name_ok (ScreenShareStop (str ''a'') (str ''b''))"
    "validate_message_shape (Offer (str ''a'') (str ''b'')
       \<lparr>offer_type = str ''offer'', offer_sdp = str ''v''\<rparr> (Some [0]))"
    "\<not> offer_name_ok (Offer (str ''a'') (str ''b'')
       \<lparr>offer_type = str ''offer'', offer_sdp = str ''v''\<rparr> (Some [0]))"
    by code_simp+
  then show ?thesis
    using validated_message_bounded [of "ScreenShareStop (str ''a'') (str ''b'')" "str ''a''"]
      validated_message_bounded [of "Offer (str ''a'') (str ''b'')
        \<lparr>offer_type = str ''offer'', offer_sdp = str ''v''\<rparr> (Some [0])" "str ''a''"]
    by (simp add: claimed_sender_def)
qed

text \<open>
  C21. The sender a client message claims is a proper identifier when the message passed the
  shape check: not blank, at most 128 bytes, no control character. It is also the sender that
  the serialised message names.
\<close>

theorem validated_sender_identified:
  assumes "validate_message_shape m" "claimed_sender m = Some s"
  shows "valid_identifier s \<and> trim s \<noteq> [] \<and> str_len s \<le> 128 \<and>
    json_sender (message_json m) = Some s"
proof -
  have "valid_identifier s"
    using assms by (cases m) (auto simp: shape_defs claimed_sender_def ids_def)
  with message_json_sender [OF assms(2)] show ?thesis
    by (simp add: valid_identifier_def valid_text_def config_simps)
qed

theorem validated_sender_identified_witness:
  "str_len (str ''ab'') \<le> 128 \<and>
   json_sender (message_json (VoiceReconnect (str ''ab'') (str ''c''))) = Some (str ''ab'')"
  using validated_sender_identified [of "VoiceReconnect (str ''ab'') (str ''c'')" "str ''ab''"]
  by (auto simp: claimed_sender_def shape_defs ids_def valid_identifier_def valid_text_def
      config_simps, code_simp+)

section \<open>A printer and a reader\<close>

text \<open>
  A length-prefixed notation, used to instantiate the parameter \<open>serde\<close> in concrete runs. The
  first argument of the reader bounds its recursion; twice the length of the text is enough
  (\<open>dec_enc\<close>).
\<close>

fun enc :: "json \<Rightarrow> rstr" where
  "enc JNull = [0]"
| "enc (JBool b) = [1, if b then 1 else 0]"
| "enc (JNum i) = [2, if i < 0 then 1 else 0, nat \<bar>i\<bar>]"
| "enc (JStr s) = 3 # length s # s"
| "enc (JArr xs) = 4 # length xs # concat (map enc xs)"
| "enc (JObj fs) = 5 # length fs # concat (map (\<lambda>(k, v). length k # k @ enc v) fs)"

fun dec :: "nat \<Rightarrow> rstr \<Rightarrow> (json \<times> rstr) option"
and dec_arr :: "nat \<Rightarrow> nat \<Rightarrow> rstr \<Rightarrow> (json list \<times> rstr) option"
and dec_obj :: "nat \<Rightarrow> nat \<Rightarrow> rstr \<Rightarrow> ((rstr \<times> json) list \<times> rstr) option" where
  "dec 0 s = None"
| "dec (Suc n) s =
     (case s of
        [] \<Rightarrow> None
      | t # r \<Rightarrow>
          if t = 0 then Some (JNull, r)
          else if t = 1 then Some (JBool (hd r = 1), tl r)
          else if t = 2 then Some (JNum ((if hd r = 1 then - 1 else 1) * int (hd (tl r))), tl (tl r))
          else if t = 3 then Some (JStr (take (hd r) (tl r)), drop (hd r) (tl r))
          else if t = 4 then map_option (\<lambda>(xs, r'). (JArr xs, r')) (dec_arr n (hd r) (tl r))
          else map_option (\<lambda>(fs, r'). (JObj fs, r')) (dec_obj n (hd r) (tl r)))"
| "dec_arr 0 k s = None"
| "dec_arr (Suc n) 0 s = Some ([], s)"
| "dec_arr (Suc n) (Suc k) s =
     Option.bind (dec n s) (\<lambda>(x, r). map_option (\<lambda>(xs, r'). (x # xs, r')) (dec_arr n k r))"
| "dec_obj 0 k s = None"
| "dec_obj (Suc n) 0 s = Some ([], s)"
| "dec_obj (Suc n) (Suc k) s =
     Option.bind (dec n (drop (hd s) (tl s))) (\<lambda>(x, r).
       map_option (\<lambda>(fs, r'). ((take (hd s) (tl s), x) # fs, r')) (dec_obj n k r))"

lemma enc_pos: "1 \<le> length (enc j)"
  by (cases j) auto

lemma dec_arr_enc:
  "(\<And>x n r. x \<in> set xs \<Longrightarrow> 2 * length (enc x) \<le> n \<Longrightarrow> dec n (enc x @ r) = Some (x, r)) \<Longrightarrow>
   2 * length (concat (map enc xs)) + 1 \<le> n \<Longrightarrow>
   dec_arr n (length xs) (concat (map enc xs) @ r) = Some (xs, r)"
proof (induction xs arbitrary: n)
  case Nil
  then show ?case by (cases n) auto
next
  case (Cons x xs)
  obtain k where n: "n = Suc k" using Cons.prems(2) by (cases n) auto
  have "2 * length (enc x) \<le> k" "2 * length (concat (map enc xs)) + 1 \<le> k"
    using Cons.prems(2) enc_pos [of x] by (simp_all add: n del: length_greater_0_conv length_0_conv)
  then have "dec k (enc x @ concat (map enc xs) @ r) = Some (x, concat (map enc xs) @ r)"
    "dec_arr k (length xs) (concat (map enc xs) @ r) = Some (xs, r)"
    using Cons.prems(1) Cons.IH [of k] by simp_all
  then show ?case by (simp add: n)
qed

lemma dec_obj_enc:
  "(\<And>k x n r. (k, x) \<in> set fs \<Longrightarrow> 2 * length (enc x) \<le> n \<Longrightarrow> dec n (enc x @ r) = Some (x, r)) \<Longrightarrow>
   2 * length (concat (map (\<lambda>(k, v). length k # k @ enc v) fs)) + 1 \<le> n \<Longrightarrow>
   dec_obj n (length fs) (concat (map (\<lambda>(k, v). length k # k @ enc v) fs) @ r) = Some (fs, r)"
proof (induction fs arbitrary: n)
  case Nil
  then show ?case by (cases n) auto
next
  case (Cons kv fs)
  obtain k x where kv: "kv = (k, x)" by (cases kv)
  obtain i where n: "n = Suc i" using Cons.prems(2) by (cases n) auto
  have "2 * length (enc x) \<le> i"
    "2 * length (concat (map (\<lambda>(k, v). length k # k @ enc v) fs)) + 1 \<le> i"
    using Cons.prems(2) by (auto simp: n kv)
  then have "dec i (enc x @ concat (map (\<lambda>(k, v). length k # k @ enc v) fs) @ r) =
      Some (x, concat (map (\<lambda>(k, v). length k # k @ enc v) fs) @ r)"
    "dec_obj i (length fs) (concat (map (\<lambda>(k, v). length k # k @ enc v) fs) @ r) = Some (fs, r)"
    using Cons.prems(1) Cons.IH [of i] by (auto simp: kv)
  then show ?case by (simp add: n kv)
qed

lemma dec_enc: "2 * length (enc j) \<le> n \<Longrightarrow> dec n (enc j @ r) = Some (j, r)"
proof (induction j arbitrary: n r)
  case (JArr xs)
  then obtain k where n: "n = Suc k" by (cases n) auto
  with JArr dec_arr_enc [of xs k r] show ?case by auto
next
  case (JObj fs)
  then obtain k where n: "n = Suc k" by (cases n) auto
  have "dec_obj k (length fs) (concat (map (\<lambda>(k, v). length k # k @ enc v) fs) @ r) = Some (fs, r)"
    by (rule dec_obj_enc) (use JObj n in \<open>fastforce+\<close>)
  with n show ?case by simp
qed (rename_tac n r, case_tac n, auto)+

definition prefix_serde :: serde where
  "prefix_serde = \<lparr>json_to_string = enc,
     json_from_str = (\<lambda>s. map_option (\<lambda>(v, _). json_sort v) (dec (2 * length s) s))\<rparr>"

lemma prefix_serde_law: "serde_law prefix_serde"
  using dec_enc [of _ _ "[]"] by (simp add: serde_law_def prefix_serde_def)

end
