(* ===== verification/Lobby_State.thy ===== *)
theory Lobby_State
  imports Wire_Protocol Hash_Map
begin

text \<open>
  The shared session state of \<open>src/src/state.rs\<close>: the members and lobbies of the registry,
  the table of failed lobby passwords, and the rotation of the chat credential.

  A connection owns one sender handle and one disconnect channel. Both are reference-counted
  in Rust and compared by identity (\<open>Arc::ptr_eq\<close>), so the model names them by numbers.
\<close>

section \<open>Members and lobbies\<close>

record ClientInfo =
  ci_player_id :: rstr
  ci_player_name :: rstr
  ci_virtual_ip :: "rstr option"
  ci_virtual_domain :: "rstr option"
  ci_use_domain :: "bool option"
  ci_chat_public_key :: "rstr option"
  ci_session_generation :: u64
  ci_sender :: nat
  ci_disconnect :: nat

record LobbyInfo =
  lb_lobby_name :: rstr
  lb_password_hash :: rstr
  lb_password_salt :: rstr
  lb_clients :: "(rstr, ClientInfo) hashmap"
  lb_host_id :: rstr
  lb_max_players :: "u32 option"
  lb_is_public :: bool
  lb_is_passwordless :: bool
  lb_description :: rstr
  lb_server_node :: rstr
  lb_muted :: "rstr list"
  lb_chat_token :: rstr
  lb_chat_token_epoch :: u64

type_synonym Lobbies = "(rstr, LobbyInfo) hashmap"
type_synonym ClientLobbyMap = "(rstr, rstr) hashmap"

text \<open>\<open>rnd\<close> are the bytes drawn for the new token; the muted set is a list without order.\<close>

definition rotate_chat_token :: "bytes \<Rightarrow> LobbyInfo \<Rightarrow> LobbyInfo" where
  "rotate_chat_token rnd lobby =
     lobby\<lparr>lb_chat_token := generate_chat_token rnd,
           lb_chat_token_epoch := max (saturating_add (lb_chat_token_epoch lobby) 1) 1\<rparr>"

definition set_insert :: "'a \<Rightarrow> 'a list \<Rightarrow> 'a list" where
  "set_insert x xs = (if x \<in> set xs then xs else x # xs)"

definition set_remove :: "'a \<Rightarrow> 'a list \<Rightarrow> 'a list" where
  "set_remove x xs = removeAll x xs"

lemma set_set_insert [simp]: "set (set_insert x xs) = insert x (set xs)"
  by (auto simp: set_insert_def)

lemma set_set_remove [simp]: "set (set_remove x xs) = set xs - {x}"
  by (simp add: set_remove_def)

lemma distinct_set_insert [simp]: "distinct (set_insert x xs) = distinct xs"
  by (auto simp: set_insert_def)

lemma distinct_set_remove [simp]: "distinct xs \<Longrightarrow> distinct (set_remove x xs)"
  by (simp add: set_remove_def distinct_removeAll)

lemma rotate_chat_token_simps [simp]:
  "lb_lobby_name (rotate_chat_token rnd l) = lb_lobby_name l"
  "lb_password_hash (rotate_chat_token rnd l) = lb_password_hash l"
  "lb_password_salt (rotate_chat_token rnd l) = lb_password_salt l"
  "lb_clients (rotate_chat_token rnd l) = lb_clients l"
  "lb_host_id (rotate_chat_token rnd l) = lb_host_id l"
  "lb_max_players (rotate_chat_token rnd l) = lb_max_players l"
  "lb_is_public (rotate_chat_token rnd l) = lb_is_public l"
  "lb_is_passwordless (rotate_chat_token rnd l) = lb_is_passwordless l"
  "lb_muted (rotate_chat_token rnd l) = lb_muted l"
  "lb_chat_token (rotate_chat_token rnd l) = hex_bytes rnd"
  by (simp_all add: rotate_chat_token_def generate_chat_token_def)

lemma chat_token_inj: "generate_chat_token a = generate_chat_token b \<longleftrightarrow> a = b"
  unfolding generate_chat_token_def using hex_bytes_inj by blast

lemma rotate_epoch:
  "unat (lb_chat_token_epoch (rotate_chat_token rnd l)) =
     min (unat (lb_chat_token_epoch l) + 1) (2 ^ 64 - 1)"
proof -
  have "unat (saturating_add (lb_chat_token_epoch l) 1) =
      min (unat (lb_chat_token_epoch l) + 1) (2 ^ 64 - 1)"
    by (simp add: unat_saturating_add)
  moreover have "(1::u64) \<le> saturating_add (lb_chat_token_epoch l) 1"
    unfolding word_le_nat_alt using calculation by simp
  ultimately show ?thesis by (simp add: rotate_chat_token_def max_def)
qed

section \<open>Failed lobby passwords\<close>

definition MAX_REGISTER_PASSWORD_FAILURES :: nat where
  [config_simps]: "MAX_REGISTER_PASSWORD_FAILURES = 5"
definition REGISTER_PASSWORD_FAILURE_WINDOW_SECS :: nat where
  [config_simps]: "REGISTER_PASSWORD_FAILURE_WINDOW_SECS = 300"
definition MAX_REGISTER_PASSWORD_KEYS :: nat where
  [config_simps]: "MAX_REGISTER_PASSWORD_KEYS = 4096"

type_synonym failure_key = "ip_addr \<times> rstr"

record RegisterPasswordFailures =
  rf_attempts :: "(failure_key, instant list) hashmap"

definition drop_old :: "instant \<Rightarrow> instant list \<Rightarrow> instant list" where
  "drop_old now attempts =
     dropWhile (\<lambda>a. from_secs REGISTER_PASSWORD_FAILURE_WINDOW_SECS < now - a) attempts"

definition prune :: "instant \<Rightarrow> RegisterPasswordFailures \<Rightarrow> RegisterPasswordFailures" where
  "prune now f =
     f\<lparr>rf_attempts := hm_retain (\<lambda>_ attempts. attempts \<noteq> [])
        (map (\<lambda>(k, attempts). (k, drop_old now attempts)) (rf_attempts f))\<rparr>"

definition is_locked ::
  "failure_key \<Rightarrow> instant \<Rightarrow> RegisterPasswordFailures \<Rightarrow> bool \<times> RegisterPasswordFailures" where
  "is_locked key now f =
     (let f1 = prune now f
      in (case hm_get (rf_attempts f1) key of
            Some attempts \<Rightarrow> MAX_REGISTER_PASSWORD_FAILURES \<le> length attempts
          | None \<Rightarrow> False, f1))"

text \<open>
  \<open>min_by_key\<close> over the newest attempt of each key: the first of the entries whose
  \<open>back()\<close> is least, an empty queue (\<open>None\<close>) before every other.
\<close>

definition queue_back :: "instant list \<Rightarrow> instant option" where
  "queue_back q = (if q = [] then None else Some (last q))"

fun back_less :: "instant option \<Rightarrow> instant option \<Rightarrow> bool" where
  "back_less None (Some b) = True"
| "back_less (Some a) (Some b) = (a < b)"
| "back_less _ None = False"

fun oldest_entry :: "(failure_key \<times> instant list) list \<Rightarrow> (failure_key \<times> instant list) option" where
  "oldest_entry [] = None"
| "oldest_entry (e # es) =
     (case oldest_entry es of
        None \<Rightarrow> Some e
      | Some e' \<Rightarrow>
          if back_less (queue_back (snd e')) (queue_back (snd e)) then Some e' else Some e)"

definition record_failure ::
  "failure_key \<Rightarrow> instant \<Rightarrow> RegisterPasswordFailures \<Rightarrow> RegisterPasswordFailures" where
  "record_failure key now f =
     (let f1 = prune now f;
          m1 = rf_attempts f1;
          m2 = (if \<not> hm_contains m1 key \<and> MAX_REGISTER_PASSWORD_KEYS \<le> hm_len m1
                then case oldest_entry m1 of
                       Some oldest \<Rightarrow> hm_remove (fst oldest) m1
                     | None \<Rightarrow> m1
                else m1);
          attempts = (case hm_get m2 key of None \<Rightarrow> [] | Some q \<Rightarrow> q)
      in f1\<lparr>rf_attempts :=
             hm_insert key
               (if length attempts < MAX_REGISTER_PASSWORD_FAILURES then attempts @ [now]
                else attempts) m2\<rparr>)"

definition failures_clear ::
  "failure_key \<Rightarrow> RegisterPasswordFailures \<Rightarrow> RegisterPasswordFailures" where
  "failures_clear key f = f\<lparr>rf_attempts := hm_remove key (rf_attempts f)\<rparr>"

definition no_failures :: RegisterPasswordFailures where
  "no_failures = \<lparr>rf_attempts = []\<rparr>"

subsection \<open>The table\<close>

text \<open>Distinct keys, at most 4096 of them, each with at most five attempts.\<close>

definition failures_inv :: "RegisterPasswordFailures \<Rightarrow> bool" where
  "failures_inv f \<longleftrightarrow>
     hm_wf (rf_attempts f) \<and> hm_len (rf_attempts f) \<le> MAX_REGISTER_PASSWORD_KEYS \<and>
     (\<forall>k q. hm_get (rf_attempts f) k = Some q \<longrightarrow> length q \<le> MAX_REGISTER_PASSWORD_FAILURES)"

text \<open>The attempts the table holds against a key (none when the key is absent).\<close>

definition held_attempts :: "RegisterPasswordFailures \<Rightarrow> failure_key \<Rightarrow> instant list" where
  "held_attempts f key = (case hm_get (rf_attempts f) key of None \<Rightarrow> [] | Some q \<Rightarrow> q)"

lemma hm_get_map_values: "hm_get (map (\<lambda>(k, v). (k, g v)) m) k = map_option g (hm_get m k)"
  by (induction m) (auto simp: hm_get_def)

lemma hm_wf_map_values: "hm_wf (map (\<lambda>(k, v). (k, g v)) m) = hm_wf m"
  by (simp add: hm_wf_def comp_def case_prod_beta)

lemma hm_len_map: "hm_len (map g m) = hm_len m"
  by (simp add: hm_len_def)

lemma prune_wf: "hm_wf (rf_attempts f) \<Longrightarrow> hm_wf (rf_attempts (prune now f))"
  by (simp add: prune_def hm_wf_retain hm_wf_map_values)

lemma prune_get:
  "hm_wf (rf_attempts f) \<Longrightarrow>
   hm_get (rf_attempts (prune now f)) k =
     (case hm_get (rf_attempts f) k of
        None \<Rightarrow> None
      | Some q \<Rightarrow> if drop_old now q = [] then None else Some (drop_old now q))"
  by (auto simp: prune_def hm_get_retain hm_wf_map_values hm_get_map_values split: option.splits)

lemma prune_held:
  "hm_wf (rf_attempts f) \<Longrightarrow> held_attempts (prune now f) k = drop_old now (held_attempts f k)"
  by (cases "hm_get (rf_attempts f) k")
    (simp_all add: held_attempts_def prune_get, simp add: drop_old_def)

lemma prune_len: "hm_len (rf_attempts (prune now f)) \<le> hm_len (rf_attempts f)"
  using hm_len_retain by (fastforce simp: prune_def hm_len_map intro: order_trans)

lemma length_drop_old: "length (drop_old now q) \<le> length q"
  by (simp add: drop_old_def length_dropWhile_le)

lemma prune_inv: "failures_inv f \<Longrightarrow> failures_inv (prune now f)"
  unfolding failures_inv_def
  by (auto simp: prune_wf prune_get prune_len le_trans [OF prune_len] le_trans [OF length_drop_old]
      split: option.splits if_splits)

lemma oldest_entry_Some: "m \<noteq> [] \<Longrightarrow> \<exists>e. oldest_entry m = Some e \<and> e \<in> set m"
proof (induction m)
  case (Cons e m)
  then show ?case
    by (cases "m = []") (auto simp del: split_paired_Ex split: option.splits if_splits)
qed simp

lemma held_empty: "held_attempts no_failures k = []"
  by (simp add: held_attempts_def no_failures_def)

lemma record_failure_table:
  assumes "failures_inv f"
  obtains m where "hm_wf m" "hm_len m \<le> MAX_REGISTER_PASSWORD_KEYS"
    "\<not> hm_contains m key \<Longrightarrow> hm_len m < MAX_REGISTER_PASSWORD_KEYS"
    "\<And>k. hm_get m k = hm_get (rf_attempts (prune now f)) k \<or> k \<noteq> key \<and> hm_get m k = None"
    "rf_attempts (record_failure key now f) =
       (let q = (case hm_get m key of None \<Rightarrow> [] | Some q \<Rightarrow> q)
        in hm_insert key (if length q < MAX_REGISTER_PASSWORD_FAILURES then q @ [now] else q) m)"
proof -
  define m1 where "m1 = rf_attempts (prune now f)"
  have inv: "hm_wf m1" "hm_len m1 \<le> MAX_REGISTER_PASSWORD_KEYS"
    using prune_inv [OF assms, of now] by (simp_all add: m1_def failures_inv_def)
  show thesis
  proof (cases "\<not> hm_contains m1 key \<and> MAX_REGISTER_PASSWORD_KEYS \<le> hm_len m1")
    case False
    show thesis
      by (rule that [of m1])
        (use False inv in \<open>auto simp: m1_def record_failure_def Let_def\<close>)
  next
    case True
    then have "m1 \<noteq> []" by (auto simp: config_simps)
    then obtain e where e: "oldest_entry m1 = Some e" "e \<in> set m1"
      using oldest_entry_Some by blast
    have mem: "hm_get m1 (fst e) = Some (snd e)"
      using e inv by (simp add: hm_get_Some_iff)
    then have ne: "fst e \<noteq> key" using True by (auto simp: hm_contains_def)
    have len: "Suc (hm_len (hm_remove (fst e) m1)) = hm_len m1"
      using hm.len_del_present [OF inv(1) mem] .
    show thesis
      by (rule that [of "hm_remove (fst e) m1"])
        (use True inv e ne len in \<open>auto simp: m1_def record_failure_def Let_def hm.wf_del hm.get_del\<close>)
  qed
qed

lemma record_failure_inv:
  assumes "failures_inv f"
  shows "failures_inv (record_failure key now f)"
proof -
  obtain m where m: "hm_wf m" "hm_len m \<le> MAX_REGISTER_PASSWORD_KEYS"
    "\<not> hm_contains m key \<Longrightarrow> hm_len m < MAX_REGISTER_PASSWORD_KEYS"
    "\<And>k. hm_get m k = hm_get (rf_attempts (prune now f)) k \<or> k \<noteq> key \<and> hm_get m k = None"
    and eq: "rf_attempts (record_failure key now f) =
       (let q = (case hm_get m key of None \<Rightarrow> [] | Some q \<Rightarrow> q)
        in hm_insert key (if length q < MAX_REGISTER_PASSWORD_FAILURES then q @ [now] else q) m)"
    using record_failure_table [OF assms] by metis
  have bound: "length q \<le> MAX_REGISTER_PASSWORD_FAILURES" if "hm_get m k = Some q" for k q
    using prune_inv [OF assms, of now] m(4) [of k] that
    by (auto simp: failures_inv_def simp del: split_paired_All)
  define q where "q = (case hm_get m key of None \<Rightarrow> [] | Some q \<Rightarrow> q)"
  define q' where "q' = (if length q < MAX_REGISTER_PASSWORD_FAILURES then q @ [now] else q)"
  have "length q' \<le> MAX_REGISTER_PASSWORD_FAILURES"
    using bound [of key] by (auto simp: q'_def q_def config_simps split: option.splits)
  moreover have "hm_len (hm_insert key x m) \<le> MAX_REGISTER_PASSWORD_KEYS" for x
    using m(1-3) by (auto simp: hm.len_ins hm_contains_def)
  ultimately show ?thesis
    using m(1) bound unfolding failures_inv_def eq Let_def q_def [symmetric] q'_def [symmetric]
    by (simp add: hm.get_ins hm.wf_ins del: split_paired_All)
qed

lemma clear_inv: "failures_inv f \<Longrightarrow> failures_inv (failures_clear key f)"
  by (auto simp: failures_inv_def failures_clear_def hm_simps
      intro: le_trans [OF hm.len_del_le] split: if_splits)

lemma record_failure_held:
  assumes "failures_inv f"
  shows "held_attempts (record_failure key now f) key =
      (let q = drop_old now (held_attempts f key)
       in if length q < MAX_REGISTER_PASSWORD_FAILURES then q @ [now] else q)"
    and "k \<noteq> key \<Longrightarrow> held_attempts (record_failure key now f) k = drop_old now (held_attempts f k) \<or>
      held_attempts (record_failure key now f) k = []"
proof -
  obtain m where m:
    "\<And>k. hm_get m k = hm_get (rf_attempts (prune now f)) k \<or> k \<noteq> key \<and> hm_get m k = None"
    and eq: "rf_attempts (record_failure key now f) =
       (let q = (case hm_get m key of None \<Rightarrow> [] | Some q \<Rightarrow> q)
        in hm_insert key (if length q < MAX_REGISTER_PASSWORD_FAILURES then q @ [now] else q) m)"
    using record_failure_table [OF assms] by metis
  have wf: "hm_wf (rf_attempts f)" using assms by (simp add: failures_inv_def)
  have key: "hm_get m key = hm_get (rf_attempts (prune now f)) key" using m [of key] by simp
  show "held_attempts (record_failure key now f) key =
      (let q = drop_old now (held_attempts f key)
       in if length q < MAX_REGISTER_PASSWORD_FAILURES then q @ [now] else q)"
    unfolding prune_held [OF wf, symmetric]
    by (simp add: held_attempts_def eq key hm.get_ins Let_def)
  show "k \<noteq> key \<Longrightarrow> held_attempts (record_failure key now f) k = drop_old now (held_attempts f k) \<or>
      held_attempts (record_failure key now f) k = []"
    unfolding prune_held [OF wf, symmetric]
    using m [of k] by (auto simp: held_attempts_def eq hm.get_ins Let_def)
qed

lemma is_locked_held:
  assumes "hm_wf (rf_attempts f)"
  shows "fst (is_locked key now f) \<longleftrightarrow>
    MAX_REGISTER_PASSWORD_FAILURES \<le> length (drop_old now (held_attempts f key))"
  using prune_held [OF assms, of now key]
  by (auto simp: is_locked_def Let_def held_attempts_def config_simps split: option.splits)

lemma drop_old_suffix: "length (drop_old now' (drop_old now q)) \<le> length (drop_old now' q)"
  by (induction q) (auto simp: drop_old_def intro: le_trans [OF length_dropWhile_le] le_SucI)

text \<open>The moves of the table.\<close>

inductive failures_step :: "RegisterPasswordFailures \<Rightarrow> RegisterPasswordFailures \<Rightarrow> bool" where
  locked: "failures_step f (snd (is_locked key now f))"
| failed: "failures_step f (record_failure key now f)"
| cleared: "failures_step f (failures_clear key f)"

interpretation failures: step_system "\<lambda>f. f = no_failures" failures_step failures_inv
proof unfold_locales
  show "f = no_failures \<Longrightarrow> failures_inv f" for f
    by (simp add: failures_inv_def no_failures_def config_simps)
  show "failures_step f g \<Longrightarrow> failures_inv f \<Longrightarrow> failures_inv g" for f g
    by (induction rule: failures_step.induct)
      (auto simp: is_locked_def Let_def prune_inv record_failure_inv clear_inv)
qed

lemma failures_run: "failures_step\<^sup>*\<^sup>* f (fold (record_failure key) ts f)"
proof (induction ts arbitrary: f)
  case (Cons t ts)
  have "failures_step f (record_failure key t f)" by (rule failures_step.failed)
  with Cons [of "record_failure key t f"] show ?case
    by (simp add: converse_rtranclp_into_rtranclp)
qed simp

lemma drop_old_recent:
  "ts = [] \<or> now - hd ts \<le> from_secs REGISTER_PASSWORD_FAILURE_WINDOW_SECS \<Longrightarrow> drop_old now ts = ts"
  by (cases ts) (auto simp: drop_old_def)

lemma dropWhile_weaker: "(\<And>x. P x \<Longrightarrow> Q x) \<Longrightarrow> dropWhile Q (dropWhile P xs) = dropWhile Q xs"
  by (induction xs) auto

lemma drop_old_later: "t \<le> now \<Longrightarrow> drop_old now (drop_old t q) = drop_old now q"
  unfolding drop_old_def by (rule dropWhile_weaker) linarith

lemma prune_idem [simp]: "prune now (prune now f) = prune now f"
proof -
  define D where "D = (\<lambda>(k :: failure_key, attempts). (k, drop_old now attempts))"
  have D: "D (D e) = D e" "snd (D e) \<noteq> [] \<longleftrightarrow> drop_old now (snd e) \<noteq> []" for e
    by (cases e; simp add: D_def drop_old_later)+
  have "filter (\<lambda>e. snd e \<noteq> []) (map D (filter (\<lambda>e. snd e \<noteq> []) (map D m))) =
      filter (\<lambda>e. snd e \<noteq> []) (map D m)" for m
    by (induction m) (auto simp: D)
  then show ?thesis by (simp add: prune_def hm_retain_def D_def)
qed

lemma is_locked_prune: "is_locked key now (prune now f) = is_locked key now f"
  by (simp add: is_locked_def)

lemma record_failure_prune: "record_failure key now (prune now f) = record_failure key now f"
  by (simp add: record_failure_def)

subsection \<open>Sequences of calls\<close>

text \<open>
  The calls the registrations of all clients make on the table, each under its lock: the test
  at an attempt, the charge of a failure, the reset after a success.
\<close>

datatype failure_call =
    Asked failure_key instant
  | Failed failure_key instant
  | Cleared failure_key

fun run_call :: "failure_call \<Rightarrow> RegisterPasswordFailures \<Rightarrow> RegisterPasswordFailures" where
  "run_call (Asked k t) f = snd (is_locked k t f)"
| "run_call (Failed k t) f = record_failure k t f"
| "run_call (Cleared k) f = failures_clear k f"

fun call_times :: "failure_call \<Rightarrow> instant list" where
  "call_times (Asked k t) = [t]"
| "call_times (Failed k t) = [t]"
| "call_times (Cleared k) = []"

definition times_of :: "failure_call list \<Rightarrow> instant list" where
  "times_of calls = concat (map call_times calls)"

definition failures_of :: "failure_key \<Rightarrow> failure_call list \<Rightarrow> instant list" where
  "failures_of key calls = concat (map (\<lambda>c. case c of Failed k t \<Rightarrow> if k = key then [t] else [] | _ \<Rightarrow> []) calls)"

text \<open>
  No call forgets the attempts of \<open>key\<close>: it is not reset, and no failure of a new key meets
  a table that is full of live entries (which would retire the oldest of them).
\<close>

definition keeps_key :: "failure_key \<Rightarrow> failure_call \<Rightarrow> RegisterPasswordFailures \<Rightarrow> bool" where
  "keeps_key key call f \<longleftrightarrow>
     (case call of
        Asked k t \<Rightarrow> True
      | Failed k t \<Rightarrow> k = key \<or> hm_contains (rf_attempts (prune t f)) k \<or>
          hm_len (rf_attempts (prune t f)) < MAX_REGISTER_PASSWORD_KEYS
      | Cleared k \<Rightarrow> k \<noteq> key)"

fun undisturbed :: "failure_key \<Rightarrow> failure_call list \<Rightarrow> RegisterPasswordFailures \<Rightarrow> bool" where
  "undisturbed key [] f \<longleftrightarrow> True"
| "undisturbed key (c # cs) f \<longleftrightarrow> keeps_key key c f \<and> undisturbed key cs (run_call c f)"

lemma undisturbed_append:
  "undisturbed key (cs @ ds) f \<longleftrightarrow> undisturbed key cs f \<and> undisturbed key ds (fold run_call cs f)"
  by (induction cs arbitrary: f) auto

lemma run_call_step: "failures_step f (run_call c f)"
  by (cases c) (auto intro: failures_step.intros)

lemma run_call_inv: "failures_inv f \<Longrightarrow> failures_inv (fold run_call cs f)"
  by (induction cs arbitrary: f) (auto intro: failures.step_inv run_call_step)

lemma failures_of_snoc:
  "failures_of key (cs @ [c]) =
     failures_of key cs @ (case c of Failed k t \<Rightarrow> if k = key then [t] else [] | _ \<Rightarrow> [])"
  by (simp add: failures_of_def)

lemma set_failures_of: "set (failures_of key cs) \<subseteq> set (times_of cs)"
proof (induction cs)
  case (Cons c cs)
  then show ?case by (cases c) (auto simp: failures_of_def times_of_def)
qed (simp add: failures_of_def)

lemma record_failure_kept:
  assumes "failures_inv f" "keeps_key key (Failed k t) f" "k \<noteq> key"
  shows "held_attempts (record_failure k t f) key = drop_old t (held_attempts f key)"
proof -
  have "hm_wf (rf_attempts f)" using assms(1) by (simp add: failures_inv_def)
  from prune_held [OF this] show ?thesis
    using assms(2,3)
    by (auto simp: keeps_key_def record_failure_def Let_def held_attempts_def hm.get_ins)
qed

text \<open>What the table holds against a key after an undisturbed sequence, seen at any later time.\<close>

lemma undisturbed_held:
  assumes "failures_inv f" "held_attempts f key = []" "undisturbed key cs f" "sorted (times_of cs)"
    and "failures_of key cs \<noteq> [] \<Longrightarrow> last (failures_of key cs) - hd (failures_of key cs) \<le> from_secs 300"
    and "\<forall>t \<in> set (times_of cs). t \<le> now"
  shows "drop_old now (held_attempts (fold run_call cs f) key) = drop_old now (take 5 (failures_of key cs))"
  using assms(3-6)
proof (induction cs arbitrary: now rule: rev_induct)
  case Nil
  then show ?case using assms(2) by (simp add: failures_of_def)
next
  case (snoc c cs)
  let ?f = "fold run_call cs f" and ?ts = "failures_of key cs"
  have inv: "failures_inv ?f" by (rule run_call_inv [OF assms(1)])
  then have wf: "hm_wf (rf_attempts ?f)" by (simp add: failures_inv_def)
  have und: "undisturbed key cs f" "keeps_key key c ?f" "sorted (times_of cs)"
    using snoc.prems(1,2) by (simp_all add: undisturbed_append times_of_def sorted_append)
  have IH: "drop_old u (held_attempts ?f key) = drop_old u (take 5 ?ts)"
    if "\<forall>t \<in> set (times_of cs). t \<le> u"
      and "?ts \<noteq> [] \<Longrightarrow> last ?ts - hd ?ts \<le> from_secs 300" for u
    by (rule snoc.IH [OF und(1,3) that(2,1)])
  have now: "\<forall>t \<in> set (times_of cs). t \<le> now" using snoc.prems(4) by (simp add: times_of_def)
  show ?case
  proof (cases "\<exists>t. c = Failed key t")
    case True
    then obtain t where c: "c = Failed key t" ..
    have t: "\<forall>u \<in> set (times_of cs). u \<le> t"
      using snoc.prems(2) by (simp add: c times_of_def sorted_append)
    have win: "t - hd ?ts \<le> from_secs 300" if "?ts \<noteq> []"
      using snoc.prems(3) that by (simp add: c failures_of_snoc)
    have "last ?ts \<le> t" if "?ts \<noteq> []" using t that set_failures_of [of key cs] last_in_set by blast
    then have "?ts \<noteq> [] \<Longrightarrow> last ?ts - hd ?ts \<le> from_secs 300" using win by (meson diff_le_mono le_trans)
    then have "drop_old t (held_attempts ?f key) = drop_old t (take 5 ?ts)" using IH t by blast
    also have "\<dots> = take 5 ?ts"
      by (rule drop_old_recent) (use win in \<open>cases ?ts; auto simp: config_simps\<close>)
    finally show ?thesis
      by (simp add: c record_failure_held(1) [OF inv] failures_of_snoc Let_def config_simps)
  next
    case False
    then have ts: "failures_of key (cs @ [c]) = ?ts" by (auto simp: failures_of_snoc split: failure_call.split)
    have "held_attempts (run_call c ?f) key = held_attempts ?f key \<or>
        (\<exists>t \<le> now. held_attempts (run_call c ?f) key = drop_old t (held_attempts ?f key))"
    proof (cases c)
      case (Asked k t)
      then show ?thesis
        using snoc.prems(4) prune_held [OF wf] by (auto simp: is_locked_def Let_def times_of_def)
    next
      case (Failed k t)
      then have "k \<noteq> key" using False by auto
      with Failed und(2) record_failure_kept [OF inv] snoc.prems(4) show ?thesis by (auto simp: times_of_def)
    next
      case (Cleared k)
      then show ?thesis
        using und(2) by (simp add: keeps_key_def failures_clear_def held_attempts_def hm.get_del)
    qed
    then have "drop_old now (held_attempts (run_call c ?f) key) = drop_old now (held_attempts ?f key)"
      using drop_old_later by auto
    then show ?thesis using IH [OF now] snoc.prems(3) unfolding ts by simp
  qed
qed

section \<open>Properties\<close>

text \<open>
  Whatever sources and lobbies are tried, the table of failed passwords keeps at most 4096
  keys and at most five attempts per key.
\<close>

lemma failure_table_bounded:
  assumes "failures_step\<^sup>*\<^sup>* no_failures f"
  shows "hm_len (rf_attempts f) \<le> 4096 \<and> length (held_attempts f key) \<le> 5"
  using failures.reachable_inv [OF refl assms]
  by (auto simp: failures_inv_def held_attempts_def config_simps simp del: split_paired_All
      split: option.splits)

text \<open>
  C18. A failed password never locks another source or another lobby: if a key is locked after
  a failure recorded under a different key, it was already locked by its own failures.
\<close>

theorem password_lock_isolated:
  assumes "failures_step\<^sup>*\<^sup>* no_failures f" "k \<noteq> key"
    and "fst (is_locked k now' (record_failure key now f))"
  shows "fst (is_locked k now' f)"
proof -
  have inv: "failures_inv f" using failures.reachable_inv [OF refl assms(1)] .
  then have wf: "hm_wf (rf_attempts f)" "hm_wf (rf_attempts (record_failure key now f))"
    using record_failure_inv by (auto simp: failures_inv_def)
  have "5 \<le> length (drop_old now' (held_attempts (record_failure key now f) k))"
    using assms(3) by (simp add: is_locked_held [OF wf(2)] config_simps)
  moreover have "held_attempts (record_failure key now f) k \<in> {drop_old now (held_attempts f k), []}"
    using record_failure_held(2) [OF inv assms(2)] by auto
  ultimately have "5 \<le> length (drop_old now' (held_attempts f k))"
    using drop_old_suffix [of now' now "held_attempts f k"] by (auto simp: drop_old_def [of _ "[]"])
  then show ?thesis by (simp add: is_locked_held [OF wf(1)] config_simps)
qed

theorem password_lock_isolated_witness:
  "fst (is_locked (V4 1, []) 9 (fold (\<lambda>t. record_failure (V4 1, []) t) [1, 2, 3, 4, 5] no_failures))"
proof -
  let ?f = "fold (\<lambda>t. record_failure (V4 1, []) t) [1, 2, 3, 4, 5] no_failures"
  have "failures_step\<^sup>*\<^sup>* no_failures ?f" by (rule failures_run)
  then show ?thesis
    by (rule password_lock_isolated [of _ _ "(V4 2, [])" _ 6]) (simp, code_simp)
qed

text \<open>
  C19. The lock of a key. Take any sequence of calls on the table, of all clients, in the order of
  their times, that starts when the key has no attempt on record and in which nothing forgets the
  key's attempts: no success resets it, and no failure under a further key meets a table that is
  full (4096 keys with failures of the last 300 seconds), which would retire its oldest entry. If
  the key fails at least five times in it, all within 300 seconds, then the key is locked at a
  later time exactly until 300 seconds after the first of its failures: neither further failures
  while it is locked nor the calls for other keys extend or shorten the lock.
\<close>

theorem five_failures_lock:
  assumes "failures_step\<^sup>*\<^sup>* no_failures f" "held_attempts f key = []" "undisturbed key calls f"
    and "sorted (times_of calls @ [now])" "ts = failures_of key calls"
    and "5 \<le> length ts" "last ts - hd ts \<le> from_secs 300"
  shows "fst (is_locked key now (fold run_call calls f)) \<longleftrightarrow> now - hd ts \<le> from_secs 300"
proof -
  have inv: "failures_inv f" using failures.reachable_inv [OF refl assms(1)] .
  have held: "drop_old now (held_attempts (fold run_call calls f) key) = drop_old now (take 5 ts)"
    using undisturbed_held [OF inv assms(2,3), of now] assms(4,5,7) by (simp add: sorted_append)
  obtain t rest where ts: "ts = t # rest" using assms(6) by (cases ts) auto
  have "hm_wf (rf_attempts (fold run_call calls f))"
    using run_call_inv [OF inv] by (simp add: failures_inv_def)
  then have "fst (is_locked key now (fold run_call calls f)) \<longleftrightarrow>
      5 \<le> length (drop_old now (take 5 ts))"
    using held by (simp add: is_locked_held config_simps)
  also have "\<dots> \<longleftrightarrow> now - hd ts \<le> from_secs 300"
  proof (cases "now - hd ts \<le> from_secs 300")
    case True
    then have "drop_old now (take 5 ts) = take 5 ts"
      by (intro drop_old_recent) (simp add: ts config_simps)
    then show ?thesis using True assms(6) by simp
  next
    case False
    then have "drop_old now (take 5 ts) = drop_old now (take 4 rest)"
      by (simp add: ts drop_old_def config_simps)
    then have "length (drop_old now (take 5 ts)) \<le> 4"
      using length_drop_old [of now "take 4 rest"] by simp
    then show ?thesis using False by simp
  qed
  finally show ?thesis .
qed

text \<open>Another key fails and succeeds in between; the sixth failure comes while the key is locked.\<close>

definition demo_calls :: "failure_call list" where
  "demo_calls = [Failed (V4 1, []) 1, Failed (V4 2, []) 1, Failed (V4 1, []) 2, Asked (V4 2, []) 2,
     Failed (V4 1, []) 3, Cleared (V4 2, []), Failed (V4 1, []) 4, Failed (V4 1, []) 5,
     Failed (V4 1, []) 6]"

theorem five_failures_lock_witness:
  "fst (is_locked (V4 1, []) 300000000001 (fold run_call demo_calls no_failures)) \<and>
   \<not> fst (is_locked (V4 1, []) 300000000002 (fold run_call demo_calls no_failures))"
proof -
  have ts: "[1, 2, 3, 4, 5, 6] = failures_of (V4 1, []) demo_calls"
    by (simp add: demo_calls_def failures_of_def)
  have und: "undisturbed (V4 1, []) demo_calls no_failures" by code_simp
  have sorted: "sorted (times_of demo_calls @ [300000000001])" "sorted (times_of demo_calls @ [300000000002])"
    by (simp_all add: demo_calls_def times_of_def)
  show ?thesis
    using five_failures_lock [OF rtranclp.rtrancl_refl held_empty und sorted(1) ts]
      five_failures_lock [OF rtranclp.rtrancl_refl held_empty und sorted(2) ts]
    by (simp add: from_secs_def)
qed

end
