(* ===== verification/Rate_Windows.thy ===== *)
theory Rate_Windows
  imports Config_Limits
begin

text \<open>
  The fixed-window counters of \<open>src/src/state.rs\<close>: the message limiter of a connection, the
  submission quota of a source, and the outbound budget of a socket. A call reads the clock
  once to test the window and once more when it opens a new one; the two readings are the
  arguments \<open>now\<close> and \<open>now'\<close>.

  The locale \<open>window_limiter\<close> is the contract the three share. Inside it one bound is proved:
  what a run of calls admits within one window length is at most twice the limit of the
  window, whatever the alignment of the windows.
\<close>

section \<open>The counters\<close>

record MessageRateLimiter =
  ml_window_started :: instant
  ml_messages :: u32

definition ml_new :: "instant \<Rightarrow> MessageRateLimiter" where
  "ml_new now = \<lparr>ml_window_started = now, ml_messages = 0\<rparr>"

definition ml_allow ::
  "MessageRateLimiter \<Rightarrow> instant \<Rightarrow> instant \<Rightarrow> bool \<times> MessageRateLimiter" where
  "ml_allow l now now' =
     (let l1 = (if from_secs MESSAGE_RATE_WINDOW_SECS \<le> now - ml_window_started l
                then \<lparr>ml_window_started = now', ml_messages = 0\<rparr> else l)
      in if MAX_MESSAGES_PER_WINDOW \<le> ml_messages l1 then (False, l1)
         else (True, l1\<lparr>ml_messages := ml_messages l1 + 1\<rparr>))"

record SubmitQuota =
  sq_window_started :: instant
  sq_submissions :: u32

definition allow_submit_quota :: "SubmitQuota \<Rightarrow> instant \<Rightarrow> instant \<Rightarrow> bool \<times> SubmitQuota" where
  "allow_submit_quota q now now' =
     (let q1 = (if from_secs COMMUNITY_NODE_SUBMIT_WINDOW_SECS \<le> now - sq_window_started q
                then \<lparr>sq_window_started = now', sq_submissions = 0\<rparr> else q)
      in if COMMUNITY_NODE_SUBMIT_MAX_PER_WINDOW \<le> sq_submissions q1 then (False, q1)
         else (True, q1\<lparr>sq_submissions := sq_submissions q1 + 1\<rparr>))"

text \<open>The byte counter is a \<open>usize\<close> of 64 bits and the sum saturates at its maximum.\<close>

record OutboundBudget =
  ob_window_started :: instant
  ob_frames :: u32
  ob_bytes :: nat

definition ob_new :: "instant \<Rightarrow> OutboundBudget" where
  "ob_new now = \<lparr>ob_window_started = now, ob_frames = 0, ob_bytes = 0\<rparr>"

definition usize_saturating_add :: "nat \<Rightarrow> nat \<Rightarrow> nat" where
  "usize_saturating_add a b = min (a + b) USIZE_MAX"

definition ob_allow ::
  "OutboundBudget \<Rightarrow> instant \<Rightarrow> instant \<Rightarrow> nat \<Rightarrow> bool \<times> OutboundBudget" where
  "ob_allow b now now' len =
     (let b1 = (if from_secs OUTBOUND_BUDGET_WINDOW_SECS \<le> now - ob_window_started b
                then \<lparr>ob_window_started = now', ob_frames = 0, ob_bytes = 0\<rparr> else b)
      in if MAX_OUTBOUND_BYTES_PER_WINDOW < len \<or> MAX_OUTBOUND_FRAMES_PER_WINDOW \<le> ob_frames b1 \<or>
            MAX_OUTBOUND_BYTES_PER_WINDOW < usize_saturating_add (ob_bytes b1) len
         then (False, b1)
         else (True, b1\<lparr>ob_frames := ob_frames b1 + 1, ob_bytes := ob_bytes b1 + len\<rparr>))"

section \<open>Runs of a limiter\<close>

text \<open>A call: the two clock readings and the argument of the operation.\<close>

type_synonym 'c call = "instant \<times> instant \<times> 'c"

text \<open>The total weight of the calls a run admits.\<close>

fun admitted ::
  "('s \<Rightarrow> instant \<Rightarrow> instant \<Rightarrow> 'c \<Rightarrow> bool \<times> 's) \<Rightarrow> ('c \<Rightarrow> nat) \<Rightarrow> 's \<Rightarrow> 'c call list \<Rightarrow> nat" where
  "admitted allow weight s [] = 0"
| "admitted allow weight s ((now, now', c) # calls) =
     (let (ok, s') = allow s now now' c
      in (if ok then weight c else 0) + admitted allow weight s' calls)"

fun after ::
  "('s \<Rightarrow> instant \<Rightarrow> instant \<Rightarrow> 'c \<Rightarrow> bool \<times> 's) \<Rightarrow> 's \<Rightarrow> 'c call list \<Rightarrow> 's" where
  "after allow s [] = s"
| "after allow s ((now, now', c) # calls) = after allow (snd (allow s now now' c)) calls"

fun clock_ok :: "instant \<Rightarrow> 'c call list \<Rightarrow> bool" where
  "clock_ok t0 [] \<longleftrightarrow> True"
| "clock_ok t0 ((now, now', c) # calls) \<longleftrightarrow> t0 \<le> now \<and> now \<le> now' \<and> clock_ok now' calls"

definition within :: "instant \<Rightarrow> nat \<Rightarrow> 'c call list \<Rightarrow> bool" where
  "within t0 len calls \<longleftrightarrow> list_all (\<lambda>(now, now', c). now < t0 + len) calls"

lemma within_simps [simp]:
  "within t0 len []"
  "within t0 len ((now, now', c) # calls) \<longleftrightarrow> now < t0 + len \<and> within t0 len calls"
  by (simp_all add: within_def)

lemma within_later: "within t0 len calls \<Longrightarrow> t0 \<le> t1 \<Longrightarrow> within t1 len calls"
  by (auto simp: within_def list_all_iff)

locale window_limiter =
  fixes started :: "'s \<Rightarrow> instant"
    and used :: "'s \<Rightarrow> nat"
    and allow :: "'s \<Rightarrow> instant \<Rightarrow> instant \<Rightarrow> 'c \<Rightarrow> bool \<times> 's"
    and weight :: "'c \<Rightarrow> nat"
    and window :: nat
    and cap :: nat
  assumes window_pos: "0 < window"
    and fresh_window: "window \<le> now - started s \<Longrightarrow> allow s now now' c = (ok, s') \<Longrightarrow>
      started s' = now' \<and> used s' = (if ok then weight c else 0)"
    and same_window: "now - started s < window \<Longrightarrow> allow s now now' c = (ok, s') \<Longrightarrow>
      started s' = started s \<and> used s' = used s + (if ok then weight c else 0)"
    and capped: "used s \<le> cap \<Longrightarrow> allow s now now' c = (ok, s') \<Longrightarrow> used s' \<le> cap"
begin

lemma admitted_same_window:
  "used s \<le> cap \<Longrightarrow> within (started s) window calls \<Longrightarrow>
   used s + admitted allow weight s calls \<le> cap"
proof (induction calls arbitrary: s)
  case (Cons call calls)
  obtain now now' c where call: "call = (now, now', c)" by (cases call)
  obtain ok s' where step: "allow s now now' c = (ok, s')" by fastforce
  have now: "now < started s + window" and rest: "within (started s) window calls"
    using Cons.prems(2) call by auto
  then have "now - started s < window" using window_pos by linarith
  with step have eq: "started s' = started s" "used s' = used s + (if ok then weight c else 0)"
    using same_window by blast+
  have "used s' \<le> cap" using capped [OF Cons.prems(1) step] .
  with Cons.IH [of s'] rest eq have "used s' + admitted allow weight s' calls \<le> cap" by simp
  with step eq call show ?case by simp
qed simp

lemma admitted_within:
  "used s \<le> cap \<Longrightarrow> started s \<le> t0 \<Longrightarrow> clock_ok t0 calls \<Longrightarrow> within t0 window calls \<Longrightarrow>
   used s + admitted allow weight s calls \<le> 2 * cap"
proof (induction calls arbitrary: s t0)
  case (Cons call calls)
  obtain now now' c where call: "call = (now, now', c)" by (cases call)
  obtain ok s' where step: "allow s now now' c = (ok, s')" by fastforce
  have now: "t0 \<le> now" "now \<le> now'" "clock_ok now' calls" and rest: "within t0 window calls"
    using Cons.prems call by auto
  have s': "used s' \<le> cap" using capped [OF Cons.prems(1) step] .
  have later: "within now' window calls" using rest now by (auto intro: within_later)
  show ?case
  proof (cases "window \<le> now - started s")
    case True
    with step have eq: "started s' = now'" "used s' = (if ok then weight c else 0)"
      using fresh_window by blast+
    with admitted_same_window [OF s'] later
    have "used s' + admitted allow weight s' calls \<le> cap" by simp
    with eq step call Cons.prems(1) show ?thesis by simp
  next
    case False
    then have "now - started s < window" by simp
    with step have eq: "started s' = started s" "used s' = used s + (if ok then weight c else 0)"
      using same_window by blast+
    have "started s' \<le> now'" using eq Cons.prems(2) now by simp
    with Cons.IH [OF s' _ now(3) later] have
      "used s' + admitted allow weight s' calls \<le> 2 * cap" by simp
    with eq step call show ?thesis by simp
  qed
qed simp

lemma after_inv:
  "used s \<le> cap \<Longrightarrow> started s \<le> t \<Longrightarrow> clock_ok t (before @ (t0, r) # calls) \<Longrightarrow>
   used (after allow s before) \<le> cap \<and> started (after allow s before) \<le> t0 \<and>
   clock_ok t0 ((t0, r) # calls)"
proof (induction before arbitrary: s t)
  case Nil
  then show ?case by (cases r) auto
next
  case (Cons call before)
  obtain now now' c where call: "call = (now, now', c)" by (cases call)
  obtain ok s' where step: "allow s now now' c = (ok, s')" by fastforce
  have "started s' \<le> now'"
    using fresh_window [OF _ step] same_window [OF _ step] Cons.prems call
    by (cases "window \<le> now - started s") auto
  moreover have "used s' \<le> cap" using capped [OF Cons.prems(1) step] .
  ultimately show ?case using Cons.IH [of s' now'] Cons.prems(3) step call by simp
qed

lemma admitted_any_window:
  assumes "used s \<le> cap" "started s \<le> t" "clock_ok t (before @ (t0, r) # calls)"
    "within t0 window ((t0, r) # calls)"
  shows "admitted allow weight (after allow s before) ((t0, r) # calls) \<le> 2 * cap"
  using admitted_within [of "after allow s before" t0 "(t0, r) # calls"]
    after_inv [OF assms(1-3)] assms(4) by linarith

end

section \<open>The counters keep the contract\<close>

definition ml_call :: "MessageRateLimiter \<Rightarrow> instant \<Rightarrow> instant \<Rightarrow> unit \<Rightarrow> bool \<times> MessageRateLimiter" where
  "ml_call l now now' c = ml_allow l now now'"

definition sq_call :: "SubmitQuota \<Rightarrow> instant \<Rightarrow> instant \<Rightarrow> unit \<Rightarrow> bool \<times> SubmitQuota" where
  "sq_call q now now' c = allow_submit_quota q now now'"

lemma unat_Suc_below: "unat x < n \<Longrightarrow> n < 2 ^ 32 \<Longrightarrow> unat (x + 1) = Suc (unat x)" for x :: u32
proof -
  assume "unat x < n" "n < 2 ^ 32"
  then have "unat x + 1 < 2 ^ 32" by linarith
  then show ?thesis by (simp add: unat_word_ariths)
qed

interpretation msg_rate: window_limiter ml_window_started "\<lambda>l. unat (ml_messages l)" ml_call
    "\<lambda>_. 1" "from_secs MESSAGE_RATE_WINDOW_SECS" "unat MAX_MESSAGES_PER_WINDOW"
  by unfold_locales
    (auto simp: ml_call_def ml_allow_def Let_def unat_Suc_below [of _ 120] not_le word_less_nat_alt
      config_simps from_secs_def split: if_splits)

interpretation submit_rate: window_limiter sq_window_started "\<lambda>q. unat (sq_submissions q)" sq_call
    "\<lambda>_. 1" "from_secs COMMUNITY_NODE_SUBMIT_WINDOW_SECS"
    "unat COMMUNITY_NODE_SUBMIT_MAX_PER_WINDOW"
  by unfold_locales
    (auto simp: sq_call_def allow_submit_quota_def Let_def unat_Suc_below [of _ 8] not_le word_less_nat_alt
      config_simps from_secs_def split: if_splits)

interpretation out_frames: window_limiter ob_window_started "\<lambda>b. unat (ob_frames b)" ob_allow
    "\<lambda>_. 1" "from_secs OUTBOUND_BUDGET_WINDOW_SECS" "unat MAX_OUTBOUND_FRAMES_PER_WINDOW"
  by unfold_locales
    (auto simp: ob_allow_def Let_def unat_Suc_below [of _ 64] not_le word_less_nat_alt config_simps
      from_secs_def split: if_splits)

interpretation out_bytes: window_limiter ob_window_started ob_bytes ob_allow "\<lambda>len. len"
    "from_secs OUTBOUND_BUDGET_WINDOW_SECS" MAX_OUTBOUND_BYTES_PER_WINDOW
  by unfold_locales
    (auto simp: ob_allow_def Let_def usize_saturating_add_def USIZE_MAX_def config_simps
      from_secs_def split: if_splits)

section \<open>Properties\<close>

text \<open>
  C16. In any span of ten seconds a connection has at most 240 messages admitted, however its
  calls are aligned with the windows of the limiter: \<open>before\<close> are the calls since the
  connection was accepted, and the span starts with the call at \<open>t0\<close>.
\<close>

theorem message_rate_bound:
  assumes "clock_ok t (before @ (t0, r) # calls)"
    and "within t0 (from_secs MESSAGE_RATE_WINDOW_SECS) ((t0, r) # calls)"
  shows "admitted ml_call (\<lambda>_. 1) (after ml_call (ml_new t) before) ((t0, r) # calls) \<le> 240"
  using msg_rate.admitted_any_window [OF _ _ assms] by (simp add: ml_new_def config_simps)

theorem message_rate_bound_witness:
  "admitted ml_call (\<lambda>_. 1) (after ml_call (ml_new 5) [(6, 6, ())]) [(7, 7, ()), (8, 9, ())] = 2 \<and>
   admitted ml_call (\<lambda>_. 1) (after ml_call (ml_new 5) [(6, 6, ())]) [(7, 7, ()), (8, 9, ())] \<le> 240"
proof
  show "admitted ml_call (\<lambda>_. 1) (after ml_call (ml_new 5) [(6, 6, ())])
    [(7, 7, ()), (8, 9, ())] = 2" by code_simp
  show "admitted ml_call (\<lambda>_. 1) (after ml_call (ml_new 5) [(6, 6, ())])
    [(7, 7, ()), (8, 9, ())] \<le> 240"
    by (rule message_rate_bound) (simp_all add: from_secs_def config_simps)
qed

text \<open>
  C17. In any span of one second the outbound budget of a socket passes at most 128 frames and
  at most two mebibytes; \<open>before\<close> are the sends since the socket was opened. A frame above
  one mebibyte never passes.
\<close>

theorem outbound_budget_bound:
  assumes "clock_ok t (before @ (t0, r) # calls)"
    and "within t0 (from_secs OUTBOUND_BUDGET_WINDOW_SECS) ((t0, r) # calls)"
  shows "admitted ob_allow (\<lambda>_. 1) (after ob_allow (ob_new t) before) ((t0, r) # calls) \<le> 128 \<and>
    admitted ob_allow (\<lambda>len. len) (after ob_allow (ob_new t) before) ((t0, r) # calls)
      \<le> 2 * 1024 * 1024 \<and>
    (\<forall>b now now'. 1024 * 1024 < snd r \<longrightarrow> \<not> fst (ob_allow b now now' (snd r)))"
  using out_frames.admitted_any_window [OF _ _ assms] out_bytes.admitted_any_window [OF _ _ assms]
  by (simp add: ob_new_def config_simps ob_allow_def)

theorem outbound_budget_bound_witness:
  "admitted ob_allow (\<lambda>_. 1) (after ob_allow (ob_new 0) []) [(1, 1, 700000), (2, 2, 700000)] = 1 \<and>
   admitted ob_allow (\<lambda>_. 1) (after ob_allow (ob_new 0) []) [(1, 1, 700000), (2, 2, 700000)] \<le> 128"
proof
  show "admitted ob_allow (\<lambda>_. 1) (after ob_allow (ob_new 0) [])
    [(1, 1, 700000), (2, 2, 700000)] = 1" by code_simp
  show "admitted ob_allow (\<lambda>_. 1) (after ob_allow (ob_new 0) [])
    [(1, 1, 700000), (2, 2, 700000)] \<le> 128"
    by (rule outbound_budget_bound [THEN conjunct1]) (simp_all add: from_secs_def config_simps)
qed

end
