(* ===== verification/Transport.thy ===== *)
theory Transport
  imports Wire_Codec Lobby_State Rate_Windows
begin

text \<open>
  \<open>src/src/transport.rs\<close>: bounded writes to a socket, delivery to one member or to a whole
  lobby, and the session metadata the server stamps on relayed messages.

  The state every handler works on is \<open>World\<close>: the registry of lobbies, the table of failed
  passwords, the outbound budget and the disconnect flag of every connection, and the log of
  frames handed to the sockets (with the result of the write). The host is a parameter: the
  JSON package, the cryptographic packages, and, for the \<open>n\<close>-th write of the run, the two clock
  readings of its budget check and whether the write completed in time.
\<close>

section \<open>State and host\<close>

datatype WsMessage = Text rstr | Binary bytes | WsPing bytes | WsPong bytes | Close | Frame

record World =
  w_lobbies :: Lobbies
  w_client_lobby_map :: ClientLobbyMap
  w_failures :: RegisterPasswordFailures
  w_budget :: "nat \<Rightarrow> OutboundBudget"
  w_disconnect :: "nat \<Rightarrow> bool"
  w_wire :: "(nat \<times> WsMessage \<times> bool) list"
  w_sends :: nat

record host =
  h_serde :: serde
  h_crypto :: crypto
  h_net :: "nat \<Rightarrow> instant \<times> instant \<times> bool"

section \<open>Writes\<close>

definition message_bytes :: "WsMessage \<Rightarrow> nat" where
  "message_bytes m =
     (case m of
        Text s \<Rightarrow> str_len s
      | Binary b \<Rightarrow> length b
      | WsPing b \<Rightarrow> length b
      | WsPong b \<Rightarrow> length b
      | Close \<Rightarrow> 0
      | Frame \<Rightarrow> 0)"

definition send_message :: "host \<Rightarrow> World \<Rightarrow> nat \<Rightarrow> WsMessage \<Rightarrow> bool \<times> World" where
  "send_message h w sender m =
     (let (now, now', completed) = h_net h (w_sends w);
          (allowed, b) = ob_allow (w_budget w sender) now now' (message_bytes m);
          w1 = w\<lparr>w_budget := (w_budget w)(sender := b), w_sends := w_sends w + 1\<rparr>
      in if \<not> allowed then (False, w1)
         else (completed, w1\<lparr>w_wire := w_wire w1 @ [(sender, m, completed)]\<rparr>))"

definition send_text :: "host \<Rightarrow> World \<Rightarrow> nat \<Rightarrow> rstr \<Rightarrow> bool \<times> World" where
  "send_text h w sender text = send_message h w sender (Text text)"

text \<open>A write whose failure raises the disconnect flag of the receiving connection.\<close>

definition deliver :: "host \<Rightarrow> World \<Rightarrow> nat \<Rightarrow> nat \<Rightarrow> WsMessage \<Rightarrow> bool \<times> World" where
  "deliver h w sender disconnect m =
     (let (ok, w1) = send_message h w sender m
      in (ok, if ok then w1 else w1\<lparr>w_disconnect := (w_disconnect w1)(disconnect := True)\<rparr>))"

definition deliver_all :: "host \<Rightarrow> World \<Rightarrow> (nat \<times> nat) list \<Rightarrow> WsMessage \<Rightarrow> World" where
  "deliver_all h w senders m =
     fold (\<lambda>(sender, disconnect) w. snd (deliver h w sender disconnect m)) senders w"

section \<open>Session metadata\<close>

definition json_sender_id :: "serde \<Rightarrow> rstr \<Rightarrow> rstr option" where
  "json_sender_id S raw = Option.bind (json_from_str S raw) json_sender"

definition stamp_fields :: "(rstr, json) hashmap \<Rightarrow> rstr \<Rightarrow> u64 \<Rightarrow> (rstr, json) hashmap" where
  "stamp_fields fs sender_id generation =
     (let fs1 = (if hm_contains fs (str ''from'')
                 then map_insert (str ''from'') (JStr sender_id) fs else fs);
          fs2 = (if hm_contains fs1 (str ''clientId'')
                 then map_insert (str ''clientId'') (JStr sender_id) fs1 else fs1)
      in map_insert (str ''sessionGeneration'') (JNum (uint generation)) fs2)"

definition inject_session_metadata :: "serde \<Rightarrow> rstr \<Rightarrow> rstr \<Rightarrow> u64 \<Rightarrow> rstr" where
  "inject_session_metadata S raw sender_id generation =
     (case json_from_str S raw of
        Some (JObj fs) \<Rightarrow> json_to_string S (JObj (stamp_fields fs sender_id generation))
      | _ \<Rightarrow> raw)"

section \<open>Delivery inside a lobby\<close>

definition lobby_client :: "World \<Rightarrow> rstr \<Rightarrow> rstr \<Rightarrow> ClientInfo option" where
  "lobby_client w lobby_id client_id =
     Option.bind (hm_get (w_lobbies w) lobby_id) (\<lambda>lobby. hm_get (lb_clients lobby) client_id)"

definition raw_text :: "WsMessage \<Rightarrow> rstr option" where
  "raw_text m = (case m of Text s \<Rightarrow> Some s | _ \<Rightarrow> None)"

definition send_to_lobby_client ::
  "host \<Rightarrow> World \<Rightarrow> rstr \<Rightarrow> rstr \<Rightarrow> WsMessage \<Rightarrow> bool \<times> World" where
  "send_to_lobby_client h w lobby_id client_id m =
     (let source_id = Option.bind (raw_text m) (json_sender_id (h_serde h))
      in case hm_get (w_lobbies w) lobby_id of
           None \<Rightarrow> (False, w)
         | Some lobby \<Rightarrow>
             (case hm_get (lb_clients lobby) client_id of
                None \<Rightarrow> (False, w)
              | Some target \<Rightarrow>
                  let generation = map_option ci_session_generation
                        (Option.bind source_id (hm_get (lb_clients lobby)))
                  in (case (generation, raw_text m) of
                        (Some g, Some text) \<Rightarrow>
                          deliver h w (ci_sender target) (ci_disconnect target)
                            (Text (inject_session_metadata (h_serde h) text
                              (case source_id of None \<Rightarrow> [] | Some s \<Rightarrow> s) g))
                      | _ \<Rightarrow> deliver h w (ci_sender target) (ci_disconnect target) m)))"

definition is_current_session :: "World \<Rightarrow> rstr \<Rightarrow> rstr \<Rightarrow> u64 \<Rightarrow> nat \<Rightarrow> bool" where
  "is_current_session w lobby_id client_id session_generation sender \<longleftrightarrow>
     (case lobby_client w lobby_id client_id of
        None \<Rightarrow> False
      | Some client \<Rightarrow>
          ci_session_generation client = session_generation \<and> ci_sender client = sender)"

definition player_info :: "ClientInfo \<Rightarrow> PlayerInfo" where
  "player_info c =
     \<lparr>pi_player_id = ci_player_id c, pi_player_name = ci_player_name c,
      pi_virtual_ip = ci_virtual_ip c, pi_virtual_domain = ci_virtual_domain c,
      pi_use_domain = ci_use_domain c, pi_chat_public_key = ci_chat_public_key c,
      pi_session_generation = ci_session_generation c\<rparr>"

definition current_players :: "World \<Rightarrow> rstr \<Rightarrow> rstr option \<Rightarrow> PlayerInfo list" where
  "current_players w lobby_id exclude_id =
     (case hm_get (w_lobbies w) lobby_id of
        None \<Rightarrow> []
      | Some lobby \<Rightarrow>
          map (\<lambda>(_, info). player_info info)
            (filter (\<lambda>(i, _). is_none_or exclude_id (\<lambda>ex. i \<noteq> ex)) (lb_clients lobby)))"

definition broadcast_to_lobby ::
  "host \<Rightarrow> World \<Rightarrow> rstr \<Rightarrow> rstr \<Rightarrow> SignalingMessage \<Rightarrow> World" where
  "broadcast_to_lobby h w lobby_id exclude_id m =
     (let text = message_text (h_serde h) m;
          source_id = json_sender_id (h_serde h) text
      in case hm_get (w_lobbies w) lobby_id of
           None \<Rightarrow> w
         | Some lobby \<Rightarrow>
             let generation = map_option ci_session_generation
                   (Option.bind source_id (hm_get (lb_clients lobby)));
                 senders = map (\<lambda>(_, c). (ci_sender c, ci_disconnect c))
                   (filter (\<lambda>(i, _). i \<noteq> exclude_id) (lb_clients lobby));
                 out = (case (generation, source_id) of
                          (Some g, Some s) \<Rightarrow> inject_session_metadata (h_serde h) text s g
                        | _ \<Rightarrow> text)
             in deliver_all h w senders (Text out))"

definition send_chat_token_rotation ::
  "host \<Rightarrow> World \<Rightarrow> (rstr \<times> nat) list \<Rightarrow> rstr \<Rightarrow> rstr \<Rightarrow> u64 \<Rightarrow> World" where
  "send_chat_token_rotation h w targets lobby_id chat_token chat_token_epoch =
     (case hm_get (w_lobbies w) lobby_id of
        None \<Rightarrow> w
      | Some lobby \<Rightarrow>
          if lb_chat_token_epoch lobby \<noteq> chat_token_epoch \<or> lb_chat_token lobby \<noteq> chat_token then w
          else
            let senders = List.map_filter (\<lambda>(client_id, sender).
                  case hm_get (lb_clients lobby) client_id of
                    None \<Rightarrow> None
                  | Some client \<Rightarrow>
                      if ci_sender client = sender then Some (sender, ci_disconnect client)
                      else None) targets
            in deliver_all h w senders
                 (Text (message_text (h_serde h)
                   (ChatTokenRotated lobby_id chat_token chat_token_epoch))))"

section \<open>What delivery leaves alone\<close>

text \<open>The part of the state that writes do not touch.\<close>

definition same_registry :: "World \<Rightarrow> World \<Rightarrow> bool" where
  "same_registry w w' \<longleftrightarrow>
     w_lobbies w' = w_lobbies w \<and> w_client_lobby_map w' = w_client_lobby_map w \<and>
     w_failures w' = w_failures w"

text \<open>A log entry without the result of the write; \<open>w'\<close> is \<open>w\<close> after frames to the given sockets with the given content.\<close>

definition frame_of :: "nat \<times> WsMessage \<times> bool \<Rightarrow> nat \<times> WsMessage" where
  "frame_of e = (fst e, fst (snd e))"

definition only_sends :: "(nat \<times> WsMessage) set \<Rightarrow> World \<Rightarrow> World \<Rightarrow> bool" where
  "only_sends F w w' \<longleftrightarrow>
     same_registry w w' \<and>
     (\<exists>log. w_wire w' = w_wire w @ log \<and> frame_of ` set log \<subseteq> F)"

lemma same_registry_refl [simp]: "same_registry w w"
  by (simp add: same_registry_def)

lemma same_registry_trans: "same_registry a b \<Longrightarrow> same_registry b c \<Longrightarrow> same_registry a c"
  by (simp add: same_registry_def)

lemma only_sends_refl [simp]: "only_sends F w w"
  by (simp add: only_sends_def)

lemma only_sends_trans: "only_sends F a b \<Longrightarrow> only_sends F b c \<Longrightarrow> only_sends F a c"
proof -
  assume "only_sends F a b" "only_sends F b c"
  then obtain l1 l2 where "w_wire b = w_wire a @ l1" "w_wire c = w_wire b @ l2"
    "frame_of ` set l1 \<subseteq> F" "frame_of ` set l2 \<subseteq> F" "same_registry a b" "same_registry b c"
    unfolding only_sends_def by blast
  then have "same_registry a c" "w_wire c = w_wire a @ (l1 @ l2)" "frame_of ` set (l1 @ l2) \<subseteq> F"
    by (auto intro: same_registry_trans)
  then show ?thesis unfolding only_sends_def by blast
qed

lemma only_sends_mono: "only_sends F a b \<Longrightarrow> F \<subseteq> G \<Longrightarrow> only_sends G a b"
  unfolding only_sends_def by blast

lemma only_sends_registry: "only_sends F w w' \<Longrightarrow> same_registry w w'"
  by (simp add: only_sends_def)

lemma send_message_only: "only_sends {(sender, m)} w (snd (send_message h w sender m))"
  by (auto simp: send_message_def only_sends_def same_registry_def Let_def frame_of_def
      split: prod.splits)

lemma deliver_only: "only_sends {(sender, m)} w (snd (deliver h w sender disconnect m))"
proof -
  have "only_sends {(sender, m)} w (snd (send_message h w sender m))" by (rule send_message_only)
  then show ?thesis
    by (auto simp: deliver_def only_sends_def same_registry_def split: prod.splits)
qed

lemma deliver_all_only:
  "only_sends {(s, m) |s. s \<in> fst ` set senders} w (deliver_all h w senders m)"
proof (induction senders arbitrary: w)
  case (Cons sd senders)
  obtain s d where sd: "sd = (s, d)" by (cases sd)
  have "only_sends {(s, m)} w (snd (deliver h w s d m))" by (rule deliver_only)
  then have "only_sends {(s, m) |s. s \<in> fst ` set (sd # senders)} w (snd (deliver h w s d m))"
    by (rule only_sends_mono) (auto simp: sd)
  moreover have "only_sends {(s, m) |s. s \<in> fst ` set (sd # senders)} (snd (deliver h w s d m))
      (deliver_all h (snd (deliver h w s d m)) senders m)"
    using Cons by (rule only_sends_mono) auto
  ultimately show ?case by (auto simp: deliver_all_def sd intro: only_sends_trans)
qed (simp add: deliver_all_def)

text \<open>The sockets of the members of a lobby, and the ones a broadcast may reach.\<close>

definition member_senders :: "World \<Rightarrow> rstr \<Rightarrow> nat set" where
  "member_senders w lobby_id =
     (case hm_get (w_lobbies w) lobby_id of
        None \<Rightarrow> {}
      | Some lobby \<Rightarrow> ci_sender ` snd ` set (lb_clients lobby))"

lemma lobby_client_sender:
  "lobby_client w lobby_id client_id = Some c \<Longrightarrow> ci_sender c \<in> member_senders w lobby_id"
  by (force simp: lobby_client_def member_senders_def Option.bind_eq_Some_conv
      dest!: hm_get_in_set [of "lb_clients _"])

lemma send_to_lobby_client_only:
  "only_sends {(ci_sender c, m') |c m'. lobby_client w lobby_id client_id = Some c} w
     (snd (send_to_lobby_client h w lobby_id client_id m))"
proof (cases "hm_get (w_lobbies w) lobby_id")
  case (Some lobby)
  show ?thesis
  proof (cases "hm_get (lb_clients lobby) client_id")
    case None
    with Some show ?thesis by (simp add: send_to_lobby_client_def Let_def)
  next
    case (Some target)
    with \<open>hm_get (w_lobbies w) lobby_id = Some lobby\<close>
    have "\<exists>m'. snd (send_to_lobby_client h w lobby_id client_id m) =
        snd (deliver h w (ci_sender target) (ci_disconnect target) m')"
      by (auto simp: send_to_lobby_client_def Let_def split: option.splits)
    then obtain m' where "snd (send_to_lobby_client h w lobby_id client_id m) =
        snd (deliver h w (ci_sender target) (ci_disconnect target) m')" ..
    then show ?thesis
      using deliver_only [of "ci_sender target" m' w h "ci_disconnect target"] Some
        \<open>hm_get (w_lobbies w) lobby_id = Some lobby\<close>
      by (auto simp: lobby_client_def intro: only_sends_mono)
  qed
qed (simp add: send_to_lobby_client_def Let_def)

lemma broadcast_only:
  "only_sends {(s, m') |s m'. s \<in> member_senders w lobby_id} w
     (broadcast_to_lobby h w lobby_id exclude_id m)"
proof (cases "hm_get (w_lobbies w) lobby_id")
  case (Some lobby)
  have "\<exists>out. broadcast_to_lobby h w lobby_id exclude_id m =
      deliver_all h w (map (\<lambda>(_, c). (ci_sender c, ci_disconnect c))
        (filter (\<lambda>(i, _). i \<noteq> exclude_id) (lb_clients lobby))) (Text out)"
    using Some by (auto simp: broadcast_to_lobby_def Let_def)
  then obtain out where "broadcast_to_lobby h w lobby_id exclude_id m =
      deliver_all h w (map (\<lambda>(_, c). (ci_sender c, ci_disconnect c))
        (filter (\<lambda>(i, _). i \<noteq> exclude_id) (lb_clients lobby))) (Text out)" ..
  moreover have "fst ` set (map (\<lambda>(_, c). (ci_sender c, ci_disconnect c))
      (filter (\<lambda>(i, _). i \<noteq> exclude_id) (lb_clients lobby))) \<subseteq> member_senders w lobby_id"
    by (force simp: member_senders_def Some)
  ultimately show ?thesis
    using only_sends_mono [OF deliver_all_only] by (simp only:) (rule only_sends_mono
      [OF deliver_all_only], blast)
qed (simp add: broadcast_to_lobby_def Let_def)

lemma rotation_only:
  "only_sends
     {(ci_sender c, Text (message_text (h_serde h) (ChatTokenRotated lobby_id token epoch))) |c lobby i.
        hm_get (w_lobbies w) lobby_id = Some lobby \<and> lb_chat_token lobby = token \<and>
        lb_chat_token_epoch lobby = epoch \<and> hm_get (lb_clients lobby) i = Some c \<and>
        (i, ci_sender c) \<in> set targets}
     w (send_chat_token_rotation h w targets lobby_id token epoch)"
proof (cases "hm_get (w_lobbies w) lobby_id")
  case (Some lobby)
  show ?thesis
  proof (cases "lb_chat_token_epoch lobby \<noteq> epoch \<or> lb_chat_token lobby \<noteq> token")
    case True
    with Some show ?thesis by (auto simp: send_chat_token_rotation_def)
  next
    case False
    with Some show ?thesis
      by (auto simp: send_chat_token_rotation_def map_filter_def Let_def split: option.splits if_splits
          intro!: only_sends_mono [OF deliver_all_only]; blast)
  qed
qed (simp add: send_chat_token_rotation_def)

section \<open>Stamped messages\<close>

lemma json_get_obj: "json_get (JObj fs) k = map_of fs k"
  by (simp add: json_get_def)

lemma json_sender_cong: "(\<And>k. json_get a k = json_get b k) \<Longrightarrow> json_sender a = json_sender b"
proof -
  assume "\<And>k. json_get a k = json_get b k"
  then have "json_get a = json_get b" by blast
  then show ?thesis by (simp only: json_sender_def)
qed

lemma json_as_str_Some: "json_as_str v = Some s \<longleftrightarrow> v = JStr s"
  by (cases v) (auto simp: json_as_str_def)

lemma json_sender_Some:
  "json_sender j = Some s \<longleftrightarrow> json_get j (str ''from'') = Some (JStr s) \<or>
     json_get j (str ''from'') = None \<and> json_get j (str ''clientId'') = Some (JStr s)"
  by (auto simp: json_sender_def json_as_str_Some Option.bind_eq_Some_conv split: option.splits)

lemma read_message:
  assumes "serde_law S" "json_unicode (message_json m)"
  obtains gs where "json_from_str S (message_text S m) = Some (JObj gs)"
    "json_shape 127 (JObj gs)" "json_unicode (JObj gs)"
    "\<And>k. json_get (JObj gs) k = map_option json_sort (json_get (message_json m) k)"
proof -
  obtain fs where fs: "message_json m = JObj fs"
    using message_json_object [of m] by (auto simp: json_object_def split: json.splits)
  obtain gs where gs: "json_sort (message_json m) = JObj gs" by (simp add: fs)
  have "json_from_str S (message_text S m) = Some (JObj gs)"
    using assms message_json_shape [of m] by (simp add: serde_law_def message_text_def flip: gs)
  moreover have "json_shape 127 (JObj gs)" "json_unicode (JObj gs)"
    using assms(2) message_json_shape [of m]
    by (simp_all add: json_shape_sort json_unicode_sort flip: gs)
  ultimately show thesis by (rule that) (simp add: json_get_sort flip: gs)
qed

lemma map_of_map_insert: "map_of (map_insert k v fs) k' = (if k' = k then Some v else map_of fs k')"
  using hm.get_ins [where 'a = rstr and 'b = json] by (simp add: map_insert_def map_of_sort hm_get_def)

lemma set_update: "set (AList.update k v fs) \<subseteq> insert (k, v) (set fs)"
  by (induction fs) auto

lemma map_insert_ok:
  "json_shape n v \<Longrightarrow> json_shape (Suc n) (JObj fs) \<Longrightarrow> json_shape (Suc n) (JObj (map_insert k v fs))"
  "unicode k \<Longrightarrow> json_unicode v \<Longrightarrow> json_unicode (JObj fs) \<Longrightarrow> json_unicode (JObj (map_insert k v fs))"
proof -
  have sub: "set (map_insert k v fs) \<subseteq> insert (k, v) (set fs)"
    using set_update [of k v fs] by (auto simp: map_insert_def hm_insert_def)
  have "distinct (map fst fs) \<Longrightarrow> distinct (map fst (map_insert k v fs))"
    using hm.wf_ins [where 'a = rstr and 'b = json] by (simp add: map_insert_def distinct_sort hm_wf_def)
  with sub show "json_shape n v \<Longrightarrow> json_shape (Suc n) (JObj fs) \<Longrightarrow>
      json_shape (Suc n) (JObj (map_insert k v fs))"
    by (auto simp: list_all_iff)
  from sub show "unicode k \<Longrightarrow> json_unicode v \<Longrightarrow> json_unicode (JObj fs) \<Longrightarrow>
      json_unicode (JObj (map_insert k v fs))"
    by (auto simp: list_all_iff)
qed

lemma stamp_fields_get:
  "map_of (stamp_fields fs s g) k =
     (if k = str ''sessionGeneration'' then Some (JNum (uint g))
      else if k \<in> {str ''from'', str ''clientId''} \<and> map_of fs k \<noteq> None then Some (JStr s)
      else map_of fs k)"
  by (auto simp: stamp_fields_def Let_def hm_contains_def hm_get_def map_of_map_insert)

lemma stamp_fields_ok:
  "json_shape (Suc n) (JObj fs) \<Longrightarrow> json_shape (Suc n) (JObj (stamp_fields fs s g))"
  "json_unicode (JObj fs) \<Longrightarrow> unicode s \<Longrightarrow> json_unicode (JObj (stamp_fields fs s g))"
proof -
  have gen: "json_shape n (JNum (uint g))" by (rule uint_json) simp
  have keys: "unicode (str ''from'')" "unicode (str ''clientId'')" "unicode (str ''sessionGeneration'')"
    by code_simp+
  note ok = map_insert_ok(1) [of n "JStr s"] map_insert_ok(1) [OF gen]
  show "json_shape (Suc n) (JObj fs) \<Longrightarrow> json_shape (Suc n) (JObj (stamp_fields fs s g))"
    by (simp add: stamp_fields_def Let_def ok del: json_shape.simps(3))
  show "json_unicode (JObj fs) \<Longrightarrow> unicode s \<Longrightarrow> json_unicode (JObj (stamp_fields fs s g))"
    by (simp add: stamp_fields_def Let_def map_insert_ok(2) keys del: json_unicode.simps(3))
qed

lemma json_sender_read:
  assumes "json_sender j = Some s" "\<And>k. json_get j' k = map_option json_sort (json_get j k)"
  shows "json_sender j' = Some s"
  using assms(1) by (auto simp: json_sender_Some assms(2))

lemma json_get_unicode: "json_get j k = Some v \<Longrightarrow> json_unicode j \<Longrightarrow> json_unicode v"
  by (cases j) (auto simp: json_get_def list_all_iff dest!: map_of_SomeD)

lemma json_sender_unicode:
  assumes "json_sender j = Some s" "json_unicode j"
  shows "unicode s"
proof -
  obtain k where "json_get j k = Some (JStr s)"
    using assms(1) by (auto simp: json_sender_Some)
  from json_get_unicode [OF this assms(2)] show ?thesis by simp
qed

lemma message_sender_id:
  assumes "serde_law S" "json_unicode (message_json m)" "claimed_sender m = Some s"
  shows "json_sender_id S (message_text S m) = Some s"
proof -
  obtain gs where "json_from_str S (message_text S m) = Some (JObj gs)"
    "\<And>k. json_get (JObj gs) k = map_option json_sort (json_get (message_json m) k)"
    using read_message [OF assms(1,2)] by metis
  then show ?thesis
    using json_sender_read [OF message_json_sender [OF assms(3)]] by (simp add: json_sender_id_def)
qed

lemma inject_read:
  assumes "serde_law S" "json_unicode (message_json m)" "claimed_sender m = Some s"
  obtains fs where
    "json_from_str S (inject_session_metadata S (message_text S m) s g) = Some (JObj fs)"
    "json_sender (JObj fs) = Some s"
    "json_get (JObj fs) (str ''sessionGeneration'') = Some (JNum (uint g))"
    "\<And>k. k \<notin> {str ''from'', str ''clientId'', str ''sessionGeneration''} \<Longrightarrow>
       json_get (JObj fs) k = map_option json_sort (json_get (message_json m) k)"
proof -
  note sender = message_json_sender [OF assms(3)]
  obtain gs where gs: "json_from_str S (message_text S m) = Some (JObj gs)"
    "json_shape 127 (JObj gs)" "json_unicode (JObj gs)"
    "\<And>k. json_get (JObj gs) k = map_option json_sort (json_get (message_json m) k)"
    using read_message [OF assms(1,2)] by metis
  have ok: "json_shape 127 (JObj (stamp_fields gs s g))" "json_unicode (JObj (stamp_fields gs s g))"
    using stamp_fields_ok(1) [of 126 gs s g] gs(2)
      stamp_fields_ok(2) [OF gs(3) json_sender_unicode [OF sender assms(2)]]
    by (simp_all del: json_shape.simps(3) json_unicode.simps(3))
  obtain fs where fs: "json_sort (JObj (stamp_fields gs s g)) = JObj fs" by simp
  have read: "json_from_str S (inject_session_metadata S (message_text S m) s g) = Some (JObj fs)"
    using assms(1) ok gs(1) unfolding serde_law_def inject_session_metadata_def fs [symmetric] by simp
  have get: "json_get (JObj fs) k = map_option json_sort (map_of (stamp_fields gs s g) k)" for k
    using json_get_sort [of "JObj (stamp_fields gs s g)" k] unfolding fs json_get_obj .
  have "json_sender (JObj gs) = Some s" by (rule json_sender_read [OF sender gs(4)])
  then have "json_sender (JObj fs) = Some s"
    by (auto simp: json_sender_Some get stamp_fields_get) (auto simp: json_get_obj)
  moreover have "json_get (JObj fs) k = map_option json_sort (json_get (message_json m) k)"
    if "k \<notin> {str ''from'', str ''clientId'', str ''sessionGeneration''}" for k
    using that gs(4) [of k] get [of k, unfolded json_get_obj]
    by (auto simp: json_get_obj stamp_fields_get option.map_comp o_def json_sort_idem)
  ultimately show thesis
    using read by (intro that) (auto simp: get stamp_fields_get)
qed

section \<open>A small concrete world\<close>

text \<open>
  Two members of one lobby and a third of another, for the concrete runs below and in the
  theories that follow. Every write completes.
\<close>

definition demo_crypto :: crypto where
  "demo_crypto = \<lparr>sha256 = (\<lambda>b. take 32 (b @ replicate 32 0)), base64_decode = (\<lambda>s. Some (as_bytes s)),
     key_from_der = Some, signature_from_der = Some, verify = (\<lambda>k m s. s = k)\<rparr>"

definition demo_host :: host where
  "demo_host = \<lparr>h_serde = prefix_serde, h_crypto = demo_crypto, h_net = (\<lambda>n. (0, 0, True))\<rparr>"

definition demo_client :: "string \<Rightarrow> nat \<Rightarrow> rstr \<Rightarrow> ClientInfo" where
  "demo_client name sender ip =
     \<lparr>ci_player_id = str name, ci_player_name = str name, ci_virtual_ip = Some ip,
      ci_virtual_domain = None, ci_use_domain = Some True, ci_chat_public_key = None,
      ci_session_generation = 7, ci_sender = sender, ci_disconnect = sender\<rparr>"

definition demo_lobby :: "string \<Rightarrow> string \<Rightarrow> (rstr, ClientInfo) hashmap \<Rightarrow> LobbyInfo" where
  "demo_lobby name host_id clients =
     \<lparr>lb_lobby_name = str name, lb_password_hash = str ''hash'', lb_password_salt = str ''salt'',
      lb_clients = clients, lb_host_id = str host_id, lb_max_players = None, lb_is_public = False,
      lb_is_passwordless = True, lb_description = [], lb_server_node = [], lb_muted = [],
      lb_chat_token = str ''t'', lb_chat_token_epoch = 1\<rparr>"

definition demo_a :: ClientInfo where
  "demo_a = demo_client ''a'' 1 (str ''10.126.126.1'')"

definition demo_b :: ClientInfo where
  "demo_b = demo_client ''b'' 2 (str ''10.126.126.2'')"

definition demo_l1 :: LobbyInfo where
  "demo_l1 = demo_lobby ''one'' ''a'' [(str ''a'', demo_a), (str ''b'', demo_b)]"

definition demo_l2 :: LobbyInfo where
  "demo_l2 = demo_lobby ''two'' ''c'' [(str ''c'', demo_client ''c'' 3 (str ''10.126.126.1''))]"

definition demo_world :: World where
  "demo_world =
     \<lparr>w_lobbies = [(str ''L1'', demo_l1), (str ''L2'', demo_l2)],
      w_client_lobby_map = [(str ''a'', str ''L1''), (str ''b'', str ''L1''), (str ''c'', str ''L2'')],
      w_failures = no_failures, w_budget = (\<lambda>_. ob_new 0), w_disconnect = (\<lambda>_. False),
      w_wire = [], w_sends = 0\<rparr>"

lemma demo_get [simp]:
  "hm_get (w_lobbies demo_world) (str ''L1'') = Some demo_l1"
  "hm_get (lb_clients demo_l1) (str ''a'') = Some demo_a"
  "hm_get (lb_clients demo_l1) (str ''b'') = Some demo_b"
  "ci_sender demo_a = 1" "ci_sender demo_b = 2" "ci_disconnect demo_b = 2"
  "h_serde demo_host = prefix_serde"
  by (simp_all add: demo_world_def demo_l1_def demo_lobby_def demo_a_def demo_b_def
      demo_client_def demo_host_def hm_get_def)

lemma demo_senders: "member_senders demo_world (str ''L1'') = {1, 2}"
  by (simp add: member_senders_def) (simp add: demo_l1_def demo_lobby_def)

lemma demo_wire: "w_wire demo_world = []"
  by (simp add: demo_world_def)

section \<open>Properties\<close>

text \<open>
  C22. A client message relayed to a member of the sender's lobby goes out as one frame to that
  member's socket, and what the text says when it is read names the authenticated sender and the
  generation of the sender's registered session; every other field has the value the client
  sent (the fields of nested objects come sorted by name, as \<open>serde_json\<close> reads them). The
  strings of the message are Rust strings.
\<close>

theorem relay_stamped:
  assumes "serde_law (h_serde h)" "json_unicode (message_json m)" "claimed_sender m = Some s"
    and "hm_get (w_lobbies w) lid = Some lobby"
    and "hm_get (lb_clients lobby) s = Some source" "hm_get (lb_clients lobby) dst = Some target"
  shows "\<exists>text fs.
    send_to_lobby_client h w lid dst (Text (message_text (h_serde h) m)) =
      deliver h w (ci_sender target) (ci_disconnect target) (Text text) \<and>
    json_from_str (h_serde h) text = Some (JObj fs) \<and> json_sender (JObj fs) = Some s \<and>
    json_get (JObj fs) (str ''sessionGeneration'') = Some (JNum (uint (ci_session_generation source))) \<and>
    (\<forall>k. k \<notin> {str ''from'', str ''clientId'', str ''sessionGeneration''} \<longrightarrow>
       json_get (JObj fs) k = map_option json_sort (json_get (message_json m) k))"
proof -
  obtain fs where fs:
    "json_from_str (h_serde h) (inject_session_metadata (h_serde h) (message_text (h_serde h) m) s
       (ci_session_generation source)) = Some (JObj fs)"
    "json_sender (JObj fs) = Some s"
    "json_get (JObj fs) (str ''sessionGeneration'') = Some (JNum (uint (ci_session_generation source)))"
    "\<And>k. k \<notin> {str ''from'', str ''clientId'', str ''sessionGeneration''} \<Longrightarrow>
       json_get (JObj fs) k = map_option json_sort (json_get (message_json m) k)"
    using inject_read [OF assms(1-3)] by metis
  have "send_to_lobby_client h w lid dst (Text (message_text (h_serde h) m)) =
      deliver h w (ci_sender target) (ci_disconnect target)
        (Text (inject_session_metadata (h_serde h) (message_text (h_serde h) m) s
          (ci_session_generation source)))"
    using assms(4-6) message_sender_id [OF assms(1-3)]
    by (simp add: send_to_lobby_client_def raw_text_def Let_def)
  with fs show ?thesis by blast
qed

text \<open>The witness relays an offer, whose payload is a nested object.\<close>

theorem relay_stamped_witness:
  "\<exists>text fs. send_to_lobby_client demo_host demo_world (str ''L1'') (str ''b'')
      (Text (message_text prefix_serde
        (Offer (str ''a'') (str ''b'') \<lparr>offer_type = str ''offer'', offer_sdp = str ''v''\<rparr> None))) =
    deliver demo_host demo_world 2 2 (Text text) \<and>
    json_from_str prefix_serde text = Some (JObj fs) \<and>
    json_get (JObj fs) (str ''offer'') =
      Some (JObj [(str ''sdp'', JStr (str ''v'')), (str ''type'', JStr (str ''offer''))])"
proof -
  let ?m = "Offer (str ''a'') (str ''b'') \<lparr>offer_type = str ''offer'', offer_sdp = str ''v''\<rparr> None"
  have "json_unicode (message_json ?m)" "claimed_sender ?m = Some (str ''a'')"
    "str ''offer'' \<notin> {str ''from'', str ''clientId'', str ''sessionGeneration''}"
    "map_option json_sort (json_get (message_json ?m) (str ''offer'')) =
      Some (JObj [(str ''sdp'', JStr (str ''v'')), (str ''type'', JStr (str ''offer''))])"
    by code_simp+
  then show ?thesis
    using relay_stamped [of demo_host ?m "str ''a''" demo_world
      "str ''L1''" demo_l1 demo_a "str ''b''" demo_b] prefix_serde_law
    by auto
qed

text \<open>
  C23. Lobbies are isolated: a broadcast to a lobby and a message to one of its members hand
  frames only to sockets of members of that lobby, and neither changes the registry.
\<close>

theorem lobby_isolation:
  assumes "s \<notin> member_senders w lobby_id"
    and "w' = broadcast_to_lobby h w lobby_id exclude_id m \<or>
      w' = snd (send_to_lobby_client h w lobby_id client_id frame)"
  shows "same_registry w w' \<and> (\<exists>log. w_wire w' = w_wire w @ log \<and> s \<notin> fst ` set log)"
proof -
  have "{(ci_sender c, m') |c m'. lobby_client w lobby_id client_id = Some c} \<subseteq>
      {(x, m') |x m'. x \<in> member_senders w lobby_id}"
    using lobby_client_sender by auto
  then have one: "only_sends {(x, m') |x m'. x \<in> member_senders w lobby_id} w
      (snd (send_to_lobby_client h w lobby_id client_id frame))"
    by (rule only_sends_mono [OF send_to_lobby_client_only])
  have "only_sends {(x, m') |x m'. x \<in> member_senders w lobby_id} w w'"
    using assms(2) broadcast_only [of w lobby_id h exclude_id m] one by (elim disjE) simp_all
  then obtain log where log: "same_registry w w'" "w_wire w' = w_wire w @ log"
    "frame_of ` set log \<subseteq> {(x, m') |x m'. x \<in> member_senders w lobby_id}"
    unfolding only_sends_def by blast
  then have "s \<notin> fst ` set log" using assms(1) by (force simp: frame_of_def)
  with log show ?thesis by blast
qed

theorem lobby_isolation_witness:
  "\<exists>log. w_wire (broadcast_to_lobby demo_host demo_world (str ''L1'') (str ''a'') Ping) = log \<and>
     3 \<notin> fst ` set log"
  using lobby_isolation [of 3 demo_world "str ''L1''"
      "broadcast_to_lobby demo_host demo_world (str ''L1'') (str ''a'') Ping" demo_host
      "str ''a''" Ping]
  by (simp add: demo_senders demo_wire)

text \<open>
  C24. A rotated chat credential is handed only to current members of its lobby, on the very
  socket the membership was recorded with, and only while it is still the lobby's credential: a
  superseded rotation sends nothing.
\<close>

theorem chat_token_confined:
  "\<exists>log. w_wire (send_chat_token_rotation h w targets lobby_id token epoch) = w_wire w @ log \<and>
     (\<forall>e \<in> set log. \<exists>lobby i c.
        hm_get (w_lobbies w) lobby_id = Some lobby \<and> lb_chat_token lobby = token \<and>
        lb_chat_token_epoch lobby = epoch \<and> hm_get (lb_clients lobby) i = Some c \<and>
        (i, ci_sender c) \<in> set targets \<and> fst e = ci_sender c)"
proof -
  obtain log where log: "w_wire (send_chat_token_rotation h w targets lobby_id token epoch) = w_wire w @ log"
    "frame_of ` set log \<subseteq>
      {(ci_sender c, Text (message_text (h_serde h) (ChatTokenRotated lobby_id token epoch))) |c lobby i.
        hm_get (w_lobbies w) lobby_id = Some lobby \<and> lb_chat_token lobby = token \<and>
        lb_chat_token_epoch lobby = epoch \<and> hm_get (lb_clients lobby) i = Some c \<and>
        (i, ci_sender c) \<in> set targets}"
    using rotation_only unfolding only_sends_def by blast
  have "\<exists>lobby i c. hm_get (w_lobbies w) lobby_id = Some lobby \<and> lb_chat_token lobby = token \<and>
      lb_chat_token_epoch lobby = epoch \<and> hm_get (lb_clients lobby) i = Some c \<and>
      (i, ci_sender c) \<in> set targets \<and> fst e = ci_sender c" if "e \<in> set log" for e
  proof -
    have "frame_of e \<in> {(ci_sender c,
        Text (message_text (h_serde h) (ChatTokenRotated lobby_id token epoch))) |c lobby i.
        hm_get (w_lobbies w) lobby_id = Some lobby \<and> lb_chat_token lobby = token \<and>
        lb_chat_token_epoch lobby = epoch \<and> hm_get (lb_clients lobby) i = Some c \<and>
        (i, ci_sender c) \<in> set targets}"
      using log(2) imageI [OF that, of frame_of] by (rule subsetD)
    then show ?thesis by (simp add: frame_of_def) blast
  qed
  with log(1) show ?thesis by blast
qed

theorem chat_token_confined_witness:
  "\<exists>log. w_wire (send_chat_token_rotation demo_host demo_world [(str ''b'', 2), (str ''a'', 9)]
       (str ''L1'') (str ''t'') 1) = log \<and>
     map fst log = [2] \<and>
     (\<forall>e \<in> set log. \<exists>i. (i, fst e) \<in> set [(str ''b'', 2), (str ''a'', 9)])"
proof -
  let ?w = "send_chat_token_rotation demo_host demo_world [(str ''b'', 2), (str ''a'', 9)]
       (str ''L1'') (str ''t'') 1"
  have "map fst (w_wire ?w) = [2]" by code_simp
  moreover obtain log where "w_wire ?w = w_wire demo_world @ log"
    "\<forall>e \<in> set log. \<exists>i. (i, fst e) \<in> set [(str ''b'', 2), (str ''a'', 9)]"
    using chat_token_confined [of demo_host demo_world "[(str ''b'', 2), (str ''a'', 9)]"
        "str ''L1''" "str ''t''" 1] by metis
  ultimately show ?thesis by (simp add: demo_world_def)
qed

end
