(* ===== verification/Registry.thy ===== *)
theory Registry
  imports Transport
begin

text \<open>
  What the registry of lobbies promises at every moment no lock is held, and how the three
  kinds of change keep it: a lobby is edited without changing who is in it, a member is removed,
  a member is added or replaced. The operations of registration, moderation and departure are
  instances of these, in the theories that follow.
\<close>

section \<open>Identity of a lobby\<close>

text \<open>\<open>generate_lobby_id\<close> of \<open>src/src/registration.rs\<close>: the digest of the name in hexadecimal.\<close>

definition generate_lobby_id :: "crypto \<Rightarrow> rstr \<Rightarrow> rstr" where
  "generate_lobby_id C lobby_name = hex_bytes (sha256 C (as_bytes lobby_name))"

section \<open>The invariant\<close>

text \<open>A member is filed under its own id, has a dotted virtual IP, and shares it with nobody.\<close>

definition clients_inv :: "(rstr, ClientInfo) hashmap \<Rightarrow> bool" where
  "clients_inv m \<longleftrightarrow>
     hm_wf m \<and>
     (\<forall>i c. hm_get m i = Some c \<longrightarrow>
        ci_player_id c = i \<and> (\<exists>ip. ci_virtual_ip c = Some (show_ipv4 ip))) \<and>
     (\<forall>i c j d. hm_get m i = Some c \<and> hm_get m j = Some d \<and> i \<noteq> j \<longrightarrow>
        ci_virtual_ip c \<noteq> ci_virtual_ip d)"

text \<open>The password a lobby was created with, seen through its salted hash.\<close>

definition password_inv :: "crypto \<Rightarrow> LobbyInfo \<Rightarrow> bool" where
  "password_inv C l \<longleftrightarrow>
     (\<exists>pw. lb_password_hash l = hash_lobby_password C (lb_password_salt l) pw \<and>
        (lb_is_passwordless l \<longleftrightarrow> pw = []))"

definition lobby_inv :: "crypto \<Rightarrow> rstr \<Rightarrow> LobbyInfo \<Rightarrow> bool" where
  "lobby_inv C lid l \<longleftrightarrow>
     lid = generate_lobby_id C (lb_lobby_name l) \<and>
     clients_inv (lb_clients l) \<and> 0 < hm_len (lb_clients l) \<and>
     hm_len (lb_clients l) \<le> MAX_LOBBY_MEMBERS \<and>
     hm_contains (lb_clients l) (lb_host_id l) \<and>
     distinct (lb_muted l) \<and>
     (\<forall>i. i \<in> set (lb_muted l) \<longrightarrow> hm_contains (lb_clients l) i) \<and>
     lb_host_id l \<notin> set (lb_muted l) \<and>
     (lb_is_public l \<longrightarrow> lb_is_passwordless l) \<and>
     (\<forall>n. lb_max_players l = Some n \<longrightarrow> 1 \<le> unat n \<and> unat n \<le> MAX_LOBBY_MEMBERS) \<and>
     1 \<le> unat (lb_chat_token_epoch l) \<and> password_inv C l"

text \<open>The reverse map says exactly who is where.\<close>

definition registry_inv :: "crypto \<Rightarrow> World \<Rightarrow> bool" where
  "registry_inv C w \<longleftrightarrow>
     hm_wf (w_lobbies w) \<and> hm_wf (w_client_lobby_map w) \<and>
     (\<forall>lid l. hm_get (w_lobbies w) lid = Some l \<longrightarrow> lobby_inv C lid l) \<and>
     (\<forall>cid lid. hm_get (w_client_lobby_map w) cid = Some lid \<longleftrightarrow> lobby_client w lid cid \<noteq> None)"

lemma registry_inv_same: "same_registry w w' \<Longrightarrow> registry_inv C w' = registry_inv C w"
  by (simp add: registry_inv_def same_registry_def lobby_client_def)

lemma registry_lobby: "registry_inv C w \<Longrightarrow> hm_get (w_lobbies w) lid = Some l \<Longrightarrow> lobby_inv C lid l"
  by (simp add: registry_inv_def)

lemma registry_wf:
  "registry_inv C w \<Longrightarrow> hm_wf (w_lobbies w)" "registry_inv C w \<Longrightarrow> hm_wf (w_client_lobby_map w)"
  by (simp_all add: registry_inv_def)

lemma lobby_client_Some:
  "hm_get (w_lobbies w) lid = Some l \<Longrightarrow> lobby_client w lid cid = hm_get (lb_clients l) cid"
  by (simp add: lobby_client_def)

text \<open>A client id is a member of at most one lobby.\<close>

lemma registry_unique:
  "registry_inv C w \<Longrightarrow> lobby_client w lid cid \<noteq> None \<Longrightarrow> lobby_client w lid' cid \<noteq> None \<Longrightarrow>
   lid' = lid"
  unfolding registry_inv_def by (metis option.inject)

section \<open>Edits that keep the members\<close>

definition put_lobby :: "rstr \<Rightarrow> LobbyInfo \<Rightarrow> World \<Rightarrow> World" where
  "put_lobby lid l w = w\<lparr>w_lobbies := hm_insert lid l (w_lobbies w)\<rparr>"

lemma put_lobby_simps [simp]:
  "w_lobbies (put_lobby lid l w) = hm_insert lid l (w_lobbies w)"
  "w_client_lobby_map (put_lobby lid l w) = w_client_lobby_map w"
  "w_failures (put_lobby lid l w) = w_failures w"
  "w_wire (put_lobby lid l w) = w_wire w"
  "w_disconnect (put_lobby lid l w) = w_disconnect w"
  "w_sends (put_lobby lid l w) = w_sends w" "w_budget (put_lobby lid l w) = w_budget w"
  by (simp_all add: put_lobby_def)

lemma lobby_client_put:
  "lobby_client (put_lobby lid l w) lid' cid =
     (if lid' = lid then hm_get (lb_clients l) cid else lobby_client w lid' cid)"
  by (simp add: lobby_client_def hm.get_ins)

lemma registry_inv_edit:
  assumes "registry_inv C w" "hm_get (w_lobbies w) lid = Some l" "lobby_inv C lid l'"
    and "\<And>i. hm_contains (lb_clients l') i = hm_contains (lb_clients l) i"
  shows "registry_inv C (put_lobby lid l' w)"
  using assms unfolding registry_inv_def
  by (auto simp: hm_simps lobby_client_put lobby_client_Some hm_contains_def)

section \<open>Removing a member\<close>

definition drop_mapping :: "rstr \<Rightarrow> rstr \<Rightarrow> World \<Rightarrow> World" where
  "drop_mapping cid lid w =
     (if hm_get (w_client_lobby_map w) cid = Some lid
      then w\<lparr>w_client_lobby_map := hm_remove cid (w_client_lobby_map w)\<rparr> else w)"

lemma drop_mapping_simps [simp]:
  "w_lobbies (drop_mapping cid lid w) = w_lobbies w"
  "w_failures (drop_mapping cid lid w) = w_failures w"
  "w_wire (drop_mapping cid lid w) = w_wire w"
  "w_disconnect (drop_mapping cid lid w) = w_disconnect w"
  "w_sends (drop_mapping cid lid w) = w_sends w" "w_budget (drop_mapping cid lid w) = w_budget w"
  "lobby_client (drop_mapping cid lid w) = lobby_client w"
  by (auto simp: drop_mapping_def lobby_client_def fun_eq_iff)

lemma clients_inv_remove: "clients_inv m \<Longrightarrow> clients_inv (hm_remove i m)"
  unfolding clients_inv_def by (auto simp: hm_simps split: if_splits)

lemma lobby_inv_remove:
  assumes "lobby_inv C lid l" "hm_contains (lb_clients l) cid"
    and l': "lb_clients l' = hm_remove cid (lb_clients l)" "lb_lobby_name l' = lb_lobby_name l"
      "lb_is_public l' = lb_is_public l" "lb_is_passwordless l' = lb_is_passwordless l"
      "lb_max_players l' = lb_max_players l" "lb_password_hash l' = lb_password_hash l"
      "lb_password_salt l' = lb_password_salt l"
    and epoch: "1 \<le> unat (lb_chat_token_epoch l')"
    and host: "hm_contains (lb_clients l') (lb_host_id l')" "lb_host_id l' \<notin> set (lb_muted l')"
    and muted: "set (lb_muted l') \<subseteq> set (lb_muted l) - {cid}" "distinct (lb_muted l')"
  shows "lobby_inv C lid l'"
proof -
  obtain c where c: "hm_get (lb_clients l) cid = Some c"
    using assms(2) by (auto simp: hm_contains_def)
  have wf: "hm_wf (lb_clients l)" and cl: "clients_inv (lb_clients l)"
    using assms(1) by (auto simp: lobby_inv_def clients_inv_def)
  have "0 < hm_len (lb_clients l')"
    using host(1) hm.len_pos by (auto simp: hm_contains_def)
  moreover have "hm_len (lb_clients l') \<le> hm_len (lb_clients l)"
    by (simp add: l' hm.len_del_le [OF wf])
  moreover have "hm_contains (lb_clients l') i" if "i \<in> set (lb_muted l')" for i
    using assms(1) muted(1) that by (auto simp: l' hm_contains_def hm.get_del lobby_inv_def)
  ultimately show ?thesis
    using assms clients_inv_remove [OF cl, of cid]
    by (auto simp: lobby_inv_def password_inv_def)
qed

lemma registry_inv_remove:
  assumes "registry_inv C w" "hm_get (w_lobbies w) lid = Some l"
    and "hm_contains (lb_clients l) cid" "lobby_inv C lid l'"
    and "lb_clients l' = hm_remove cid (lb_clients l)"
  shows "registry_inv C (drop_mapping cid lid (put_lobby lid l' w))"
proof -
  have map: "hm_get (w_client_lobby_map w) cid = Some lid"
    using assms(1-3) by (auto simp: registry_inv_def lobby_client_Some hm_contains_def)
  have key: "hm_get (w_client_lobby_map w) i = Some j \<longleftrightarrow> lobby_client w j i \<noteq> None" for i j
    using assms(1) by (simp add: registry_inv_def)
  have "hm_get (hm_remove cid (w_client_lobby_map w)) i = Some j \<longleftrightarrow>
      lobby_client (put_lobby lid l' w) j i \<noteq> None" for i j
    using key [of i j] map assms(2)
    by (auto simp: hm.get_del lobby_client_put assms(5) lobby_client_Some
        dest: registry_unique [OF assms(1), of lid cid j])
  then show ?thesis
    using assms(1,4) map unfolding registry_inv_def
    by (auto simp: drop_mapping_def hm_simps lobby_client_def split: if_splits)
qed

text \<open>The last member leaves and takes the lobby along.\<close>

lemma registry_inv_close:
  assumes "registry_inv C w" "hm_get (w_lobbies w) lid = Some l"
    and "hm_contains (lb_clients l) cid" "hm_len (hm_remove cid (lb_clients l)) = 0"
  shows "registry_inv C
    (drop_mapping cid lid (w\<lparr>w_lobbies := hm_remove lid (w_lobbies w)\<rparr>))"
proof -
  have key: "hm_get (w_client_lobby_map w) i = Some j \<longleftrightarrow> lobby_client w j i \<noteq> None" for i j
    using assms(1) by (simp add: registry_inv_def)
  have map: "hm_get (w_client_lobby_map w) cid = Some lid"
    using key assms(2,3) by (auto simp: lobby_client_Some hm_contains_def)
  have only: "hm_get (lb_clients l) i = None" if "i \<noteq> cid" for i
    using assms(4) that by (metis hm.get_del hm_get_empty hm_len_zero_iff)
  have "hm_get (hm_remove cid (w_client_lobby_map w)) i = Some j \<longleftrightarrow>
      lobby_client (w\<lparr>w_lobbies := hm_remove lid (w_lobbies w)\<rparr>) j i \<noteq> None" for i j
    using key [of i j] map assms(2) only [of i] registry_unique [OF assms(1), of lid cid j]
    by (auto simp: hm.get_del lobby_client_def)
  then show ?thesis
    using assms(1) map unfolding registry_inv_def
    by (auto simp: drop_mapping_def hm_simps lobby_client_def split: if_splits)
qed

section \<open>Adding or replacing a member\<close>

lemma clients_inv_insert:
  assumes "clients_inv m" "ci_player_id c = i" "ci_virtual_ip c = Some (show_ipv4 ip)"
    and "\<And>j d. hm_get m j = Some d \<Longrightarrow> j \<noteq> i \<Longrightarrow> ci_virtual_ip d \<noteq> Some (show_ipv4 ip)"
  shows "clients_inv (hm_insert i c m)"
proof -
  have "ci_virtual_ip c \<noteq> ci_virtual_ip d" if "hm_get m j = Some d" "j \<noteq> i" for j d
    using assms(3,4) that by metis
  then show ?thesis
    using assms(1-3) unfolding clients_inv_def
    by (auto simp: hm.get_ins hm.wf_ins split: if_splits) metis+
qed

lemma registry_inv_add:
  assumes "registry_inv C w" "lobby_inv C lid l'" "hm_contains (lb_clients l') cid"
    and "\<And>i. i \<noteq> cid \<Longrightarrow> hm_get (lb_clients l') i = lobby_client w lid i"
    and "\<And>j. lobby_client w j cid \<noteq> None \<Longrightarrow> j = lid"
  shows "registry_inv C ((put_lobby lid l' w)
    \<lparr>w_client_lobby_map := hm_insert cid lid (w_client_lobby_map w)\<rparr>)"
proof -
  have key: "hm_get (w_client_lobby_map w) i = Some j \<longleftrightarrow> lobby_client w j i \<noteq> None" for i j
    using assms(1) by (simp add: registry_inv_def)
  have "hm_get (hm_insert cid lid (w_client_lobby_map w)) i = Some j \<longleftrightarrow>
      lobby_client (put_lobby lid l' w) j i \<noteq> None" for i j
    using key [of i j] assms(3,4,5) by (auto simp: hm.get_ins lobby_client_put hm_contains_def)
  then show ?thesis
    using assms(1,2) unfolding registry_inv_def
    by (auto simp: hm_simps lobby_client_def split: if_splits)
qed

end
