(* ===== verification/Connection_Guard.thy ===== *)
theory Connection_Guard
  imports Ip_Addr
begin

text \<open>
  Connection admission, \<open>src/src/connection_guard.rs\<close>: the two lease pools (pending
  handshakes and established connections), the accounting of leases per quota source, and the
  resolution of the client address behind trusted proxies.

  A pool is the value behind its mutex; every operation of \<open>Pool\<close> and \<open>Lease\<close> runs under
  that mutex and is one step. The \<open>usize\<close> counters are natural numbers; a decrement below
  zero, which panics in Rust, is the result \<open>None\<close>.
\<close>

section \<open>Sources\<close>

definition canonical :: "ip_addr \<Rightarrow> ip_addr" where
  "canonical ip =
     (case ip of
        V6 a \<Rightarrow> (case to_ipv4_mapped a of Some b \<Rightarrow> V4 b | None \<Rightarrow> V6 a)
      | V4 a \<Rightarrow> V4 a)"

definition quota_source :: "ip_addr \<Rightarrow> ip_addr" where
  "quota_source ip =
     (case canonical ip of V6 a \<Rightarrow> V6 (a AND push_bit 64 (- 1)) | V4 a \<Rightarrow> V4 a)"

section \<open>Pools and leases\<close>

text \<open>The error texts of the module, one constructor each.\<close>

datatype guard_error =
    ConnectionCapacityReached
  | SourceConnectionCapacityReached
  | AmbiguousForwardedAddress
  | InvalidForwardedAddress
  | ForwardedChainTooLong
  | NoClientAddress
  | InvalidRealAddress
  | ConflictingForwardedAddress
  | TrustedProxyMustSendClientAddress

record Pool =
  pool_limit :: nat
  pool_source_limit :: "nat option"
  pool_total :: nat
  pool_counts :: "(ip_addr, nat) hashmap"

record Lease =
  lease_source :: "ip_addr option"

definition source_count :: "(ip_addr, nat) hashmap \<Rightarrow> ip_addr \<Rightarrow> nat" where
  "source_count m ip = (case hm_get m ip of None \<Rightarrow> 0 | Some n \<Rightarrow> n)"

definition bump_source :: "ip_addr \<Rightarrow> (ip_addr, nat) hashmap \<Rightarrow> (ip_addr, nat) hashmap" where
  "bump_source ip m = hm_insert ip (source_count m ip + 1) m"

text \<open>The decrement shared by \<open>Drop\<close> and \<open>resolve_source\<close>.\<close>

definition release_source ::
  "ip_addr \<Rightarrow> (ip_addr, nat) hashmap \<Rightarrow> (ip_addr, nat) hashmap option" where
  "release_source ip m =
     (case hm_get m ip of
        None \<Rightarrow> Some m
      | Some n \<Rightarrow>
          if n = 0 then None
          else if n - 1 = 0 then Some (hm_remove ip m) else Some (hm_insert ip (n - 1) m))"

definition acquire :: "Pool \<Rightarrow> ip_addr option \<Rightarrow> guard_error + (Lease \<times> Pool)" where
  "acquire p source =
     (if pool_limit p \<le> pool_total p then Inl ConnectionCapacityReached
      else case (source, pool_source_limit p) of
        (Some ip, Some limit) \<Rightarrow>
          if limit \<le> source_count (pool_counts p) ip then Inl SourceConnectionCapacityReached
          else Inr (\<lparr>lease_source = Some ip\<rparr>,
                    p\<lparr>pool_counts := bump_source ip (pool_counts p),
                      pool_total := pool_total p + 1\<rparr>)
      | _ \<Rightarrow> Inr (\<lparr>lease_source = None\<rparr>, p\<lparr>pool_total := pool_total p + 1\<rparr>))"

definition lease_drop :: "Pool \<Rightarrow> Lease \<Rightarrow> Pool option" where
  "lease_drop p l =
     (if pool_total p = 0 then None
      else let p1 = p\<lparr>pool_total := pool_total p - 1\<rparr>
           in case lease_source l of
                None \<Rightarrow> Some p1
              | Some ip \<Rightarrow>
                  map_option (\<lambda>m. p1\<lparr>pool_counts := m\<rparr>) (release_source ip (pool_counts p1)))"

text \<open>\<open>None\<close> is the panic of the decrement; \<open>Inl\<close> leaves pool and lease as they were.\<close>

definition resolve_source ::
  "Pool \<Rightarrow> Lease \<Rightarrow> ip_addr \<Rightarrow> (guard_error + (Lease \<times> Pool)) option" where
  "resolve_source p l source0 =
     (let source = quota_source source0
      in if lease_source l = Some source then Some (Inr (l, p))
         else case pool_source_limit p of
           None \<Rightarrow> Some (Inl SourceConnectionCapacityReached)
         | Some limit \<Rightarrow>
             if limit \<le> source_count (pool_counts p) source
             then Some (Inl SourceConnectionCapacityReached)
             else let m = bump_source source (pool_counts p)
                  in map_option
                       (\<lambda>m'. Inr (l\<lparr>lease_source := Some source\<rparr>, p\<lparr>pool_counts := m'\<rparr>))
                       (case lease_source l of
                          None \<Rightarrow> Some m
                        | Some previous \<Rightarrow> release_source previous m))"

section \<open>Admission\<close>

record Admission =
  trusted_proxies :: "ip_addr list"
  pending_pool :: Pool
  active_pool :: Pool

definition DEFAULT_PENDING_SOURCE_LIMIT :: nat where
  "DEFAULT_PENDING_SOURCE_LIMIT = 16"

definition clamp :: "nat \<Rightarrow> nat \<Rightarrow> nat \<Rightarrow> nat" where
  "clamp lo hi x = (if x < lo then lo else if hi < x then hi else x)"

definition new_pool :: "nat \<Rightarrow> nat option \<Rightarrow> Pool" where
  "new_pool limit source_limit =
     \<lparr>pool_limit = limit, pool_source_limit = source_limit, pool_total = 0, pool_counts = []\<rparr>"

text \<open>\<open>collect::<Result<_, _>>\<close>: the values, or nothing at the first failure.\<close>

fun collect_all :: "'a option list \<Rightarrow> 'a list option" where
  "collect_all [] = Some []"
| "collect_all (None # xs) = None"
| "collect_all (Some x # xs) = map_option (Cons x) (collect_all xs)"

text \<open>\<open>None\<close> is the configuration error for an address that does not parse.\<close>

definition admission_new :: "nat \<Rightarrow> nat option \<Rightarrow> rstr \<Rightarrow> Admission option" where
  "admission_new mx per_source proxies =
     map_option
       (\<lambda>tp. \<lparr>trusted_proxies = remdups tp,
              pending_pool =
                new_pool (clamp 1 128 mx)
                  (Some (clamp 1 DEFAULT_PENDING_SOURCE_LIMIT
                     (case per_source of None \<Rightarrow> DEFAULT_PENDING_SOURCE_LIMIT | Some n \<Rightarrow> n))),
              active_pool =
                new_pool (max mx 1)
                  (map_option (\<lambda>limit. min (max limit 1) (max (mx - 1) 1)) per_source)\<rparr>)
       (collect_all
          (map (\<lambda>s. map_option canonical (parse_ip (trim s)))
            (filter (\<lambda>s. trim s \<noteq> []) (split_char 44 proxies))))"

definition admission_source_limit :: "Admission \<Rightarrow> nat option" where
  "admission_source_limit a = pool_source_limit (active_pool a)"

definition admission_pending ::
  "Admission \<Rightarrow> ip_addr \<Rightarrow> guard_error + (Lease \<times> Admission)" where
  "admission_pending a peer0 =
     (let peer = canonical peer0
      in case acquire (pending_pool a)
                (if peer \<in> set (trusted_proxies a) then None else Some (quota_source peer)) of
           Inl e \<Rightarrow> Inl e
         | Inr (l, p) \<Rightarrow> Inr (l, a\<lparr>pending_pool := p\<rparr>))"

definition admission_active ::
  "Admission \<Rightarrow> ip_addr \<Rightarrow> guard_error + (Lease \<times> Admission)" where
  "admission_active a source =
     (case acquire (active_pool a) (Some (quota_source source)) of
        Inl e \<Rightarrow> Inl e
      | Inr (l, p) \<Rightarrow> Inr (l, a\<lparr>active_pool := p\<rparr>))"

subsection \<open>The client behind a trusted proxy\<close>

text \<open>
  A header map gives, for a header name, its values in order; a value is what
  \<open>HeaderValue::to_str\<close> returns for it (\<open>None\<close> when it is not visible ASCII).
\<close>

type_synonym header_map = "rstr \<Rightarrow> rstr option list"

definition forwarded_chain :: "rstr \<Rightarrow> ip_addr list option" where
  "forwarded_chain v =
     collect_all (map (\<lambda>s. map_option canonical (parse_ip (trim s))) (split_char 44 v))"

definition real_ip :: "rstr option \<Rightarrow> ip_addr option" where
  "real_ip v = map_option canonical (Option.bind v parse_ip)"

definition check_real_ip ::
  "Admission \<Rightarrow> rstr option list \<Rightarrow> ip_addr \<Rightarrow> guard_error + ip_addr" where
  "check_real_ip a reals client =
     (case reals of
        [] \<Rightarrow> Inr client
      | [v] \<Rightarrow>
          (case real_ip v of
             None \<Rightarrow> Inl InvalidRealAddress
           | Some real \<Rightarrow>
               if real \<notin> set (trusted_proxies a) \<and> real \<noteq> client
               then Inl ConflictingForwardedAddress else Inr client)
      | _ \<Rightarrow> Inl AmbiguousForwardedAddress)"

definition admission_source ::
  "Admission \<Rightarrow> ip_addr \<Rightarrow> header_map \<Rightarrow> guard_error + ip_addr" where
  "admission_source a peer0 headers =
     (let peer = canonical peer0;
          xff = headers (str ''x-forwarded-for'');
          xri = headers (str ''x-real-ip'')
      in if peer \<notin> set (trusted_proxies a) then Inr peer
         else if xff \<noteq> [] then
           (if length xff \<noteq> 1 then Inl AmbiguousForwardedAddress
            else case hd xff of
              None \<Rightarrow> Inl InvalidForwardedAddress
            | Some value \<Rightarrow>
                if 1024 < str_len value then Inl ForwardedChainTooLong
                else case forwarded_chain value of
                  None \<Rightarrow> Inl InvalidForwardedAddress
                | Some chain \<Rightarrow>
                    if 16 < length chain then Inl ForwardedChainTooLong
                    else case find (\<lambda>ip. ip \<notin> set (trusted_proxies a)) (rev chain) of
                      None \<Rightarrow> Inl NoClientAddress
                    | Some client \<Rightarrow> check_real_ip a xri client)
         else if length xri \<noteq> 1 then Inl TrustedProxyMustSendClientAddress
         else case real_ip (hd xri) of
           None \<Rightarrow> Inl InvalidRealAddress
         | Some ip \<Rightarrow> if ip \<in> set (trusted_proxies a) then Inl InvalidRealAddress else Inr ip)"

section \<open>Lease accounting\<close>

definition held_count :: "Lease list \<Rightarrow> ip_addr \<Rightarrow> nat" where
  "held_count held ip = length (filter (\<lambda>l. lease_source l = Some ip) held)"

text \<open>
  What a pool records about the leases that are alive: their number, and per source the
  number of leases charged to it, with no entry for a source that has none.
\<close>

definition pool_inv :: "Pool \<Rightarrow> Lease list \<Rightarrow> bool" where
  "pool_inv p held \<longleftrightarrow>
     hm_wf (pool_counts p) \<and> pool_total p = length held \<and> length held \<le> pool_limit p \<and>
     (\<forall>ip. hm_get (pool_counts p) ip =
        (if held_count held ip = 0 then None else Some (held_count held ip))) \<and>
     (\<forall>k. pool_source_limit p = Some k \<longrightarrow> (\<forall>ip. held_count held ip \<le> k))"

text \<open>
  One step of a pool together with the leases its clients hold: a successful acquisition, a
  reclassification of one lease, or the drop of one lease. Refused operations change nothing.
\<close>

inductive pool_step :: "Pool \<times> Lease list \<Rightarrow> Pool \<times> Lease list \<Rightarrow> bool" where
  acquired: "acquire p src = Inr (l, p') \<Longrightarrow> pool_step (p, held) (p', l # held)"
| resolved: "l \<in> set held \<Longrightarrow> resolve_source p l src = Some (Inr (l', p')) \<Longrightarrow>
    pool_step (p, held) (p', l' # remove1 l held)"
| dropped: "l \<in> set held \<Longrightarrow> lease_drop p l = Some p' \<Longrightarrow>
    pool_step (p, held) (p', remove1 l held)"

lemma held_count_Cons [simp]:
  "held_count (l # held) ip = (if lease_source l = Some ip then 1 else 0) + held_count held ip"
  by (simp add: held_count_def)

lemma held_count_Nil [simp]: "held_count [] ip = 0"
  by (simp add: held_count_def)

lemma held_count_remove1:
  "l \<in> set held \<Longrightarrow>
   held_count held ip = (if lease_source l = Some ip then 1 else 0) + held_count (remove1 l held) ip"
  by (induction held) auto

lemma held_count_pos: "l \<in> set held \<Longrightarrow> lease_source l = Some ip \<Longrightarrow> 0 < held_count held ip"
  by (simp add: held_count_remove1 [of l])

lemma source_count_inv: "pool_inv p held \<Longrightarrow> source_count (pool_counts p) ip = held_count held ip"
  by (simp add: pool_inv_def source_count_def)

lemma hm_get_bump [hm_simps]:
  "hm_get (bump_source ip m) ip' =
     (if ip' = ip then Some (source_count m ip + 1) else hm_get m ip')"
  by (simp add: bump_source_def hm.get_ins)

lemma hm_wf_bump [hm_simps]: "hm_wf m \<Longrightarrow> hm_wf (bump_source ip m)"
  by (simp add: bump_source_def hm.wf_ins)

lemma release_source_Some:
  assumes "hm_get m ip = Some n" "0 < n"
  shows "\<exists>m'. release_source ip m = Some m' \<and> (hm_wf m \<longrightarrow> hm_wf m') \<and>
    (\<forall>ip'. hm_get m' ip' =
       (if ip' = ip then (if n = 1 then None else Some (n - 1)) else hm_get m ip'))"
  using assms by (auto simp: release_source_def hm.get_ins hm.get_del hm.wf_ins hm.wf_del)

lemma acquire_inv:
  assumes "pool_inv p held" "acquire p src = Inr (l, p')"
  shows "pool_inv p' (l # held)"
proof -
  have lim: "pool_total p < pool_limit p"
    using assms(2) by (auto simp: acquire_def split: if_splits)
  show ?thesis
  proof (cases "\<exists>ip k. src = Some ip \<and> pool_source_limit p = Some k")
    case True
    then obtain ip k where s: "src = Some ip" "pool_source_limit p = Some k" by blast
    with assms(2) lim have "source_count (pool_counts p) ip < k"
      and "l = \<lparr>lease_source = Some ip\<rparr>"
      and "p' = p\<lparr>pool_counts := bump_source ip (pool_counts p), pool_total := pool_total p + 1\<rparr>"
      by (auto simp: acquire_def split: if_splits)
    then show ?thesis
      using assms(1) lim s source_count_inv [OF assms(1), of ip]
      by (auto simp: pool_inv_def hm_simps)
  next
    case False
    with assms(2) lim have "l = \<lparr>lease_source = None\<rparr>" "p' = p\<lparr>pool_total := pool_total p + 1\<rparr>"
      by (auto simp: acquire_def split: option.splits)
    then show ?thesis using assms(1) lim by (auto simp: pool_inv_def)
  qed
qed

lemma drop_total:
  assumes "pool_inv p held" "l \<in> set held"
  shows "\<exists>p'. lease_drop p l = Some p' \<and> pool_inv p' (remove1 l held)"
proof -
  have ne: "0 < length held" using assms(2) by (cases held) auto
  note cnt = held_count_remove1 [OF assms(2)]
  note len = length_remove1 [of l held]
  show ?thesis
  proof (cases "lease_source l")
    case None
    then have cnt': "held_count held ip = held_count (remove1 l held) ip" for ip
      using cnt [of ip] by simp
    show ?thesis
      using None assms ne len by (auto simp: lease_drop_def pool_inv_def simp flip: cnt')
  next
    case (Some ip)
    have "hm_get (pool_counts p) ip = Some (held_count held ip)"
      and "0 < held_count held ip"
      using assms(1) held_count_pos [OF assms(2) Some] by (auto simp: pool_inv_def)
    from release_source_Some [OF this] obtain m' where
      rel: "release_source ip (pool_counts p) = Some m'"
      and wf: "hm_wf (pool_counts p) \<longrightarrow> hm_wf m'"
      and get: "\<And>ip'. hm_get m' ip' =
        (if ip' = ip then (if held_count held ip = 1 then None else Some (held_count held ip - 1))
         else hm_get (pool_counts p) ip')"
      by blast
    have cnt': "held_count (remove1 l held) ip' =
        held_count held ip' - (if ip' = ip then 1 else 0)" for ip'
      using cnt [of ip'] Some by auto
    have le: "held_count (remove1 l held) ip' \<le> held_count held ip'" for ip'
      by (simp add: cnt')
    have "lease_drop p l = Some (p\<lparr>pool_total := pool_total p - 1, pool_counts := m'\<rparr>)"
      using Some assms(1) ne rel by (auto simp: lease_drop_def pool_inv_def)
    moreover have "pool_inv (p\<lparr>pool_total := pool_total p - 1, pool_counts := m'\<rparr>)
        (remove1 l held)"
      using assms wf len le_trans [OF le] held_count_pos [OF assms(2) Some]
      by (auto simp: pool_inv_def get cnt')
    ultimately show ?thesis by blast
  qed
qed

lemma pool_inv_front:
  assumes "pool_inv p held" "l \<in> set held"
  shows "pool_inv p (l # remove1 l held)"
proof -
  have "held_count (l # remove1 l held) ip = held_count held ip" for ip
    using held_count_remove1 [OF assms(2), of ip] by simp
  moreover have "length (l # remove1 l held) = length held"
    using length_Suc_remove1 [OF assms(2)] by simp
  ultimately show ?thesis using assms(1) unfolding pool_inv_def by metis
qed

text \<open>
  Reclassifying a lease is, for the accounting, an acquisition for the new source followed by
  the release of the old one; the pool keeps its total.
\<close>

lemma recharge_counts:
  assumes "pool_inv p held" "l \<in> set held" "lease_source l \<noteq> Some q"
  defines "m \<equiv> bump_source q (pool_counts p)"
  obtains m' where "(case lease_source l of None \<Rightarrow> Some m
      | Some previous \<Rightarrow> release_source previous m) = Some m'" "hm_wf m'"
    "\<And>ip. hm_get m' ip = (let c = held_count (l\<lparr>lease_source := Some q\<rparr> # remove1 l held) ip
        in if c = 0 then None else Some c)"
proof -
  note cnt = held_count_remove1 [OF assms(2)]
  have getm: "hm_get m ip = (if ip = q then Some (held_count held q + 1)
      else if held_count held ip = 0 then None else Some (held_count held ip))" for ip
    using assms(1) source_count_inv [OF assms(1)] by (auto simp: m_def hm_simps pool_inv_def)
  have wfm: "hm_wf m" using assms(1) by (simp add: m_def hm_simps pool_inv_def)
  show ?thesis
  proof (cases "lease_source l")
    case None
    then show ?thesis
      using that [of m] wfm getm cnt by auto
  next
    case (Some prev)
    then have "prev \<noteq> q" using assms(3) by auto
    moreover have "0 < held_count held prev" by (rule held_count_pos [OF assms(2) Some])
    ultimately have "hm_get m prev = Some (held_count held prev)" "0 < held_count held prev"
      using getm by auto
    from release_source_Some [OF this] show ?thesis
      using that Some wfm getm cnt \<open>prev \<noteq> q\<close> by fastforce
  qed
qed

lemma resolve_total:
  assumes "pool_inv p held" "l \<in> set held"
  shows "\<exists>r. resolve_source p l src = Some r \<and>
    (\<forall>l' p'. r = Inr (l', p') \<longrightarrow> pool_inv p' (l' # remove1 l held))"
proof (cases "lease_source l = Some (quota_source src) \<or> pool_source_limit p = None \<or>
    the (pool_source_limit p) \<le> source_count (pool_counts p) (quota_source src)")
  case True
  with pool_inv_front [OF assms] show ?thesis
    by (auto simp: resolve_source_def Let_def split: option.splits)
next
  case False
  define q where "q = quota_source src"
  let ?held = "l\<lparr>lease_source := Some q\<rparr> # remove1 l held"
  obtain k where k: "pool_source_limit p = Some k" using False by auto
  have lt: "held_count held q < k" and other: "lease_source l \<noteq> Some q"
    using False k source_count_inv [OF assms(1)] by (auto simp: q_def)
  obtain m' where rel: "(case lease_source l of None \<Rightarrow> Some (bump_source q (pool_counts p))
        | Some previous \<Rightarrow> release_source previous (bump_source q (pool_counts p))) = Some m'"
    and m': "hm_wf m'" "\<And>ip. hm_get m' ip = (let c = held_count ?held ip in if c = 0 then None else Some c)"
    by (rule recharge_counts [OF assms other]) blast
  have "held_count ?held ip \<le> k" for ip
  proof -
    have "held_count held ip \<le> k" using assms(1) k by (simp add: pool_inv_def)
    with lt held_count_remove1 [OF assms(2), of ip] show ?thesis by (auto split: if_splits)
  qed
  then have "pool_inv (p\<lparr>pool_counts := m'\<rparr>) ?held"
    using assms(1) m' length_Suc_remove1 [OF assms(2)] k unfolding pool_inv_def Let_def by auto
  moreover have "resolve_source p l src = Some (Inr (l\<lparr>lease_source := Some q\<rparr>, p\<lparr>pool_counts := m'\<rparr>))"
    using False k rel [unfolded q_def] by (auto simp: resolve_source_def Let_def q_def)
  ultimately show ?thesis by auto
qed

lemma pool_step_inv: "pool_step s t \<Longrightarrow> pool_inv (fst s) (snd s) \<Longrightarrow> pool_inv (fst t) (snd t)"
proof (induction rule: pool_step.induct)
  case (acquired p src l p' held)
  then show ?case by (simp add: acquire_inv)
next
  case (resolved l held p src l' p')
  then show ?case using resolve_total [of p held l src] by auto
next
  case (dropped l held p p')
  then show ?case using drop_total [of p held l] by auto
qed

lemma new_pool_inv: "pool_inv (new_pool n k) []"
  by (simp add: pool_inv_def new_pool_def)

interpretation pool: step_system
  "\<lambda>s. \<exists>n k. s = (new_pool n k, [])" pool_step "\<lambda>s. pool_inv (fst s) (snd s)"
  by unfold_locales (auto simp: new_pool_inv intro: pool_step_inv)

subsection \<open>The contract of a pool of leases\<close>

text \<open>
  What the admission layer relies on: an acquisition extends the leases that are alive, a
  drop of a live lease always succeeds and takes it out, and the number of live leases never
  exceeds the capacity. The recovery of capacity after a drop follows for every such pool.
\<close>

locale lease_pool =
  fixes acq :: "'p \<Rightarrow> 'src \<Rightarrow> 'e + ('l \<times> 'p)"
    and rel :: "'p \<Rightarrow> 'l \<Rightarrow> 'p option"
    and held_inv :: "'p \<Rightarrow> 'l list \<Rightarrow> bool"
    and cap :: "'p \<Rightarrow> nat"
  assumes acq_held: "held_inv p h \<Longrightarrow> acq p s = Inr (l, p') \<Longrightarrow> held_inv p' (l # h)"
    and rel_held: "held_inv p h \<Longrightarrow> l \<in> set h \<Longrightarrow>
      \<exists>p'. rel p l = Some p' \<and> held_inv p' (remove1 l h)"
    and held_cap: "held_inv p h \<Longrightarrow> length h \<le> cap p"
    and acq_cap: "acq p s = Inr (l, p') \<Longrightarrow> cap p' = cap p"
    and rel_cap: "rel p l = Some p' \<Longrightarrow> cap p' = cap p"
begin

lemma acquire_then_release:
  assumes "held_inv p h" "acq p s = Inr (l, p')"
  shows "\<exists>p''. rel p' l = Some p'' \<and> held_inv p'' h \<and> cap p'' = cap p"
proof -
  have "held_inv p' (l # h)" using assms by (rule acq_held)
  then obtain p'' where p'': "rel p' l = Some p''" "held_inv p'' (remove1 l (l # h))"
    using rel_held [of p' "l # h" l] by auto
  have "cap p'' = cap p" using rel_cap [OF p''(1)] acq_cap [OF assms(2)] by simp
  with p'' show ?thesis by auto
qed

lemma release_below_cap:
  assumes "held_inv p h" "l \<in> set h" "rel p l = Some p'"
  shows "length (remove1 l h) < cap p'"
  using held_cap [OF assms(1)] length_Suc_remove1 [OF assms(2)] rel_cap [OF assms(3)] by linarith

end

interpretation guard: lease_pool acquire lease_drop pool_inv pool_limit
proof unfold_locales
  fix p h l s p'
  show "pool_inv p h \<Longrightarrow> acquire p s = Inr (l, p') \<Longrightarrow> pool_inv p' (l # h)"
    by (rule acquire_inv)
  show "pool_inv p h \<Longrightarrow> l \<in> set h \<Longrightarrow>
      \<exists>p'. lease_drop p l = Some p' \<and> pool_inv p' (remove1 l h)"
    by (rule drop_total)
  show "pool_inv p h \<Longrightarrow> length h \<le> pool_limit p"
    by (simp add: pool_inv_def)
  show "acquire p s = Inr (l, p') \<Longrightarrow> pool_limit p' = pool_limit p"
    by (auto simp: acquire_def split: if_splits option.splits)
  show "lease_drop p l = Some p' \<Longrightarrow> pool_limit p' = pool_limit p"
    by (auto simp: lease_drop_def Let_def split: if_splits option.splits)
qed

section \<open>Properties\<close>

lemma lease_of_count: "0 < held_count held ip \<Longrightarrow> Some ip \<in> lease_source ` set held"
  by (induction held) (auto split: if_splits)

text \<open>Every entry of the table belongs to a source with a live lease, and keys are distinct.\<close>

lemma table_le_held:
  assumes "pool_inv p held"
  shows "length (pool_counts p) \<le> length held"
proof -
  have wf: "hm_wf (pool_counts p)" using assms by (simp add: pool_inv_def)
  have "Some ip \<in> lease_source ` set held" if "ip \<in> fst ` set (pool_counts p)" for ip
  proof -
    have "hm_get (pool_counts p) ip \<noteq> None"
      using that by (simp add: hm_get_def map_of_eq_None_iff)
    then have "0 < held_count held ip" using assms by (auto simp: pool_inv_def split: if_splits)
    then show ?thesis by (rule lease_of_count)
  qed
  then have "Some ` fst ` set (pool_counts p) \<subseteq> lease_source ` set held" by auto
  then have "card (Some ` fst ` set (pool_counts p)) \<le> card (lease_source ` set held)"
    by (simp add: card_mono)
  also have "\<dots> \<le> length held" by (metis card_image_le card_length finite_set le_trans)
  finally have "card (set (map fst (pool_counts p))) \<le> length held"
    by (simp add: card_image)
  then show ?thesis using wf distinct_card [of "map fst (pool_counts p)"] by (simp add: hm_wf_def)
qed

text \<open>
  C5. Accounting of a connection pool. In every state a pool reaches from its creation by
  acquisitions, reclassifications and drops of leases, in any order: the number of live leases
  is what the pool counts and at most its limit; every source with live leases is charged
  exactly their number, at most the per-source limit, and a source without a live lease has no
  entry in the table, so the table holds no more sources than there are live leases; and no
  drop or reclassification of a live lease underflows a counter (neither panics).
\<close>

theorem pool_accounting:
  assumes "pool_step\<^sup>*\<^sup>* (new_pool n k, []) (p, held)"
  shows "pool_total p = length held \<and> length held \<le> pool_limit p \<and>
    (\<forall>ip. source_count (pool_counts p) ip = held_count held ip) \<and>
    (\<forall>ip. hm_get (pool_counts p) ip =
      (if held_count held ip = 0 then None else Some (held_count held ip))) \<and>
    length (pool_counts p) \<le> length held \<and>
    (\<forall>lim ip. pool_source_limit p = Some lim \<longrightarrow> held_count held ip \<le> lim) \<and>
    (\<forall>l \<in> set held. lease_drop p l \<noteq> None \<and> (\<forall>src. resolve_source p l src \<noteq> None))"
proof -
  have inv: "pool_inv p held" using pool.reachable_inv [OF _ assms] by auto
  have safe: "lease_drop p l \<noteq> None \<and> (\<forall>src. resolve_source p l src \<noteq> None)"
    if "l \<in> set held" for l
    using drop_total [OF inv that] resolve_total [OF inv that] by (metis option.distinct(1))
  have total: "pool_total p = length held \<and> length held \<le> pool_limit p"
    using inv by (simp add: pool_inv_def)
  have lims: "\<forall>lim ip. pool_source_limit p = Some lim \<longrightarrow> held_count held ip \<le> lim"
    using inv by (simp add: pool_inv_def)
  have "hm_get (pool_counts p) ip =
      (if held_count held ip = 0 then None else Some (held_count held ip))" for ip
    using inv by (simp add: pool_inv_def)
  then show ?thesis
    using total lims safe source_count_inv [OF inv] table_le_held [OF inv] by blast
qed

theorem pool_accounting_witness:
  "\<exists>p. pool_step\<^sup>*\<^sup>* (new_pool 2 (Some 1), []) (p, [\<lparr>lease_source = Some (V4 7)\<rparr>]) \<and>
    pool_total p = 1 \<and> source_count (pool_counts p) (V4 7) = 1"
proof -
  let ?p = "\<lparr>pool_limit = 2, pool_source_limit = Some 1, pool_total = 1,
    pool_counts = [(V4 7, 1)]\<rparr>"
  have "acquire (new_pool 2 (Some 1)) (Some (V4 7)) = Inr (\<lparr>lease_source = Some (V4 7)\<rparr>, ?p)"
    by (simp add: acquire_def new_pool_def source_count_def bump_source_def hm_insert_def)
  then have run: "pool_step\<^sup>*\<^sup>* (new_pool 2 (Some 1), []) (?p, [\<lparr>lease_source = Some (V4 7)\<rparr>])"
    by (blast intro: pool_step.acquired)
  show ?thesis using run pool_accounting [OF run] by auto
qed

text \<open>
  C14. Dropping a lease gives its capacity back. Whatever leases are alive, a lease obtained
  from a pool can be dropped again, the accounting of the other leases is as before, and
  after dropping any live lease the number of live leases is below the limit.
\<close>

theorem lease_capacity_recovers:
  assumes "pool_inv p held"
  shows "(\<forall>src l p'. acquire p src = Inr (l, p') \<longrightarrow>
      (\<exists>p''. lease_drop p' l = Some p'' \<and> pool_inv p'' held \<and> pool_limit p'' = pool_limit p)) \<and>
    (\<forall>l \<in> set held. \<exists>p'. lease_drop p l = Some p' \<and> pool_inv p' (remove1 l held) \<and>
      pool_total p' < pool_limit p')"
proof -
  have "\<exists>p'. lease_drop p l = Some p' \<and> pool_inv p' (remove1 l held) \<and>
      pool_total p' < pool_limit p'" if "l \<in> set held" for l
    using drop_total [OF assms that] guard.release_below_cap [OF assms that]
    by (auto simp: pool_inv_def)
  then show ?thesis using guard.acquire_then_release [OF assms] by blast
qed

theorem lease_capacity_recovers_witness:
  "pool_inv (new_pool 1 None) [] \<and>
   (\<exists>p''. lease_drop ((new_pool 1 None)\<lparr>pool_total := 1\<rparr>) \<lparr>lease_source = None\<rparr> = Some p'' \<and>
     pool_inv p'' [])"
proof -
  have inv: "pool_inv (new_pool 1 None) []" by (rule new_pool_inv)
  have "acquire (new_pool 1 None) None =
      Inr (\<lparr>lease_source = None\<rparr>, (new_pool 1 None)\<lparr>pool_total := 1\<rparr>)"
    by (simp add: acquire_def new_pool_def)
  then show ?thesis using inv lease_capacity_recovers [OF inv] by blast
qed

lemma collect_all_Some: "collect_all xs = Some ys \<longleftrightarrow> xs = map Some ys"
proof (induction xs arbitrary: ys rule: collect_all.induct)
  case (3 x xs)
  then show ?case by (cases ys) auto
qed auto

lemma check_real_ip_result: "check_real_ip a reals client = Inr ip \<Longrightarrow> ip = client"
  by (auto simp: check_real_ip_def split: list.splits option.splits if_splits)

text \<open>
  C15. Forwarding headers cannot be used to spoof a source. From a peer that is not a trusted
  proxy the headers are ignored and the source is the peer itself; from a trusted proxy an
  accepted source is never one of the trusted proxies, and when \<open>x-forwarded-for\<close> is present
  it is the last address of the single forwarded chain that is not trusted, every address
  after it being a trusted proxy.
\<close>

theorem source_not_spoofed:
  "(canonical peer \<notin> set (trusted_proxies a) \<longrightarrow>
      admission_source a peer headers = Inr (canonical peer)) \<and>
   (canonical peer \<in> set (trusted_proxies a) \<longrightarrow> admission_source a peer headers = Inr ip \<longrightarrow>
      ip \<notin> set (trusted_proxies a) \<and>
      (headers (str ''x-forwarded-for'') \<noteq> [] \<longrightarrow>
        (\<exists>v before after. headers (str ''x-forwarded-for'') = [Some v] \<and>
          forwarded_chain v = Some (before @ ip # after) \<and>
          set after \<subseteq> set (trusted_proxies a))))"
proof (intro conjI impI)
  show "canonical peer \<notin> set (trusted_proxies a) \<Longrightarrow>
      admission_source a peer headers = Inr (canonical peer)"
    by (simp add: admission_source_def Let_def)
next
  assume tp: "canonical peer \<in> set (trusted_proxies a)"
    and ok: "admission_source a peer headers = Inr ip"
  show "ip \<notin> set (trusted_proxies a)"
    using tp ok
    by (auto simp: admission_source_def Let_def find_Some_iff dest: check_real_ip_result
        split: if_splits option.splits)
next
  assume tp: "canonical peer \<in> set (trusted_proxies a)"
    and ok: "admission_source a peer headers = Inr ip"
    and ne: "headers (str ''x-forwarded-for'') \<noteq> []"
  from tp ok ne obtain v chain where
    xff: "headers (str ''x-forwarded-for'') = [Some v]"
    and chain: "forwarded_chain v = Some chain"
    and find: "find (\<lambda>ip. ip \<notin> set (trusted_proxies a)) (rev chain) = Some ip"
    by (cases "headers (str ''x-forwarded-for'')")
       (auto simp: admission_source_def Let_def dest: check_real_ip_result
          split: if_splits option.splits)
  from find obtain i where i: "i < length chain" "ip = rev chain ! i"
    and earlier: "\<forall>j<i. rev chain ! j \<in> set (trusted_proxies a)"
    by (auto simp: find_Some_iff)
  have "chain = rev (take i (rev chain) @ rev chain ! i # drop (Suc i) (rev chain))"
    using i by (simp add: id_take_nth_drop [of i "rev chain", symmetric])
  then have "chain = rev (drop (Suc i) (rev chain)) @ ip # rev (take i (rev chain))"
    using i(2) by simp
  moreover have "set (rev (take i (rev chain))) \<subseteq> set (trusted_proxies a)"
    using earlier i(1) by (auto simp: in_set_conv_nth)
  ultimately show "\<exists>v before after. headers (str ''x-forwarded-for'') = [Some v] \<and>
      forwarded_chain v = Some (before @ ip # after) \<and> set after \<subseteq> set (trusted_proxies a)"
    using xff chain by metis
qed

theorem source_not_spoofed_witness:
  "admission_source \<lparr>trusted_proxies = [V4 (ipv4_of 127 0 0 1)], pending_pool = new_pool 1 None,
       active_pool = new_pool 1 None\<rparr> (V4 (ipv4_of 127 0 0 1))
     (\<lambda>n. if n = str ''x-forwarded-for'' then [Some (str ''9.1.1.1,127.0.0.1'')] else [])
   = Inr (V4 (ipv4_of 9 1 1 1)) \<and>
   V4 (ipv4_of 9 1 1 1) \<notin> set [V4 (ipv4_of 127 0 0 1)]"
  (is "admission_source ?a ?peer ?h = Inr ?ip \<and> _")
proof -
  have 1: "admission_source ?a ?peer ?h = Inr ?ip" by code_simp
  have 2: "canonical ?peer \<in> set (trusted_proxies ?a)" by (simp add: canonical_def)
  have "?ip \<notin> set (trusted_proxies ?a)" using source_not_spoofed [of ?peer ?a ?h ?ip] 1 2 by blast
  with 1 show ?thesis by simp
qed

lemma unat_network_mask: "unat (a AND push_bit 64 (- 1)) = unat a div 2 ^ 64 * 2 ^ 64" for a :: u128
proof -
  have "a AND push_bit 64 (- 1) = push_bit 64 (drop_bit 64 a)"
    by (rule bit_eqI) (auto simp: bit_simps)
  then have "unat (a AND push_bit 64 (- 1)) = take_bit LENGTH(128) (push_bit 64 (drop_bit 64 (unat a)))"
    by (simp only: unsigned_push_bit_eq unat_drop_bit_eq)
  then have "unat (a AND push_bit 64 (- 1)) = take_bit 128 (unat a div 2 ^ 64 * 2 ^ 64)"
    by (simp only: drop_bit_eq_div push_bit_eq_mult len_num1 len_bit0 mult_1_right) simp
  moreover have "unat a div 2 ^ 64 * 2 ^ 64 < 2 ^ 128"
  proof -
    have "unat a div 2 ^ 64 * 2 ^ 64 \<le> unat a" by (rule div_times_less_eq_dividend)
    also have "unat a < 2 ^ 128" using unat_bound [of a] by simp
    finally show ?thesis .
  qed
  ultimately show ?thesis by (simp add: take_bit_eq_mod)
qed

lemma network_mask_not_mapped: "to_ipv4_mapped (a AND push_bit 64 (- 1)) = None"
proof -
  have "x * 2 ^ 64 div 2 ^ 32 \<noteq> (65535::nat)" for x
  proof -
    have "x * 2 ^ 64 div 2 ^ 32 = x * 2 ^ 32" by simp
    then show ?thesis by (cases x) auto
  qed
  then show ?thesis by (simp only: to_ipv4_mapped_def unat_network_mask) simp
qed

text \<open>
  The quota source of an address. Two IPv6 addresses that are not IPv4-mapped have the
  same quota source exactly when their upper 64 bits agree, so privacy addresses of one /64
  network share one quota; an IPv4-mapped address has the quota source of its IPv4 address;
  and taking the quota source again changes nothing.
\<close>

lemma quota_source_network:
  "(to_ipv4_mapped a = None \<longrightarrow> to_ipv4_mapped b = None \<longrightarrow>
      (quota_source (V6 a) = quota_source (V6 b) \<longleftrightarrow> unat a div 2 ^ 64 = unat b div 2 ^ 64)) \<and>
   (to_ipv4_mapped a = Some v \<longrightarrow> quota_source (V6 a) = quota_source (V4 v)) \<and>
   quota_source (quota_source ip) = quota_source ip"
proof (intro conjI impI)
  assume "to_ipv4_mapped a = None" "to_ipv4_mapped b = None"
  then have "quota_source (V6 a) = quota_source (V6 b) \<longleftrightarrow>
      unat (a AND push_bit 64 (- 1)) = unat (b AND push_bit 64 (- 1))"
    by (simp only: quota_source_def canonical_def ip_addr.simps option.simps word_unat_eq_iff)
  then show "quota_source (V6 a) = quota_source (V6 b) \<longleftrightarrow> unat a div 2 ^ 64 = unat b div 2 ^ 64"
    by (simp only: unat_network_mask) simp
next
  show "to_ipv4_mapped a = Some v \<Longrightarrow> quota_source (V6 a) = quota_source (V4 v)"
    by (simp add: quota_source_def canonical_def)
next
  show "quota_source (quota_source ip) = quota_source ip"
    using network_mask_not_mapped
    by (simp add: quota_source_def canonical_def split: ip_addr.splits option.splits)
qed

end
