(* ===== verification/Registration.thy ===== *)
theory Registration
  imports Registry Connection_Guard
begin

text \<open>
  \<open>src/src/registration.rs\<close>: the checks of a registration request, the admission of a member
  under the lobby lock, and the messages that follow. The handler is split where the code takes
  and releases the lock: \<open>check_request\<close> runs before it, \<open>admit\<close> is the locked section,
  \<open>announce\<close> runs after it on the state of that later moment; \<open>handle_v3\<close> composes them.

  The random bytes and draws of one registration are the record \<open>entropy\<close>. A run in which the
  draws for the session generation are used up has no result (\<open>None\<close>).
\<close>

section \<open>Data\<close>

record RegistrationRequest =
  rq_entry_mode :: "LobbyEntryMode option"
  rq_protocol_version :: u32
  rq_identity_public_key :: rstr
  rq_challenge_signature :: rstr
  rq_player_name :: rstr
  rq_virtual_ip :: "rstr option"
  rq_use_domain :: "bool option"
  rq_lobby_name :: rstr
  rq_lobby_password :: rstr
  rq_client_version :: "rstr option"

text \<open>The registry and the socket handles of the context are in \<open>World\<close> and the two numbers.\<close>

record RegistrationContext =
  rc_sender :: nat
  rc_disconnect :: nat
  rc_challenge :: rstr
  rc_source_ip :: ip_addr
  rc_is_registered :: bool

record RegisteredSession =
  rs_client_id :: rstr
  rs_lobby_id :: rstr
  rs_generation :: u64

datatype RegistrationOutcome = Retry | Disconnect | Committed RegisteredSession bool

record entropy =
  en_salt :: bytes
  en_token :: bytes
  en_rotation :: bytes
  en_draws :: "u64 list"

section \<open>Error texts\<close>

definition msg_bad_virtual_ip :: rstr where
  "msg_bad_virtual_ip =
     str ''virtualIp '' @ [24517, 39035, 20301, 20110] @ str '' 10.126.126.1-254''"

definition msg_bad_identity :: rstr where
  "msg_bad_identity =
     [36523, 20221, 20844, 38053, 25110] @ str '' challengeSignature '' @ [26080, 25928]"

definition msg_bad_fields :: rstr where
  "msg_bad_fields =
     [27880, 20876, 23383, 27573, 20026, 31354, 12289, 36807, 38271, 25110, 21253, 21547, 25511,
     21046, 23383, 31526]"

definition msg_legacy :: rstr where
  "msg_legacy =
     [24050, 25298, 32477, 26087, 27880, 20876, 21327, 35758, 65292, 35831, 20808, 31561, 24453]
     @ str '' server-challenge '' @ [21518, 20351, 29992] @ str '' register-v3''"

definition msg_lobby_taken :: rstr where
  "msg_lobby_taken =
     [22823, 21381, 21517, 31216, 24050, 34987, 21344, 29992, 65292, 35831, 26356, 25442, 22823,
     21381, 21517, 31216, 21518, 37325, 35797]"

definition msg_lobby_missing :: rstr where
  "msg_lobby_missing =
     [22823, 21381, 19981, 23384, 22312, 25110, 24050, 20851, 38381, 65292, 35831, 26816, 26597,
     22823, 21381, 21517, 31216, 25110, 32852, 31995, 25151, 20027]"

definition msg_identity_in_use :: rstr where
  "msg_identity_in_use =
     [23458, 25143, 31471, 36523, 20221, 24050, 22312, 20351, 29992, 20013, 65292, 35831, 37325,
     26032, 36830, 25509]"

definition msg_password_locked :: rstr where
  "msg_password_locked =
     [23494, 30721, 38169, 35823, 27425, 25968, 36807, 22810, 65292, 35831, 31245, 21518, 20877,
     35797]"

definition msg_password_wrong :: rstr where
  "msg_password_wrong =
     [23494, 30721, 38169, 35823]"

definition msg_virtual_ip_used :: rstr where
  "msg_virtual_ip_used =
     str ''virtualIp '' @ [24050, 34987, 22823, 21381, 20869, 20854, 20182, 25104, 21592, 20351,
     29992]"

definition msg_protocol :: rstr where
  "msg_protocol =
     [19981, 25903, 25345, 30340, 20449, 20196, 21327, 35758, 29256, 26412, 65292, 35201, 27714]
     @ str '' '' @ show_nat (unat SIGNALING_PROTOCOL_VERSION)"

definition msg_lobby_full :: rstr where
  "msg_lobby_full =
     [22823, 21381, 20154, 25968, 24050, 28385, 65288, 26381, 21153, 31471, 19978, 38480] @ str
     '' '' @ show_nat MAX_LOBBY_MEMBERS @ str '' '' @ [20154, 65289]"

definition msg_version :: "rstr \<Rightarrow> rstr \<Rightarrow> rstr" where
  "msg_version version minimum =
     [24744, 30340, 23458, 25143, 31471, 29256, 26412, 36807, 20302, 65288, 24403, 21069, 29256,
     26412] @ str '': '' @ version @
     [65289, 65292, 35831, 26356, 26032, 21040, 26368, 26032, 29256, 26412, 65288, 26368, 20302,
     35201, 27714] @ str '': '' @ minimum @ [65289]"

section \<open>Versions\<close>

definition parse_version :: "rstr \<Rightarrow> (nat \<times> nat \<times> nat) option" where
  "parse_version v =
     (if v = [] \<or> MAX_CLIENT_VERSION_LEN < str_len v then None
      else case map (parse_uint (2 ^ 32 - 1)) (split_char 46 v) of
             [Some a, Some b, Some c] \<Rightarrow> Some (a, b, c)
           | _ \<Rightarrow> None)"

fun version_ge :: "nat \<times> nat \<times> nat \<Rightarrow> nat \<times> nat \<times> nat \<Rightarrow> bool" where
  "version_ge (a, b, c) (a', b', c') \<longleftrightarrow> a' < a \<or> a' = a \<and> (b' < b \<or> b' = b \<and> c' \<le> c)"

definition is_version_valid :: "rstr \<Rightarrow> rstr \<Rightarrow> bool" where
  "is_version_valid version minimum_version =
     (case (parse_version version, parse_version minimum_version) of
        (Some current, Some minimum) \<Rightarrow> version_ge current minimum
      | _ \<Rightarrow> False)"

definition send_response :: "host \<Rightarrow> World \<Rightarrow> nat \<Rightarrow> SignalingMessage \<Rightarrow> World" where
  "send_response h w sender m = snd (send_text h w sender (message_text (h_serde h) m))"

definition version_error :: "ServerConfig \<Rightarrow> rstr \<Rightarrow> SignalingMessage" where
  "version_error cfg version =
     VersionTooOld (msg_version version (minimum_client_version cfg)) version
       (minimum_client_version cfg) (client_download_url cfg)"

definition reject_legacy ::
  "host \<Rightarrow> ServerConfig \<Rightarrow> World \<Rightarrow> nat \<Rightarrow> rstr option \<Rightarrow> RegistrationOutcome \<times> World" where
  "reject_legacy h cfg w sender client_version =
     (let version = (case client_version of None \<Rightarrow> str ''unknown'' | Some v \<Rightarrow> v);
          m = (if \<not> is_version_valid version (minimum_client_version cfg)
               then version_error cfg version else RegisterError msg_legacy)
      in (Disconnect, send_response h w sender m))"

section \<open>Before the lock\<close>

text \<open>What a request that passes the checks is admitted with.\<close>

record Candidate =
  cd_client_id :: rstr
  cd_chat_public_key :: "rstr option"
  cd_virtual_domain :: rstr
  cd_use_domain :: "bool option"
  cd_virtual_ip :: u32
  cd_lobby_id :: rstr

definition check_request ::
  "crypto \<Rightarrow> ServerConfig \<Rightarrow> RegistrationContext \<Rightarrow> RegistrationRequest \<Rightarrow>
   (SignalingMessage option \<times> RegistrationOutcome) + Candidate" where
  "check_request C cfg ctx req =
     (if rc_is_registered ctx then Inl (None, Disconnect)
      else if rq_protocol_version req \<noteq> SIGNALING_PROTOCOL_VERSION
      then Inl (Some (RegisterError msg_protocol), Disconnect)
      else case parse_virtual_ipv4 (rq_virtual_ip req) of
        None \<Rightarrow> Inl (Some (RegisterError msg_bad_virtual_ip), Retry)
      | Some virtual_ip \<Rightarrow>
          (case verify_registration_identity C (rc_challenge ctx) (rq_lobby_name req)
                  (show_ipv4 virtual_ip) (rq_identity_public_key req) (rq_challenge_signature req) of
             None \<Rightarrow> Inl (Some (RegisterError msg_bad_identity), Disconnect)
           | Some (cid, identity_key, virtual_domain) \<Rightarrow>
               if \<not> valid_text cid MAX_CLIENT_ID_LEN False \<or>
                  \<not> valid_text (rq_player_name req) MAX_PLAYER_NAME_LEN False \<or>
                  \<not> valid_text (rq_lobby_name req) MAX_LOBBY_NAME_LEN False \<or>
                  \<not> valid_text (rq_lobby_password req) MAX_LOBBY_PASSWORD_LEN True \<or>
                  \<not> valid_text virtual_domain MAX_VIRTUAL_DOMAIN_LEN True
               then Inl (Some (RegisterError msg_bad_fields), Retry)
               else
                 let version = (case rq_client_version req of
                        None \<Rightarrow> str ''unknown'' | Some v \<Rightarrow> v)
                 in if version = str ''unknown'' \<or>
                       \<not> is_version_valid version (minimum_client_version cfg)
                    then Inl (Some (version_error cfg version), Disconnect)
                    else Inr
                      \<lparr>cd_client_id = cid,
                       cd_chat_public_key = normalize_chat_public_key C (Some identity_key),
                       cd_virtual_domain = virtual_domain,
                       cd_use_domain =
                         (case rq_use_domain req of None \<Rightarrow> Some True | Some b \<Rightarrow> Some b),
                       cd_virtual_ip = virtual_ip,
                       cd_lobby_id = generate_lobby_id C (rq_lobby_name req)\<rparr>))"

section \<open>Under the lobby lock\<close>

record Commit =
  cm_session :: RegisteredSession
  cm_chat_token :: rstr
  cm_chat_token_epoch :: u64
  cm_rotation_targets :: "(rstr \<times> nat) list"
  cm_host_id :: rstr
  cm_max_players :: "u32 option"
  cm_is_public :: bool
  cm_muted :: "rstr list"

type_synonym refusal = "SignalingMessage \<times> RegistrationOutcome"

definition entry_error :: "LobbyEntryMode option \<Rightarrow> bool \<Rightarrow> rstr option" where
  "entry_error mode exists_already =
     (case (mode, exists_already) of
        (Some Create, True) \<Rightarrow> Some msg_lobby_taken
      | (Some Join, False) \<Rightarrow> Some msg_lobby_missing
      | _ \<Rightarrow> None)"

definition existing_client_lobby :: "World \<Rightarrow> rstr \<Rightarrow> rstr option" where
  "existing_client_lobby w cid =
     map_option fst (find (\<lambda>(_, lobby). hm_contains (lb_clients lobby) cid) (w_lobbies w))"

text \<open>The failure lock and the password of an existing lobby.\<close>

definition check_password ::
  "crypto \<Rightarrow> instant \<Rightarrow> failure_key \<Rightarrow> rstr \<Rightarrow> rstr \<Rightarrow> World \<Rightarrow> refusal option \<times> World" where
  "check_password C now key lid password w =
     (let (locked, f1) = is_locked key now (w_failures w);
          w1 = w\<lparr>w_failures := f1\<rparr>
      in if locked then (Some (RegisterError msg_password_locked, Disconnect), w1)
         else case hm_get (w_lobbies w1) lid of
           None \<Rightarrow> (None, w1)
         | Some existing \<Rightarrow>
             let supplied_hash = hash_lobby_password C (lb_password_salt existing) password
             in if \<not> ct_eq (as_bytes supplied_hash) (as_bytes (lb_password_hash existing))
                then let (locked2, f2) = is_locked key now (w_failures w1);
                         f3 = (if locked2 then f2 else record_failure key now f2)
                     in (Some (RegisterError
                           (if locked2 then msg_password_locked else msg_password_wrong), Disconnect),
                         w1\<lparr>w_failures := f3\<rparr>)
                else (None, w1\<lparr>w_failures := failures_clear key (w_failures w1)\<rparr>))"

definition new_lobby :: "crypto \<Rightarrow> entropy \<Rightarrow> rstr \<Rightarrow> rstr \<Rightarrow> rstr \<Rightarrow> LobbyInfo" where
  "new_lobby C en lobby_name lobby_password cid =
     (let password_salt = random_hex (en_salt en)
      in \<lparr>lb_lobby_name = lobby_name,
          lb_password_hash = hash_lobby_password C password_salt lobby_password,
          lb_password_salt = password_salt,
          lb_clients = [], lb_host_id = cid, lb_max_players = None, lb_is_public = False,
          lb_is_passwordless = (lobby_password = []), lb_description = [], lb_server_node = [],
          lb_muted = [], lb_chat_token = generate_chat_token (en_token en),
          lb_chat_token_epoch = 1\<rparr>)"

definition virtual_ip_taken :: "LobbyInfo \<Rightarrow> rstr \<Rightarrow> u32 \<Rightarrow> bool" where
  "virtual_ip_taken lobby cid virtual_ip \<longleftrightarrow>
     list_ex (\<lambda>info. ci_player_id info \<noteq> cid \<and>
       Option.bind (ci_virtual_ip info) parse_ipv4 = Some virtual_ip) (hm_values (lb_clients lobby))"

definition lobby_full :: "LobbyInfo \<Rightarrow> rstr \<Rightarrow> bool" where
  "lobby_full lobby cid \<longleftrightarrow>
     MAX_LOBBY_MEMBERS \<le> hm_len (lb_clients lobby) \<or>
     is_some_and (lb_max_players lobby) (\<lambda>mx.
       \<not> hm_contains (lb_clients lobby) cid \<and> mx \<le> of_nat (hm_len (lb_clients lobby)))"

definition client_info ::
  "RegistrationContext \<Rightarrow> RegistrationRequest \<Rightarrow> Candidate \<Rightarrow> u64 \<Rightarrow> ClientInfo" where
  "client_info ctx req cd generation =
     \<lparr>ci_player_id = cd_client_id cd, ci_player_name = rq_player_name req,
      ci_virtual_ip = Some (show_ipv4 (cd_virtual_ip cd)),
      ci_virtual_domain = Some (cd_virtual_domain cd), ci_use_domain = cd_use_domain cd,
      ci_chat_public_key = cd_chat_public_key cd, ci_session_generation = generation,
      ci_sender = rc_sender ctx, ci_disconnect = rc_disconnect ctx\<rparr>"

text \<open>The member enters the lobby and the credential is rotated for those already there.\<close>

definition enter_lobby ::
  "entropy \<Rightarrow> RegistrationContext \<Rightarrow> RegistrationRequest \<Rightarrow> Candidate \<Rightarrow> u64 \<Rightarrow> LobbyInfo \<Rightarrow>
   World \<Rightarrow> Commit \<times> World" where
  "enter_lobby en ctx req cd generation lobby w =
     (let cid = cd_client_id cd;
          lid = cd_lobby_id cd;
          had_existing_members = (lb_clients lobby \<noteq> []);
          w1 = (case hm_get (lb_clients lobby) cid of
                  None \<Rightarrow> w
                | Some previous \<Rightarrow>
                    w\<lparr>w_disconnect := (w_disconnect w)(ci_disconnect previous := True)\<rparr>);
          lobby1 = lobby\<lparr>lb_clients :=
            hm_insert cid (client_info ctx req cd generation) (lb_clients lobby)\<rparr>;
          lobby2 = (if had_existing_members then rotate_chat_token (en_rotation en) lobby1
                    else lobby1);
          targets = (if had_existing_members
                     then map (\<lambda>(i, c). (i, ci_sender c))
                            (filter (\<lambda>(i, _). i \<noteq> cid) (lb_clients lobby2))
                     else []);
          w2 = (put_lobby lid lobby2 w1)
                 \<lparr>w_client_lobby_map := hm_insert cid lid (w_client_lobby_map w1)\<rparr>
      in (\<lparr>cm_session = \<lparr>rs_client_id = cid, rs_lobby_id = lid, rs_generation = generation\<rparr>,
           cm_chat_token = lb_chat_token lobby2, cm_chat_token_epoch = lb_chat_token_epoch lobby2,
           cm_rotation_targets = targets, cm_host_id = lb_host_id lobby2,
           cm_max_players = lb_max_players lobby2, cm_is_public = lb_is_public lobby2,
           cm_muted = lb_muted lobby2\<rparr>, w2))"

definition admit_member ::
  "crypto \<Rightarrow> entropy \<Rightarrow> RegistrationContext \<Rightarrow> RegistrationRequest \<Rightarrow> Candidate \<Rightarrow> World \<Rightarrow>
   ((refusal + Commit) \<times> World) option" where
  "admit_member C en ctx req cd w =
     (let cid = cd_client_id cd;
          lid = cd_lobby_id cd;
          lobby = (case hm_get (w_lobbies w) lid of
                     Some lobby \<Rightarrow> lobby
                   | None \<Rightarrow> new_lobby C en (rq_lobby_name req) (rq_lobby_password req) cid);
          w1 = put_lobby lid lobby w
      in if virtual_ip_taken lobby cid (cd_virtual_ip cd)
         then Some (Inl (RegisterError msg_virtual_ip_used, Retry), w1)
         else case random_session_generation (en_draws en) of
           None \<Rightarrow> None
         | Some generation \<Rightarrow>
             if lobby_full lobby cid then Some (Inl (RegisterError msg_lobby_full, Retry), w1)
             else let (cm, w2) = enter_lobby en ctx req cd generation lobby w1
                  in Some (Inr cm, w2))"

definition admit ::
  "crypto \<Rightarrow> instant \<Rightarrow> entropy \<Rightarrow> RegistrationContext \<Rightarrow> RegistrationRequest \<Rightarrow> Candidate \<Rightarrow>
   World \<Rightarrow> ((refusal + Commit) \<times> World) option" where
  "admit C now en ctx req cd w =
     (let cid = cd_client_id cd;
          lid = cd_lobby_id cd
      in case entry_error (rq_entry_mode req) (hm_contains (w_lobbies w) lid) of
           Some msg \<Rightarrow> Some (Inl (RegisterError msg, Disconnect), w)
         | None \<Rightarrow>
             if is_some_and (existing_client_lobby w cid) (\<lambda>e. e \<noteq> lid)
             then Some (Inl (RegisterError msg_identity_in_use, Disconnect), w)
             else case check_password C now (quota_source (rc_source_ip ctx), lid) lid
                         (rq_lobby_password req) w of
                    (Some refusal, w1) \<Rightarrow> Some (Inl refusal, w1)
                  | (None, w1) \<Rightarrow> admit_member C en ctx req cd w1)"

section \<open>After the lock\<close>

definition announce ::
  "host \<Rightarrow> RegistrationContext \<Rightarrow> RegistrationRequest \<Rightarrow> Candidate \<Rightarrow> Commit \<Rightarrow> World \<Rightarrow>
   RegistrationOutcome \<times> World" where
  "announce h ctx req cd cm w =
     (let session = cm_session cm;
          cid = rs_client_id session;
          lid = rs_lobby_id session
      in if w_disconnect w (rc_disconnect ctx) \<or>
            \<not> is_current_session w lid cid (rs_generation session) (rc_sender ctx)
         then (Committed session True, w)
         else
           let w1 = send_response h w (rc_sender ctx)
                 (RegisterSuccess cid (rs_generation session) lid (Some (cm_host_id cm))
                   (cm_max_players cm) (Some (cm_is_public cm)) (Some (cm_muted cm))
                   (cm_chat_token cm) (cm_chat_token_epoch cm));
               w2 = send_response h w1 (rc_sender ctx) (PlayersList (current_players w1 lid (Some cid)));
               w3 = (if cm_rotation_targets cm \<noteq> []
                     then send_chat_token_rotation h w2 (cm_rotation_targets cm) lid
                            (cm_chat_token cm) (cm_chat_token_epoch cm)
                     else w2);
               w4 = broadcast_to_lobby h w3 lid cid
                 (PlayerJoined cid (rq_player_name req) (Some (show_ipv4 (cd_virtual_ip cd)))
                   (Some (cd_virtual_domain cd)) (cd_use_domain cd) (cd_chat_public_key cd)
                   (rs_generation session))
           in (Committed session False, w4))"

definition handle_v3 ::
  "host \<Rightarrow> ServerConfig \<Rightarrow> instant \<Rightarrow> entropy \<Rightarrow> RegistrationContext \<Rightarrow> RegistrationRequest \<Rightarrow>
   World \<Rightarrow> (RegistrationOutcome \<times> World) option" where
  "handle_v3 h cfg now en ctx req w =
     (case check_request (h_crypto h) cfg ctx req of
        Inl (None, outcome) \<Rightarrow> Some (outcome, w)
      | Inl (Some m, outcome) \<Rightarrow> Some (outcome, send_response h w (rc_sender ctx) m)
      | Inr cd \<Rightarrow>
          (case admit (h_crypto h) now en ctx req cd w of
             None \<Rightarrow> None
           | Some (Inl (m, outcome), w1) \<Rightarrow> Some (outcome, send_response h w1 (rc_sender ctx) m)
           | Some (Inr cm, w1) \<Rightarrow> Some (announce h ctx req cd cm w1)))"

section \<open>Admission keeps the registry\<close>

lemma existing_client_lobby_free:
  assumes "registry_inv C w" "\<not> is_some_and (existing_client_lobby w cid) (\<lambda>e. e \<noteq> lid)"
    and "lobby_client w j cid \<noteq> None"
  shows "j = lid"
proof -
  obtain l where l: "hm_get (w_lobbies w) j = Some l" "hm_contains (lb_clients l) cid"
    using assms(3) by (auto simp: lobby_client_def hm_contains_def Option.bind_eq_Some_conv)
  then have "(j, l) \<in> set (w_lobbies w)" using hm_get_in_set by metis
  then obtain e where e: "find (\<lambda>(_, lobby). hm_contains (lb_clients lobby) cid) (w_lobbies w) = Some e"
    using l(2) by (cases "find (\<lambda>(_, lobby). hm_contains (lb_clients lobby) cid) (w_lobbies w)")
      (auto simp: find_None_iff)
  then have "e \<in> set (w_lobbies w)" "hm_contains (lb_clients (snd e)) cid"
    by (auto simp: find_Some_iff case_prod_beta)
  moreover have "fst e = lid"
    using assms(2) e by (simp add: existing_client_lobby_def is_some_and_def)
  ultimately have "lobby_client w lid cid \<noteq> None"
    using hm_get_Some_iff [OF registry_wf(1) [OF assms(1)], of "fst e" "snd e"]
    by (auto simp: lobby_client_def hm_contains_def)
  then show ?thesis using registry_unique [OF assms(1)] assms(3) by blast
qed

lemma check_password_registry:
  assumes "check_password C now key lid pw w = (r, w1)"
  shows "w_lobbies w1 = w_lobbies w" "w_client_lobby_map w1 = w_client_lobby_map w"
    "w_wire w1 = w_wire w" "w_disconnect w1 = w_disconnect w" "lobby_client w1 = lobby_client w"
  using assms
  by (auto simp: check_password_def Let_def lobby_client_def fun_eq_iff
      split: prod.splits if_splits option.splits)

lemma new_lobby_open:
  "\<not> virtual_ip_taken (new_lobby C en n pw cid) cid ip" "\<not> lobby_full (new_lobby C en n pw cid) cid"
  by (auto simp: virtual_ip_taken_def lobby_full_def new_lobby_def Let_def hm_values_def
      is_some_and_def config_simps)

lemma hm_insert_same: "hm_get m k = Some v \<Longrightarrow> hm_insert k v m = m"
  by (simp add: hm_get_def hm_insert_def map_of_SomeD update_triv)

lemma put_lobby_same: "hm_get (w_lobbies w) lid = Some l \<Longrightarrow> put_lobby lid l w = w"
  by (simp add: put_lobby_def hm_insert_same)

definition joined_lobby ::
  "crypto \<Rightarrow> entropy \<Rightarrow> RegistrationRequest \<Rightarrow> Candidate \<Rightarrow> World \<Rightarrow> LobbyInfo" where
  "joined_lobby C en req cd w =
     (case hm_get (w_lobbies w) (cd_lobby_id cd) of
        Some lobby \<Rightarrow> lobby
      | None \<Rightarrow> new_lobby C en (rq_lobby_name req) (rq_lobby_password req) (cd_client_id cd))"

lemma admit_refused:
  assumes "admit C now en ctx req cd w = Some (Inl r, w')"
  shows "w_lobbies w' = w_lobbies w" "w_client_lobby_map w' = w_client_lobby_map w"
  using assms new_lobby_open
  by (auto simp: admit_def admit_member_def Let_def put_lobby_same
      split: option.splits if_splits prod.splits sum.splits dest: check_password_registry(1,2))

lemma admit_committed:
  assumes "admit C now en ctx req cd w = Some (Inr cm, w')"
  obtains generation w1 where
    "entry_error (rq_entry_mode req) (hm_contains (w_lobbies w) (cd_lobby_id cd)) = None"
    "\<not> is_some_and (existing_client_lobby w (cd_client_id cd)) (\<lambda>e. e \<noteq> cd_lobby_id cd)"
    "check_password C now (quota_source (rc_source_ip ctx), cd_lobby_id cd) (cd_lobby_id cd)
       (rq_lobby_password req) w = (None, w1)"
    "\<not> virtual_ip_taken (joined_lobby C en req cd w) (cd_client_id cd) (cd_virtual_ip cd)"
    "\<not> lobby_full (joined_lobby C en req cd w) (cd_client_id cd)"
    "random_session_generation (en_draws en) = Some generation"
    "(cm, w') = enter_lobby en ctx req cd generation (joined_lobby C en req cd w)
       (put_lobby (cd_lobby_id cd) (joined_lobby C en req cd w) w1)"
proof -
  obtain w1 where w1: "check_password C now (quota_source (rc_source_ip ctx), cd_lobby_id cd)
      (cd_lobby_id cd) (rq_lobby_password req) w = (None, w1)"
    and adm: "admit_member C en ctx req cd w1 = Some (Inr cm, w')"
    and pre: "entry_error (rq_entry_mode req) (hm_contains (w_lobbies w) (cd_lobby_id cd)) = None"
    "\<not> is_some_and (existing_client_lobby w (cd_client_id cd)) (\<lambda>e. e \<noteq> cd_lobby_id cd)"
    using assms by (auto simp: admit_def Let_def split: option.splits if_splits prod.splits)
  have j: "joined_lobby C en req cd w1 = joined_lobby C en req cd w"
    using check_password_registry(1) [OF w1] by (simp add: joined_lobby_def)
  show thesis
    using adm unfolding admit_member_def Let_def joined_lobby_def [symmetric] j
    by (auto split: if_splits option.splits prod.splits intro: that [OF pre w1])
qed

lemma joined_lobby_cases:
  obtains "hm_get (w_lobbies w) (cd_lobby_id cd) = Some (joined_lobby C en req cd w)"
  | "hm_get (w_lobbies w) (cd_lobby_id cd) = None"
    "joined_lobby C en req cd w =
       new_lobby C en (rq_lobby_name req) (rq_lobby_password req) (cd_client_id cd)"
  by (cases "hm_get (w_lobbies w) (cd_lobby_id cd)") (auto simp: joined_lobby_def)

text \<open>The lobby after the member has entered.\<close>

definition entered_lobby ::
  "entropy \<Rightarrow> RegistrationContext \<Rightarrow> RegistrationRequest \<Rightarrow> Candidate \<Rightarrow> u64 \<Rightarrow> LobbyInfo \<Rightarrow> LobbyInfo" where
  "entered_lobby en ctx req cd generation lobby =
     (let lobby1 = lobby\<lparr>lb_clients :=
            hm_insert (cd_client_id cd) (client_info ctx req cd generation) (lb_clients lobby)\<rparr>
      in if lb_clients lobby \<noteq> [] then rotate_chat_token (en_rotation en) lobby1 else lobby1)"

lemma entered_lobby_simps [simp]:
  "lb_lobby_name (entered_lobby en ctx req cd g l) = lb_lobby_name l"
  "lb_password_hash (entered_lobby en ctx req cd g l) = lb_password_hash l"
  "lb_password_salt (entered_lobby en ctx req cd g l) = lb_password_salt l"
  "lb_clients (entered_lobby en ctx req cd g l) =
     hm_insert (cd_client_id cd) (client_info ctx req cd g) (lb_clients l)"
  "lb_host_id (entered_lobby en ctx req cd g l) = lb_host_id l"
  "lb_max_players (entered_lobby en ctx req cd g l) = lb_max_players l"
  "lb_is_public (entered_lobby en ctx req cd g l) = lb_is_public l"
  "lb_is_passwordless (entered_lobby en ctx req cd g l) = lb_is_passwordless l"
  "lb_muted (entered_lobby en ctx req cd g l) = lb_muted l"
  by (simp_all add: entered_lobby_def Let_def)

lemma enter_lobby_registry:
  assumes "enter_lobby en ctx req cd generation lobby w = (cm, w')"
  shows "w_lobbies w' = hm_insert (cd_lobby_id cd) (entered_lobby en ctx req cd generation lobby)
      (w_lobbies w)"
    "w_client_lobby_map w' = hm_insert (cd_client_id cd) (cd_lobby_id cd) (w_client_lobby_map w)"
    "w_failures w' = w_failures w" "w_wire w' = w_wire w"
    "cm_session cm = \<lparr>rs_client_id = cd_client_id cd, rs_lobby_id = cd_lobby_id cd,
       rs_generation = generation\<rparr>"
    "cm_chat_token cm = lb_chat_token (entered_lobby en ctx req cd generation lobby)"
    "cm_chat_token_epoch cm = lb_chat_token_epoch (entered_lobby en ctx req cd generation lobby)"
  using assms by (auto simp: enter_lobby_def entered_lobby_def Let_def split: option.splits)

lemma show_ipv4_inj: "show_ipv4 a = show_ipv4 b \<Longrightarrow> a = b"
  using parse_show_ipv4 by (metis option.inject)

lemma virtual_ip_free:
  assumes "clients_inv (lb_clients l)" "\<not> virtual_ip_taken l cid ip"
    and "hm_get (lb_clients l) j = Some d" "j \<noteq> cid"
  shows "ci_virtual_ip d \<noteq> Some (show_ipv4 ip)"
proof -
  have d: "ci_player_id d = j" "hm_wf (lb_clients l)"
    using assms(1,3) by (auto simp: clients_inv_def)
  then have "d \<in> set (hm_values (lb_clients l))"
    using assms(3) hm_values_get by metis
  then have "Option.bind (ci_virtual_ip d) parse_ipv4 \<noteq> Some ip"
    using assms(2,4) d by (auto simp: virtual_ip_taken_def list_ex_iff)
  then show ?thesis by (auto simp: parse_show_ipv4)
qed

lemma lobby_inv_enter:
  assumes "lobby_inv C lid l" "\<not> virtual_ip_taken l (cd_client_id cd) (cd_virtual_ip cd)"
    and "\<not> lobby_full l (cd_client_id cd)"
  shows "lobby_inv C lid (entered_lobby en ctx req cd g l)"
proof -
  have cl: "clients_inv (lb_clients l)" and wf: "hm_wf (lb_clients l)"
    and len: "hm_len (lb_clients l) < MAX_LOBBY_MEMBERS"
    using assms(1,3) by (auto simp: lobby_inv_def clients_inv_def lobby_full_def)
  have "clients_inv (lb_clients (entered_lobby en ctx req cd g l))"
    unfolding entered_lobby_simps
    by (rule clients_inv_insert [OF cl, of _ _ "cd_virtual_ip cd"])
      (auto simp: client_info_def dest: virtual_ip_free [OF cl assms(2)])
  moreover have "hm_len (lb_clients (entered_lobby en ctx req cd g l)) \<le> MAX_LOBBY_MEMBERS"
    "0 < hm_len (lb_clients (entered_lobby en ctx req cd g l))"
    using len wf assms(1) by (auto simp: hm.len_ins lobby_inv_def)
  moreover have "1 \<le> unat (lb_chat_token_epoch (entered_lobby en ctx req cd g l))"
    using assms(1) by (auto simp: entered_lobby_def Let_def rotate_epoch lobby_inv_def)
  moreover have "hm_contains (hm_insert i v m) j \<longleftrightarrow> j = i \<or> hm_contains m j"
    for i :: rstr and v :: ClientInfo and m j
    by (simp add: hm_contains_def hm.get_ins)
  ultimately show ?thesis
    using assms(1) by (auto simp: lobby_inv_def password_inv_def)
qed

lemma lobby_inv_found:
  assumes "cd_lobby_id cd = generate_lobby_id C (rq_lobby_name req)"
  shows "lobby_inv C (cd_lobby_id cd) (entered_lobby en ctx req cd g
    (new_lobby C en (rq_lobby_name req) (rq_lobby_password req) (cd_client_id cd)))"
  using assms
  by (auto simp: lobby_inv_def password_inv_def new_lobby_def Let_def clients_inv_def hm_simps
      client_info_def hm_contains_def config_simps entered_lobby_def split: if_splits)

lemma admit_inv:
  assumes "registry_inv C w" "cd_lobby_id cd = generate_lobby_id C (rq_lobby_name req)"
    and "admit C now en ctx req cd w = Some (r, w')"
  shows "registry_inv C w'"
proof (cases r)
  case (Inl r')
  have "same_registry (w\<lparr>w_failures := w_failures w'\<rparr>) w'"
    using admit_refused assms(3) Inl by (auto simp: same_registry_def)
  moreover have "registry_inv C (w\<lparr>w_failures := w_failures w'\<rparr>)"
    using assms(1) by (simp add: registry_inv_def lobby_client_def)
  ultimately show ?thesis using registry_inv_same by blast
next
  case (Inr cm)
  let ?l = "joined_lobby C en req cd w" and ?lid = "cd_lobby_id cd" and ?cid = "cd_client_id cd"
  obtain g w1 where a: "\<not> is_some_and (existing_client_lobby w ?cid) (\<lambda>e. e \<noteq> ?lid)"
    "check_password C now (quota_source (rc_source_ip ctx), ?lid) ?lid (rq_lobby_password req) w =
       (None, w1)"
    "\<not> virtual_ip_taken ?l ?cid (cd_virtual_ip cd)" "\<not> lobby_full ?l ?cid"
    "(cm, w') = enter_lobby en ctx req cd g ?l (put_lobby ?lid ?l w1)"
    using admit_committed [OF assms(3) [unfolded Inr]] by metis
  let ?e = "entered_lobby en ctx req cd g ?l"
  have lob: "lobby_inv C ?lid ?e"
    by (rule joined_lobby_cases [of w cd C en req])
      (use assms(1,2) a(3,4) lobby_inv_enter lobby_inv_found registry_lobby in \<open>simp; blast\<close>)+
  have mem: "hm_get (lb_clients ?e) i = lobby_client w ?lid i" if "i \<noteq> ?cid" for i
    using that by (cases rule: joined_lobby_cases [of w cd C en req])
      (auto simp: hm.get_ins lobby_client_def new_lobby_def Let_def)
  let ?w2 = "(put_lobby ?lid ?e w)\<lparr>w_client_lobby_map := hm_insert ?cid ?lid (w_client_lobby_map w)\<rparr>"
  have "registry_inv C ?w2"
    by (rule registry_inv_add [OF assms(1) lob _ mem])
      (use existing_client_lobby_free [OF assms(1) a(1)] in \<open>auto simp: hm_contains_def hm.get_ins\<close>)
  moreover have "w_lobbies w' = hm_insert ?lid ?e (hm_insert ?lid ?l (w_lobbies w))"
    "w_client_lobby_map w' = w_client_lobby_map ?w2"
    using enter_lobby_registry(1,2) [OF a(5) [symmetric]] check_password_registry [OF a(2)]
    by simp_all
  moreover have "hm_insert ?lid ?e (hm_insert ?lid ?l (w_lobbies w)) = hm_insert ?lid ?e (w_lobbies w)"
    by (simp add: hm_insert_def)
  ultimately show ?thesis
    by (simp add: registry_inv_def lobby_client_def)
qed

section \<open>What a committed registration has proved\<close>

lemma hash_lobby_password_ascii: "set (hash_lobby_password C salt pw) \<subseteq> {..<128}"
  using hex_bytes_ascii by (auto simp: hash_lobby_password_def)

lemma check_password_ok:
  assumes "check_password C now key lid pw w = (None, w1)" "hm_get (w_lobbies w) lid = Some l"
    and "password_inv C l"
  shows "hash_lobby_password C (lb_password_salt l) pw = lb_password_hash l"
proof -
  have "as_bytes (hash_lobby_password C (lb_password_salt l) pw) = as_bytes (lb_password_hash l)"
    using assms(1,2)
    by (auto simp: check_password_def Let_def ct_eq_iff split: prod.splits if_splits option.splits)
  moreover obtain pw' where "lb_password_hash l = hash_lobby_password C (lb_password_salt l) pw'"
    using assms(3) by (auto simp: password_inv_def)
  ultimately show ?thesis
    using as_bytes_inj_ascii [OF hash_lobby_password_ascii hash_lobby_password_ascii] by metis
qed

lemma refusal_outcomes:
  "check_password C now key lid pw w = (Some (m, out), w1) \<Longrightarrow> out = Disconnect"
  "admit_member C en ctx req cd w = Some (Inl (m, out), w1) \<Longrightarrow> out = Retry"
  by (auto simp: check_password_def admit_member_def Let_def
      split: if_splits option.splits prod.splits)

lemma admit_refusal_outcome:
  "admit C now en ctx req cd w = Some (Inl (m, out), w1) \<Longrightarrow> out = Retry \<or> out = Disconnect"
  by (auto simp: admit_def Let_def split: if_splits option.splits prod.splits
      dest: refusal_outcomes)

lemma check_request_ok:
  assumes "check_request C cfg ctx req = Inr cd"
  shows "\<not> rc_is_registered ctx \<and> rq_protocol_version req = SIGNALING_PROTOCOL_VERSION"
    and "parse_virtual_ipv4 (rq_virtual_ip req) = Some (cd_virtual_ip cd)"
    and "\<exists>key. verify_registration_identity C (rc_challenge ctx) (rq_lobby_name req)
        (show_ipv4 (cd_virtual_ip cd)) (rq_identity_public_key req) (rq_challenge_signature req) =
      Some (cd_client_id cd, key, cd_virtual_domain cd)"
    and "\<exists>v. rq_client_version req = Some v \<and> is_version_valid v (minimum_client_version cfg)"
    and "cd_lobby_id cd = generate_lobby_id C (rq_lobby_name req)"
  using assms
  by (auto simp: check_request_def Let_def split: if_splits option.splits prod.splits)

lemma handle_v3_committed:
  assumes "handle_v3 h cfg now en ctx req w = Some (Committed s d, w')"
  obtains cd cm w1 where "check_request (h_crypto h) cfg ctx req = Inr cd"
    "admit (h_crypto h) now en ctx req cd w = Some (Inr cm, w1)"
    "(Committed s d, w') = announce h ctx req cd cm w1"
proof -
  have "check_request (h_crypto h) cfg ctx req \<noteq> Inl (m, Committed s d)" for m
    by (auto simp: check_request_def Let_def split: if_splits option.splits prod.splits)
  moreover have "admit (h_crypto h) now en ctx req cd w \<noteq> Some (Inl (m, Committed s d), w1)" for cd m w1
    using admit_refusal_outcome by blast
  ultimately show thesis
    using assms
    by (auto simp: handle_v3_def split: sum.splits option.splits prod.splits intro: that)
qed

lemma announce_session:
  "announce h ctx req cd cm w = (out, w') \<Longrightarrow> \<exists>d. out = Committed (cm_session cm) d"
  by (auto simp: announce_def Let_def split: if_splits)

lemma admit_session:
  assumes "admit C now en ctx req cd w = Some (Inr cm, w')"
  shows "rs_client_id (cm_session cm) = cd_client_id cd" "rs_lobby_id (cm_session cm) = cd_lobby_id cd"
    "lobby_client w' (cd_lobby_id cd) (cd_client_id cd) =
       Some (client_info ctx req cd (rs_generation (cm_session cm)))"
proof -
  obtain g w1 where a: "(cm, w') = enter_lobby en ctx req cd g (joined_lobby C en req cd w)
       (put_lobby (cd_lobby_id cd) (joined_lobby C en req cd w) w1)"
    using admit_committed [OF assms] by metis
  show "rs_client_id (cm_session cm) = cd_client_id cd" "rs_lobby_id (cm_session cm) = cd_lobby_id cd"
    "lobby_client w' (cd_lobby_id cd) (cd_client_id cd) =
       Some (client_info ctx req cd (rs_generation (cm_session cm)))"
    using enter_lobby_registry [OF a [symmetric]] by (simp_all add: lobby_client_def hm.get_ins)
qed

lemma send_response_only: "only_sends {(sender, m') |m'. True} w (send_response h w sender m)"
  unfolding send_response_def send_text_def
  by (rule only_sends_mono [OF send_message_only]) auto

lemma only_sends_members:
  "only_sends F w w' \<Longrightarrow> member_senders w' lid = member_senders w lid"
  by (simp add: only_sends_def same_registry_def member_senders_def)

text \<open>The two messages of an announcement that are not the roster or the rotation.\<close>

definition success_message :: "Commit \<Rightarrow> SignalingMessage" where
  "success_message cm =
     RegisterSuccess (rs_client_id (cm_session cm)) (rs_generation (cm_session cm))
       (rs_lobby_id (cm_session cm)) (Some (cm_host_id cm)) (cm_max_players cm)
       (Some (cm_is_public cm)) (Some (cm_muted cm)) (cm_chat_token cm) (cm_chat_token_epoch cm)"

definition joined_message :: "RegistrationRequest \<Rightarrow> Candidate \<Rightarrow> RegisteredSession \<Rightarrow> SignalingMessage" where
  "joined_message req cd session =
     PlayerJoined (rs_client_id session) (rq_player_name req) (Some (show_ipv4 (cd_virtual_ip cd)))
       (Some (cd_virtual_domain cd)) (cd_use_domain cd) (cd_chat_public_key cd) (rs_generation session)"

text \<open>
  The frames an announcement may write: the success and the roster to the new session, the
  rotated credential to the recorded targets that are still members on the same socket (while it
  is the credential of the lobby), the news of the arrival to members.
\<close>

definition own_frames :: "host \<Rightarrow> RegistrationContext \<Rightarrow> Commit \<Rightarrow> World \<Rightarrow> (nat \<times> WsMessage) set" where
  "own_frames h ctx cm w =
     {(rc_sender ctx, Text (message_text (h_serde h) (success_message cm))),
      (rc_sender ctx, Text (message_text (h_serde h) (PlayersList
         (current_players w (rs_lobby_id (cm_session cm)) (Some (rs_client_id (cm_session cm)))))))}"

definition rotation_frames :: "host \<Rightarrow> Commit \<Rightarrow> World \<Rightarrow> (nat \<times> WsMessage) set" where
  "rotation_frames h cm w =
     {(ci_sender c, Text (message_text (h_serde h)
         (ChatTokenRotated (rs_lobby_id (cm_session cm)) (cm_chat_token cm) (cm_chat_token_epoch cm))))
       |c lobby i. hm_get (w_lobbies w) (rs_lobby_id (cm_session cm)) = Some lobby \<and>
          lb_chat_token lobby = cm_chat_token cm \<and> lb_chat_token_epoch lobby = cm_chat_token_epoch cm \<and>
          hm_get (lb_clients lobby) i = Some c \<and> (i, ci_sender c) \<in> set (cm_rotation_targets cm)}"

definition joined_frames ::
  "host \<Rightarrow> RegistrationRequest \<Rightarrow> Candidate \<Rightarrow> Commit \<Rightarrow> World \<Rightarrow> (nat \<times> WsMessage) set" where
  "joined_frames h req cd cm w =
     {(s, Text out) |s out. s \<in> member_senders w (rs_lobby_id (cm_session cm)) \<and>
        (let text = message_text (h_serde h) (joined_message req cd (cm_session cm))
         in out = text \<or> (\<exists>sid g. out = inject_session_metadata (h_serde h) text sid g))}"

lemma broadcast_frames:
  "only_sends {(s, Text out) |s out. s \<in> member_senders w lobby_id \<and>
      (let text = message_text (h_serde h) m
       in out = text \<or> (\<exists>sid g. out = inject_session_metadata (h_serde h) text sid g))}
     w (broadcast_to_lobby h w lobby_id exclude_id m)"
proof (cases "hm_get (w_lobbies w) lobby_id")
  case (Some lobby)
  let ?text = "message_text (h_serde h) m"
  let ?senders = "map (\<lambda>(_, c). (ci_sender c, ci_disconnect c))
      (filter (\<lambda>(i, _). i \<noteq> exclude_id) (lb_clients lobby))"
  define out where "out = (case (map_option ci_session_generation
      (Option.bind (json_sender_id (h_serde h) ?text) (hm_get (lb_clients lobby))), json_sender_id (h_serde h) ?text) of
        (Some g, Some s) \<Rightarrow> inject_session_metadata (h_serde h) ?text s g | _ \<Rightarrow> ?text)"
  have out: "broadcast_to_lobby h w lobby_id exclude_id m = deliver_all h w ?senders (Text out)"
    "out = ?text \<or> (\<exists>sid g. out = inject_session_metadata (h_serde h) ?text sid g)"
    by (simp add: broadcast_to_lobby_def Let_def Some out_def)
      (auto simp: out_def split: option.splits)
  have "fst ` set ?senders \<subseteq> member_senders w lobby_id" by (force simp: member_senders_def Some)
  then show ?thesis
    unfolding out(1) Let_def using out(2)
    by (intro only_sends_mono [OF deliver_all_only]) blast
qed (simp add: broadcast_to_lobby_def Let_def)

lemma same_registry_frames:
  assumes "same_registry w v"
  shows "own_frames h ctx cm v = own_frames h ctx cm w" "rotation_frames h cm v = rotation_frames h cm w"
    "joined_frames h req cd cm v = joined_frames h req cd cm w"
  using assms
  by (simp_all add: same_registry_def own_frames_def rotation_frames_def joined_frames_def
      member_senders_def current_players_def)

lemma send_response_one:
  "only_sends {(sender, Text (message_text (h_serde h) m))} w (send_response h w sender m)"
  unfolding send_response_def send_text_def by (rule send_message_only)

lemma announce_frames:
  "only_sends (own_frames h ctx cm w \<union> rotation_frames h cm w \<union> joined_frames h req cd cm w) w
     (snd (announce h ctx req cd cm w))"
proof -
  let ?lid = "rs_lobby_id (cm_session cm)" and ?cid = "rs_client_id (cm_session cm)"
  let ?F = "own_frames h ctx cm w \<union> rotation_frames h cm w \<union> joined_frames h req cd cm w"
  define w1 where "w1 = send_response h w (rc_sender ctx) (success_message cm)"
  define w2 where "w2 = send_response h w1 (rc_sender ctx) (PlayersList (current_players w1 ?lid (Some ?cid)))"
  define w3 where "w3 = (if cm_rotation_targets cm \<noteq> []
    then send_chat_token_rotation h w2 (cm_rotation_targets cm) ?lid (cm_chat_token cm)
      (cm_chat_token_epoch cm) else w2)"
  define w4 where "w4 = broadcast_to_lobby h w3 ?lid ?cid (joined_message req cd (cm_session cm))"
  have s1: "only_sends ?F w w1"
    unfolding w1_def by (rule only_sends_mono [OF send_response_one]) (auto simp: own_frames_def)
  have r1: "same_registry w w1" by (rule only_sends_registry [OF s1])
  then have "only_sends ?F w1 w2"
    unfolding w2_def by (intro only_sends_mono [OF send_response_one])
      (auto simp: own_frames_def same_registry_def current_players_def)
  then have s2: "only_sends ?F w w2" by (rule only_sends_trans [OF s1])
  have "only_sends (rotation_frames h cm w2) w2 w3"
    unfolding w3_def rotation_frames_def using rotation_only by simp
  then have s3: "only_sends ?F w w3"
    unfolding same_registry_frames(2) [OF only_sends_registry [OF s2]]
    using only_sends_trans [OF s2] only_sends_mono by (metis Un_upper1 Un_upper2 le_supI1)
  have "only_sends (joined_frames h req cd cm w3) w3 w4"
    unfolding w4_def joined_frames_def by (rule broadcast_frames)
  then have s4: "only_sends ?F w w4"
    unfolding same_registry_frames(3) [OF only_sends_registry [OF s3]]
    using only_sends_trans [OF s3] only_sends_mono by (metis Un_upper2)
  have "snd (announce h ctx req cd cm w) = w \<or> snd (announce h ctx req cd cm w) = w4"
    unfolding announce_def Let_def success_message_def [symmetric] joined_message_def [symmetric]
      w1_def [symmetric] w2_def [symmetric] w3_def [symmetric] w4_def [symmetric] by simp
  then show ?thesis using s4 by auto
qed

lemma announce_only:
  "only_sends {(s, m). s = rc_sender ctx \<or> s \<in> member_senders w (rs_lobby_id (cm_session cm))} w
     (snd (announce h ctx req cd cm w))"
proof (rule only_sends_mono [OF announce_frames])
  have "ci_sender c \<in> member_senders w lid"
    if "hm_get (w_lobbies w) lid = Some lobby" "hm_get (lb_clients lobby) i = Some c" for c lid lobby i
    using that by (intro lobby_client_sender [of w lid i]) (simp add: lobby_client_def)
  then show "own_frames h ctx cm w \<union> rotation_frames h cm w \<union> joined_frames h req cd cm w \<subseteq>
      {(s, m). s = rc_sender ctx \<or> s \<in> member_senders w (rs_lobby_id (cm_session cm))}"
    by (auto simp: own_frames_def rotation_frames_def joined_frames_def)
qed

section \<open>A concrete registration\<close>

text \<open>An empty server, a request to the lobby \<open>L\<close> with the password \<open>pw\<close>, and the state after it.\<close>

definition demo_empty :: World where
  "demo_empty = demo_world\<lparr>w_lobbies := [], w_client_lobby_map := []\<rparr>"

definition demo_cfg :: ServerConfig where
  "demo_cfg = from_env (\<lambda>_. None)"

definition demo_ctx :: "nat \<Rightarrow> RegistrationContext" where
  "demo_ctx n = \<lparr>rc_sender = n, rc_disconnect = n, rc_challenge = str ''c'', rc_source_ip = V4 1,
     rc_is_registered = False\<rparr>"

definition demo_request :: "string \<Rightarrow> string \<Rightarrow> string \<Rightarrow> RegistrationRequest" where
  "demo_request key ip pw =
     \<lparr>rq_entry_mode = None, rq_protocol_version = 3, rq_identity_public_key = str key,
      rq_challenge_signature = str key, rq_player_name = str ''p'', rq_virtual_ip = Some (str ip),
      rq_use_domain = None, rq_lobby_name = str ''L'', rq_lobby_password = str pw,
      rq_client_version = Some (str ''3.9.0'')\<rparr>"

definition demo_entropy :: entropy where
  "demo_entropy = \<lparr>en_salt = [1], en_token = [2], en_rotation = [3],
     en_draws = [1000000000000001]\<rparr>"

definition demo_candidate :: "string \<Rightarrow> u32 \<Rightarrow> Candidate" where
  "demo_candidate key ip =
     \<lparr>cd_client_id = str key, cd_chat_public_key = None, cd_virtual_domain = str key,
      cd_use_domain = None, cd_virtual_ip = ip,
      cd_lobby_id = generate_lobby_id demo_crypto (str ''L'')\<rparr>"

definition demo_admit ::
  "string \<Rightarrow> u32 \<Rightarrow> string \<Rightarrow> nat \<Rightarrow> World \<Rightarrow> ((refusal + Commit) \<times> World) option" where
  "demo_admit key ip pw n w =
     admit demo_crypto 0 demo_entropy (demo_ctx n) (demo_request key ''x'' pw)
       (demo_candidate key ip) w"

definition demo_one :: World where
  "demo_one = snd (the (demo_admit ''k1'' 1 ''pw'' 1 demo_empty))"

definition demo_two :: World where
  "demo_two = snd (the (demo_admit ''k2'' 2 ''pw'' 2 demo_one))"

lemma demo_admit_Some:
  assumes "is_some_and (demo_admit key ip pw n w) (\<lambda>(r, _). \<not> isl r)"
  shows "\<exists>cm. demo_admit key ip pw n w = Some (Inr cm, snd (the (demo_admit key ip pw n w)))"
proof -
  obtain r v where "demo_admit key ip pw n w = Some (r, v)" "\<not> isl r"
    using assms by (auto simp: is_some_and_def split: option.splits)
  then show ?thesis by (cases r) auto
qed

lemma demo_admit_inv:
  assumes "registry_inv demo_crypto w" "demo_admit key ip pw n w = Some (r, w')"
  shows "registry_inv demo_crypto w'"
  by (rule admit_inv [OF assms(1) _ assms(2) [unfolded demo_admit_def]])
    (simp add: demo_candidate_def demo_request_def)

lemma demo_admitted:
  "\<exists>cm. demo_admit ''k1'' 1 ''pw'' 1 demo_empty = Some (Inr cm, demo_one)"
  "\<exists>cm. demo_admit ''k2'' 2 ''pw'' 2 demo_one = Some (Inr cm, demo_two)"
proof -
  show "\<exists>cm. demo_admit ''k1'' 1 ''pw'' 1 demo_empty = Some (Inr cm, demo_one)"
    unfolding demo_one_def by (rule demo_admit_Some) code_simp
  show "\<exists>cm. demo_admit ''k2'' 2 ''pw'' 2 demo_one = Some (Inr cm, demo_two)"
    unfolding demo_two_def by (rule demo_admit_Some) code_simp
qed

lemma demo_empty_inv: "registry_inv C demo_empty"
  by (simp add: demo_empty_def registry_inv_def lobby_client_def)

lemma demo_inv: "registry_inv demo_crypto demo_one" "registry_inv demo_crypto demo_two"
proof -
  show one: "registry_inv demo_crypto demo_one"
    using demo_admitted(1) demo_admit_inv [OF demo_empty_inv] by blast
  show "registry_inv demo_crypto demo_two"
    using demo_admitted(2) demo_admit_inv [OF one] by blast
qed

section \<open>Who is refused and why\<close>

text \<open>The identity is a member of another lobby.\<close>

definition member_elsewhere :: "World \<Rightarrow> rstr \<Rightarrow> rstr \<Rightarrow> bool" where
  "member_elsewhere w cid lid \<longleftrightarrow> (\<exists>j. j \<noteq> lid \<and> lobby_client w j cid \<noteq> None)"

lemma member_elsewhere_test:
  assumes "registry_inv C w"
  shows "is_some_and (existing_client_lobby w cid) (\<lambda>e. e \<noteq> lid) \<longleftrightarrow> member_elsewhere w cid lid"
proof
  assume "is_some_and (existing_client_lobby w cid) (\<lambda>e. e \<noteq> lid)"
  then obtain e where e: "find (\<lambda>(_, lobby). hm_contains (lb_clients lobby) cid) (w_lobbies w) = Some e"
    "fst e \<noteq> lid"
    by (auto simp: existing_client_lobby_def is_some_and_def split: option.splits)
  then have "e \<in> set (w_lobbies w)" "hm_contains (lb_clients (snd e)) cid"
    by (auto simp: find_Some_iff case_prod_beta)
  then have "lobby_client w (fst e) cid \<noteq> None"
    using hm_get_Some_iff [OF registry_wf(1) [OF assms], of "fst e" "snd e"]
    by (auto simp: lobby_client_def hm_contains_def)
  with e(2) show "member_elsewhere w cid lid" by (auto simp: member_elsewhere_def)
next
  assume "member_elsewhere w cid lid"
  then show "is_some_and (existing_client_lobby w cid) (\<lambda>e. e \<noteq> lid)"
    using existing_client_lobby_free [OF assms] by (auto simp: member_elsewhere_def)
qed

lemma password_test:
  assumes "password_inv C l"
  shows "ct_eq (as_bytes (hash_lobby_password C (lb_password_salt l) pw)) (as_bytes (lb_password_hash l)) \<longleftrightarrow>
    hash_lobby_password C (lb_password_salt l) pw = lb_password_hash l"
proof -
  have "set (lb_password_hash l) \<subseteq> {..<128}"
    using assms hash_lobby_password_ascii unfolding password_inv_def by metis
  then show ?thesis
    using as_bytes_inj_ascii [OF hash_lobby_password_ascii] by (auto simp: ct_eq_iff)
qed

lemma check_password_refused:
  assumes "hm_get (w_lobbies w) lid = Some l" "password_inv C l"
    and "hash_lobby_password C (lb_password_salt l) pw \<noteq> lb_password_hash l \<or>
      fst (is_locked key now (w_failures w))"
  shows "check_password C now key lid pw w =
    (if fst (is_locked key now (w_failures w))
     then (Some (RegisterError msg_password_locked, Disconnect), w\<lparr>w_failures := prune now (w_failures w)\<rparr>)
     else (Some (RegisterError msg_password_wrong, Disconnect),
       w\<lparr>w_failures := record_failure key now (w_failures w)\<rparr>))"
proof -
  obtain b where b: "is_locked key now (w_failures w) = (b, prune now (w_failures w))"
    by (simp add: is_locked_def Let_def)
  show ?thesis
  proof (cases b)
    case False
    with assms(3) b have "hash_lobby_password C (lb_password_salt l) pw \<noteq> lb_password_hash l" by simp
    with False show ?thesis
      using assms(1) b by (simp add: check_password_def password_test [OF assms(2)] is_locked_prune
          record_failure_prune)
  qed (simp add: check_password_def b)
qed

lemma check_password_passed:
  assumes "\<And>l. hm_get (w_lobbies w) lid = Some l \<Longrightarrow> password_inv C l"
  shows "(\<exists>w1. check_password C now key lid pw w = (None, w1)) \<longleftrightarrow>
    \<not> fst (is_locked key now (w_failures w)) \<and>
    (\<forall>l. hm_get (w_lobbies w) lid = Some l \<longrightarrow>
       hash_lobby_password C (lb_password_salt l) pw = lb_password_hash l)"
  using assms
  by (auto simp: check_password_def Let_def is_locked_prune password_test split: prod.splits option.splits)

section \<open>Properties\<close>

text \<open>
  C6. A committed registration is authenticated: the connection was unregistered and speaks
  protocol 3, the client version is accepted, and the client id is the fingerprint of a public
  key that signed this connection's challenge together with the lobby name and the virtual IP.
\<close>

theorem registration_authenticated:
  assumes "handle_v3 h cfg now en ctx req w = Some (Committed s d, w')"
  shows "\<not> rc_is_registered ctx \<and> rq_protocol_version req = 3 \<and>
    (\<exists>v. rq_client_version req = Some v \<and> is_version_valid v (minimum_client_version cfg)) \<and>
    rs_lobby_id s = generate_lobby_id (h_crypto h) (rq_lobby_name req) \<and>
    (\<exists>ip der key sig.
       parse_virtual_ipv4 (rq_virtual_ip req) = Some ip \<and>
       base64_decode (h_crypto h) (trim (rq_identity_public_key req)) = Some der \<and>
       key_from_der (h_crypto h) der = Some key \<and>
       verify (h_crypto h) key
         (registration_canonical (rc_challenge ctx) (rq_lobby_name req) (show_ipv4 ip)) sig \<and>
       rs_client_id s = hex_bytes (sha256 (h_crypto h) der))"
proof -
  obtain cd cm w1 where a: "check_request (h_crypto h) cfg ctx req = Inr cd"
    "admit (h_crypto h) now en ctx req cd w = Some (Inr cm, w1)"
    "(Committed s d, w') = announce h ctx req cd cm w1"
    using handle_v3_committed [OF assms] by metis
  have s: "s = cm_session cm" using announce_session [OF a(3) [symmetric]] by auto
  note c = check_request_ok [OF a(1)] and t = admit_session [OF a(2)]
  have "\<exists>der key sig.
       base64_decode (h_crypto h) (trim (rq_identity_public_key req)) = Some der \<and>
       key_from_der (h_crypto h) der = Some key \<and>
       verify (h_crypto h) key (registration_canonical (rc_challenge ctx) (rq_lobby_name req)
         (show_ipv4 (cd_virtual_ip cd))) sig \<and>
       cd_client_id cd = hex_bytes (sha256 (h_crypto h) der)"
    using c(3) by (auto simp: verify_registration_identity_def Let_def Option.bind_eq_Some_conv
        split: if_splits)
  with c t s show ?thesis by (auto simp: SIGNALING_PROTOCOL_VERSION_def)
qed

text \<open>
  C9. A lobby's password protects it. A request to an existing lobby without its password (its
  salted hash is not the stored one), or from a source locked for that lobby, even with the
  password, is never admitted: the connection is closed and the lobbies stay as they are. What
  else happens depends on the first reason to refuse, in the order of the code: an entry that
  insists on founding, or an identity that is a member elsewhere, is refused without charging a
  failure; a locked source is told so, nothing further is charged; otherwise exactly one failure
  is recorded against this source and this lobby.
\<close>

theorem password_protects_lobby:
  assumes "registry_inv C w" "hm_get (w_lobbies w) (cd_lobby_id cd) = Some l"
    and "admit C now en ctx req cd w = Some (r, w')"
    and "key = (quota_source (rc_source_ip ctx), cd_lobby_id cd)"
    and "hash_lobby_password C (lb_password_salt l) (rq_lobby_password req) \<noteq> lb_password_hash l \<or>
      fst (is_locked key now (w_failures w))"
  shows "w_lobbies w' = w_lobbies w \<and> w_client_lobby_map w' = w_client_lobby_map w \<and>
    (if rq_entry_mode req = Some Create
     then r = Inl (RegisterError msg_lobby_taken, Disconnect) \<and> w_failures w' = w_failures w
     else if member_elsewhere w (cd_client_id cd) (cd_lobby_id cd)
     then r = Inl (RegisterError msg_identity_in_use, Disconnect) \<and> w_failures w' = w_failures w
     else if fst (is_locked key now (w_failures w))
     then r = Inl (RegisterError msg_password_locked, Disconnect) \<and>
       w_failures w' = prune now (w_failures w)
     else r = Inl (RegisterError msg_password_wrong, Disconnect) \<and>
       w_failures w' = record_failure key now (w_failures w))"
proof -
  have inv: "password_inv C l" using registry_lobby [OF assms(1,2)] by (simp add: lobby_inv_def)
  have there: "hm_contains (w_lobbies w) (cd_lobby_id cd)" by (simp add: hm_contains_def assms(2))
  have entry: "entry_error (rq_entry_mode req) True =
      (if rq_entry_mode req = Some Create then Some msg_lobby_taken else None)"
    by (simp add: entry_error_def split: option.splits LobbyEntryMode.splits)
  note adm = assms(3) [unfolded admit_def Let_def assms(4) [symmetric] entry
      member_elsewhere_test [OF assms(1)], simplified there entry simp_thms]
  have refused: "check_password C now key (cd_lobby_id cd) (rq_lobby_password req) w =
      (if fst (is_locked key now (w_failures w))
       then (Some (RegisterError msg_password_locked, Disconnect), w\<lparr>w_failures := prune now (w_failures w)\<rparr>)
       else (Some (RegisterError msg_password_wrong, Disconnect),
         w\<lparr>w_failures := record_failure key now (w_failures w)\<rparr>))"
    by (rule check_password_refused [OF assms(2) inv assms(5)])
  show ?thesis
    using adm by (auto simp: refused entry there split: if_splits)
qed

text \<open>
  C10. The member limit holds: after an admission the lobby has at most 64 members, and a newcomer
  is admitted only while the lobby stays within the limit its host has set.
\<close>

theorem admission_respects_capacity:
  assumes "registry_inv C w" "cd_lobby_id cd = generate_lobby_id C (rq_lobby_name req)"
    and "admit C now en ctx req cd w = Some (Inr cm, w')"
    and "hm_get (w_lobbies w') (cd_lobby_id cd) = Some l'"
  shows "hm_len (lb_clients l') \<le> 64 \<and>
    (\<forall>n. lb_max_players l' = Some n \<longrightarrow> lobby_client w (cd_lobby_id cd) (cd_client_id cd) = None \<longrightarrow>
       hm_len (lb_clients l') \<le> unat n)"
proof -
  let ?l = "joined_lobby C en req cd w"
  have "lobby_inv C (cd_lobby_id cd) l'"
    using registry_lobby [OF admit_inv [OF assms(1-3)] assms(4)] .
  then have cap: "hm_len (lb_clients l') \<le> 64" by (simp add: lobby_inv_def config_simps)
  obtain g w1 where a: "\<not> lobby_full ?l (cd_client_id cd)"
    "(cm, w') = enter_lobby en ctx req cd g ?l (put_lobby (cd_lobby_id cd) ?l w1)"
    using admit_committed [OF assms(3)] by metis
  have l': "l' = entered_lobby en ctx req cd g ?l"
    using enter_lobby_registry(1) [OF a(2) [symmetric]] assms(4) by (simp add: hm.get_ins)
  have "hm_len (lb_clients l') \<le> unat n"
    if "lb_max_players l' = Some n" "lobby_client w (cd_lobby_id cd) (cd_client_id cd) = None" for n
  proof (cases rule: joined_lobby_cases [of w cd C en req])
    case 1
    have wf: "hm_wf (lb_clients ?l)"
      using registry_lobby [OF assms(1) 1] by (simp add: lobby_inv_def clients_inv_def)
    have none: "hm_get (lb_clients ?l) (cd_client_id cd) = None"
      using that(2) 1 by (simp add: lobby_client_def)
    have small: "hm_len (lb_clients ?l) < 64"
      using a(1) by (simp add: lobby_full_def config_simps)
    then have "unat (of_nat (hm_len (lb_clients ?l)) :: u32) = hm_len (lb_clients ?l)"
      by (simp add: unat_of_nat)
    moreover have "\<not> n \<le> of_nat (hm_len (lb_clients ?l))"
      using a(1) that(1) none l' by (auto simp: lobby_full_def is_some_and_def hm_contains_def)
    ultimately have "hm_len (lb_clients ?l) < unat n"
      by (simp add: word_le_nat_alt)
    then show ?thesis using l' none wf by (simp add: hm.len_ins)
  next
    case 2
    then show ?thesis using that l' by (simp add: new_lobby_def Let_def)
  qed
  with cap show ?thesis by blast
qed

theorem registration_authenticated_witness:
  "\<exists>s d w'. handle_v3 demo_host demo_cfg 0 demo_entropy (demo_ctx 1)
      (demo_request ''k1'' ''10.126.126.1'' ''pw'') demo_empty = Some (Committed s d, w') \<and>
    rs_lobby_id s = generate_lobby_id demo_crypto (str ''L'')"
proof -
  let ?r = "handle_v3 demo_host demo_cfg 0 demo_entropy (demo_ctx 1)
      (demo_request ''k1'' ''10.126.126.1'' ''pw'') demo_empty"
  have "case ?r of Some (Committed s d, w') \<Rightarrow> True | _ \<Rightarrow> False" by code_simp
  then obtain s d w' where r: "?r = Some (Committed s d, w')"
    by (auto split: option.splits RegistrationOutcome.splits)
  with registration_authenticated [OF r] show ?thesis
    by (simp add: demo_host_def demo_request_def)
qed

theorem password_protects_lobby_witness:
  "\<exists>w'. demo_admit ''k2'' 2 ''wrong'' 2 demo_one =
       Some (Inl (RegisterError msg_password_wrong, Disconnect), w') \<and>
     w_lobbies w' = w_lobbies demo_one \<and>
     w_failures w' = record_failure (V4 1, generate_lobby_id demo_crypto (str ''L'')) 0 (w_failures demo_one)"
proof -
  let ?lid = "generate_lobby_id demo_crypto (str ''L'')"
  have "case demo_admit ''k2'' 2 ''wrong'' 2 demo_one of None \<Rightarrow> False | Some _ \<Rightarrow> True" by code_simp
  then obtain r w' where r: "demo_admit ''k2'' 2 ''wrong'' 2 demo_one = Some (r, w')"
    by (auto split: option.splits)
  have "is_some_and (hm_get (w_lobbies demo_one) ?lid) (\<lambda>l.
      hash_lobby_password demo_crypto (lb_password_salt l) (str ''wrong'') \<noteq> lb_password_hash l)"
    by code_simp
  then obtain l where l: "hm_get (w_lobbies demo_one) ?lid = Some l"
    "hash_lobby_password demo_crypto (lb_password_salt l) (str ''wrong'') \<noteq> lb_password_hash l"
    by (auto simp: is_some_and_def split: option.splits)
  have free: "\<not> fst (is_locked (V4 1, ?lid) 0 (w_failures demo_one))"
    "\<not> member_elsewhere demo_one (str ''k2'') ?lid"
    unfolding member_elsewhere_test [OF demo_inv(1), symmetric] by code_simp+
  have source: "quota_source (V4 1) = V4 1" by code_simp
  show ?thesis
    using password_protects_lobby [OF demo_inv(1) _ r [unfolded demo_admit_def], of l "(V4 1, ?lid)"] l r free
    by (simp add: demo_candidate_def demo_request_def demo_ctx_def source)
qed

theorem admission_respects_capacity_witness:
  "is_some_and (hm_get (w_lobbies demo_two) (generate_lobby_id demo_crypto (str ''L'')))
     (\<lambda>l. hm_len (lb_clients l) \<le> 64)"
proof -
  let ?lid = "generate_lobby_id demo_crypto (str ''L'')"
  have "hm_get (w_lobbies demo_two) ?lid \<noteq> None" by code_simp
  then obtain l where l: "hm_get (w_lobbies demo_two) ?lid = Some l" by auto
  obtain cm where "demo_admit ''k2'' 2 ''pw'' 2 demo_one = Some (Inr cm, demo_two)"
    using demo_admitted(2) ..
  then have "hm_len (lb_clients l) \<le> 64"
    using admission_respects_capacity [OF demo_inv(1), of "demo_candidate ''k2'' 2"
        "demo_request ''k2'' ''x'' ''pw''" 0 demo_entropy "demo_ctx 2" cm demo_two l] l
    by (simp add: demo_admit_def demo_candidate_def demo_request_def)
  with l show ?thesis by (simp add: is_some_and_def)
qed

text \<open>
  C11. A reconnecting identity takes its own place over: the previous connection's disconnect
  flag is raised, the entry now names the new connection, and no generation makes the previous
  socket the current session again.
\<close>

theorem session_takeover:
  assumes "admit C now en ctx req cd w = Some (Inr cm, w')"
    and "lobby_client w (cd_lobby_id cd) (cd_client_id cd) = Some old"
    and "ci_sender old \<noteq> rc_sender ctx"
  shows "w_disconnect w' (ci_disconnect old) \<and>
    is_current_session w' (cd_lobby_id cd) (cd_client_id cd) (rs_generation (cm_session cm))
      (rc_sender ctx) \<and>
    \<not> is_current_session w' (cd_lobby_id cd) (cd_client_id cd) g (ci_sender old)"
proof -
  let ?l = "joined_lobby C en req cd w"
  obtain g' w1 where a: "check_password C now (quota_source (rc_source_ip ctx), cd_lobby_id cd)
      (cd_lobby_id cd) (rq_lobby_password req) w = (None, w1)"
    "(cm, w') = enter_lobby en ctx req cd g' ?l (put_lobby (cd_lobby_id cd) ?l w1)"
    using admit_committed [OF assms(1)] by metis
  have "hm_get (lb_clients ?l) (cd_client_id cd) = Some old"
    using assms(2) by (auto simp: lobby_client_def joined_lobby_def Option.bind_eq_Some_conv)
  then have "w_disconnect w' (ci_disconnect old)"
    using a(2) by (auto simp: enter_lobby_def Let_def)
  then show ?thesis
    using admit_session(3) [OF assms(1)] assms(3) by (simp add: is_current_session_def client_info_def)
qed

theorem session_takeover_witness:
  "\<exists>w'. w_disconnect w' 1 \<and>
     \<not> is_current_session w' (generate_lobby_id demo_crypto (str ''L'')) (str ''k1'') 7 1"
proof -
  have "case demo_admit ''k1'' 1 ''pw'' 9 demo_one of Some (Inr _, _) \<Rightarrow> True | _ \<Rightarrow> False" by code_simp
  then obtain cm w' where r: "demo_admit ''k1'' 1 ''pw'' 9 demo_one = Some (Inr cm, w')"
    by (auto split: option.splits sum.splits)
  have "is_some_and (lobby_client demo_one (generate_lobby_id demo_crypto (str ''L'')) (str ''k1''))
      (\<lambda>c. ci_sender c = 1 \<and> ci_disconnect c = 1)" by code_simp
  then obtain old where old: "lobby_client demo_one (generate_lobby_id demo_crypto (str ''L''))
      (str ''k1'') = Some old" "ci_sender old = 1" "ci_disconnect old = 1"
    by (auto simp: is_some_and_def split: option.splits)
  show ?thesis
    using session_takeover [OF r [unfolded demo_admit_def], of old 7] old
    by (auto simp: demo_candidate_def demo_ctx_def)
qed

text \<open>
  C12. What follows a commit, frame by frame. A connection whose disconnect flag is raised or whose
  session is no longer the current one is sent nothing at all, and nobody else is. Otherwise
  every frame is one of these: the success message (which holds the session and the chat
  credential) or the roster, to the registering socket only; the rotated credential, only to
  members recorded at the commit that are still members on the same socket, and only while it
  is the lobby's credential; or the news of the arrival, which holds no credential, to sockets
  of members of the lobby. The registry does not change.
\<close>

theorem credentials_to_current_session:
  assumes "announce h ctx req cd cm w = (out, w')"
  shows "same_registry w w' \<and>
    (\<exists>log. w_wire w' = w_wire w @ log \<and>
       (log \<noteq> [] \<longrightarrow>
          \<not> w_disconnect w (rc_disconnect ctx) \<and>
          is_current_session w (rs_lobby_id (cm_session cm)) (rs_client_id (cm_session cm))
            (rs_generation (cm_session cm)) (rc_sender ctx)) \<and>
       frame_of ` set log \<subseteq>
         own_frames h ctx cm w \<union> rotation_frames h cm w \<union> joined_frames h req cd cm w)"
proof (cases "w_disconnect w (rc_disconnect ctx) \<or>
    \<not> is_current_session w (rs_lobby_id (cm_session cm)) (rs_client_id (cm_session cm))
      (rs_generation (cm_session cm)) (rc_sender ctx)")
  case True
  then have "w' = w" using assms by (auto simp: announce_def Let_def)
  then show ?thesis by auto
next
  case False
  obtain log where "same_registry w w'" "w_wire w' = w_wire w @ log"
    "frame_of ` set log \<subseteq> own_frames h ctx cm w \<union> rotation_frames h cm w \<union> joined_frames h req cd cm w"
    using announce_frames [of h ctx cm w req cd] assms unfolding only_sends_def by auto
  then show ?thesis using False by (intro conjI exI [of _ log]) simp_all
qed

definition demo_stale :: Commit where
  "demo_stale =
     \<lparr>cm_session = \<lparr>rs_client_id = str ''b'', rs_lobby_id = str ''L1'', rs_generation = 8\<rparr>,
      cm_chat_token = [], cm_chat_token_epoch = 1, cm_rotation_targets = [], cm_host_id = [],
      cm_max_players = None, cm_is_public = False, cm_muted = []\<rparr>"

theorem credentials_to_current_session_witness:
  "w_wire (snd (announce demo_host (demo_ctx 1) (demo_request ''k1'' ''x'' ''pw'')
     (demo_candidate ''k1'' 1) demo_stale demo_world)) = []"
proof -
  let ?r = "announce demo_host (demo_ctx 1) (demo_request ''k1'' ''x'' ''pw'')
     (demo_candidate ''k1'' 1) demo_stale demo_world"
  have "\<not> is_current_session demo_world (rs_lobby_id (cm_session demo_stale))
      (rs_client_id (cm_session demo_stale)) (rs_generation (cm_session demo_stale))
      (rc_sender (demo_ctx 1))"
    by (simp add: is_current_session_def lobby_client_def demo_stale_def demo_ctx_def)
  then show ?thesis
    using credentials_to_current_session [of demo_host "demo_ctx 1" "demo_request ''k1'' ''x'' ''pw''"
        "demo_candidate ''k1'' 1" demo_stale demo_world "fst ?r" "snd ?r"]
    by (auto simp: demo_wire)
qed

lemma handle_v3_total:
  assumes g: "random_session_generation (en_draws en) = Some g"
  shows "\<exists>out w'. handle_v3 h cfg now en ctx req w = Some (out, w')"
proof -
  have "admit (h_crypto h) now en ctx req cd w \<noteq> None" for cd
    by (auto simp: admit_def admit_member_def Let_def g split: option.splits prod.splits)
  then have ok: "\<exists>r w'. admit (h_crypto h) now en ctx req cd w = Some (r, w')" for cd
    by fastforce
  show ?thesis
  proof (cases "check_request (h_crypto h) cfg ctx req")
    case (Inl r)
    then show ?thesis by (cases r) (auto simp: handle_v3_def split: option.splits)
  next
    case (Inr cd)
    then show ?thesis
      using ok [of cd] by (auto simp: handle_v3_def split: sum.splits prod.splits)
  qed
qed

text \<open>What a request must meet to be admitted, over the state of the registry it meets.\<close>

definition admissible ::
  "crypto \<Rightarrow> instant \<Rightarrow> RegistrationContext \<Rightarrow> RegistrationRequest \<Rightarrow> Candidate \<Rightarrow> World \<Rightarrow> bool" where
  "admissible C now ctx req cd w \<longleftrightarrow>
     rq_entry_mode req \<noteq>
       Some (if hm_get (w_lobbies w) (cd_lobby_id cd) = None then Join else Create) \<and>
     \<not> member_elsewhere w (cd_client_id cd) (cd_lobby_id cd) \<and>
     \<not> fst (is_locked (quota_source (rc_source_ip ctx), cd_lobby_id cd) now (w_failures w)) \<and>
     (\<forall>l. hm_get (w_lobbies w) (cd_lobby_id cd) = Some l \<longrightarrow>
        hash_lobby_password C (lb_password_salt l) (rq_lobby_password req) = lb_password_hash l \<and>
        (\<forall>i c. hm_get (lb_clients l) i = Some c \<and> i \<noteq> cd_client_id cd \<longrightarrow>
           ci_virtual_ip c \<noteq> Some (show_ipv4 (cd_virtual_ip cd))) \<and>
        hm_len (lb_clients l) < 64 \<and>
        (\<forall>n. lb_max_players l = Some n \<and> hm_get (lb_clients l) (cd_client_id cd) = None \<longrightarrow>
           hm_len (lb_clients l) < unat n))"

lemma virtual_ip_taken_iff:
  assumes "clients_inv (lb_clients l)"
  shows "virtual_ip_taken l cid ip \<longleftrightarrow>
    (\<exists>i c. hm_get (lb_clients l) i = Some c \<and> i \<noteq> cid \<and> ci_virtual_ip c = Some (show_ipv4 ip))"
proof
  assume "virtual_ip_taken l cid ip"
  then obtain c where c: "c \<in> set (hm_values (lb_clients l))" "ci_player_id c \<noteq> cid"
    "Option.bind (ci_virtual_ip c) parse_ipv4 = Some ip"
    by (auto simp: virtual_ip_taken_def list_ex_iff)
  then obtain i where i: "hm_get (lb_clients l) i = Some c"
    using assms hm_values_get by (metis clients_inv_def)
  with assms obtain ip' where "ci_player_id c = i" "ci_virtual_ip c = Some (show_ipv4 ip')"
    unfolding clients_inv_def by blast
  with c i show "\<exists>i c. hm_get (lb_clients l) i = Some c \<and> i \<noteq> cid \<and> ci_virtual_ip c = Some (show_ipv4 ip)"
    by (auto simp: parse_show_ipv4)
qed (use virtual_ip_free [OF assms] in blast)

lemma lobby_full_iff:
  "lobby_full l cid \<longleftrightarrow> \<not> (hm_len (lb_clients l) < 64 \<and>
     (\<forall>n. lb_max_players l = Some n \<and> hm_get (lb_clients l) cid = None \<longrightarrow> hm_len (lb_clients l) < unat n))"
proof (cases "hm_len (lb_clients l) < 64")
  case True
  then have "unat (of_nat (hm_len (lb_clients l)) :: u32) = hm_len (lb_clients l)" by (simp add: unat_of_nat)
  then have le: "n \<le> of_nat (hm_len (lb_clients l)) \<longleftrightarrow> unat n \<le> hm_len (lb_clients l)" for n :: u32
    by (simp only: word_le_nat_alt)
  show ?thesis
    using True by (cases "lb_max_players l"; cases "hm_get (lb_clients l) cid")
      (simp_all add: lobby_full_def config_simps is_some_and_def hm_contains_def le not_less)
qed (simp add: lobby_full_def config_simps)

lemma admit_member_iff:
  assumes "random_session_generation (en_draws en) = Some g"
  shows "(\<exists>cm w'. admit_member C en ctx req cd w = Some (Inr cm, w')) \<longleftrightarrow>
    \<not> virtual_ip_taken (joined_lobby C en req cd w) (cd_client_id cd) (cd_virtual_ip cd) \<and>
    \<not> lobby_full (joined_lobby C en req cd w) (cd_client_id cd)"
  unfolding admit_member_def Let_def joined_lobby_def [symmetric] assms
  by (auto split: prod.splits)

lemma entry_error_iff:
  "entry_error mode (hm_contains m k) = None \<longleftrightarrow> mode \<noteq> Some (if hm_get m k = None then Join else Create)"
  by (auto simp: entry_error_def hm_contains_def split: option.splits LobbyEntryMode.splits)

lemma admit_iff:
  assumes "registry_inv C w" "random_session_generation (en_draws en) = Some g"
  shows "(\<exists>cm w'. admit C now en ctx req cd w = Some (Inr cm, w')) \<longleftrightarrow> admissible C now ctx req cd w"
proof -
  let ?lid = "cd_lobby_id cd" and ?l = "joined_lobby C en req cd w"
  let ?check = "check_password C now (quota_source (rc_source_ip ctx), ?lid) ?lid (rq_lobby_password req) w"
  have pass: "(\<exists>w1. ?check = (None, w1)) \<longleftrightarrow>
      \<not> fst (is_locked (quota_source (rc_source_ip ctx), ?lid) now (w_failures w)) \<and>
      (\<forall>l. hm_get (w_lobbies w) ?lid = Some l \<longrightarrow>
         hash_lobby_password C (lb_password_salt l) (rq_lobby_password req) = lb_password_hash l)"
    by (rule check_password_passed) (use registry_lobby [OF assms(1)] in \<open>auto simp: lobby_inv_def\<close>)
  have member: "(\<exists>cm w'. admit_member C en ctx req cd w1 = Some (Inr cm, w')) \<longleftrightarrow>
      (\<not> virtual_ip_taken ?l (cd_client_id cd) (cd_virtual_ip cd) \<and> \<not> lobby_full ?l (cd_client_id cd))"
    if "?check = (None, w1)" for w1
    using admit_member_iff [OF assms(2), of C ctx req cd w1] check_password_registry(1) [OF that]
    by (simp add: joined_lobby_def)
  have "(\<exists>cm w'. admit C now en ctx req cd w = Some (Inr cm, w')) \<longleftrightarrow>
      entry_error (rq_entry_mode req) (hm_contains (w_lobbies w) ?lid) = None \<and>
      \<not> member_elsewhere w (cd_client_id cd) ?lid \<and> (\<exists>w1. ?check = (None, w1)) \<and>
      \<not> virtual_ip_taken ?l (cd_client_id cd) (cd_virtual_ip cd) \<and> \<not> lobby_full ?l (cd_client_id cd)"
    unfolding admit_def Let_def member_elsewhere_test [OF assms(1)]
    using member by (cases ?check) (auto split: option.splits)
  also have "\<dots> \<longleftrightarrow> admissible C now ctx req cd w"
  proof (cases rule: joined_lobby_cases [of w cd C en req])
    case 1
    have "clients_inv (lb_clients ?l)" using registry_lobby [OF assms(1) 1] by (simp add: lobby_inv_def)
    from virtual_ip_taken_iff [OF this] 1 show ?thesis
      unfolding admissible_def pass entry_error_iff lobby_full_iff by auto
  next
    case 2
    then show ?thesis
      unfolding admissible_def pass entry_error_iff using new_lobby_open by auto
  qed
  finally show ?thesis .
qed

text \<open>
  C13. Who gets in is decided exactly. Whenever the registry invariant holds and the entropy has
  an acceptable draw, the handler returns, and it commits if and only if the request passes the
  checks of identity and fields and then, in the registry it finds: its entry mode fits (no
  founding of an existing lobby, no joining of an absent one), the client is a member of no other
  lobby, its source is not locked for the lobby, and, if the lobby exists, the password is right,
  no other member has the virtual IP, the lobby has fewer than 64 members (a member that
  reconnects is no exception) and, for a newcomer, fewer than the host's limit. When it does not
  commit, no lobby and no membership changes.
\<close>

theorem admission_decided:
  assumes "registry_inv (h_crypto h) w"
    and "d \<in> set (en_draws en)" "GENERATION_MIN \<le> take_bit 53 d" "take_bit 53 d \<le> GENERATION_MAX"
  shows "\<exists>out w'. handle_v3 h cfg now en ctx req w = Some (out, w') \<and>
    ((\<exists>s b. out = Committed s b) \<longleftrightarrow>
      (\<exists>cd. check_request (h_crypto h) cfg ctx req = Inr cd \<and> admissible (h_crypto h) now ctx req cd w)) \<and>
    ((\<nexists>s b. out = Committed s b) \<longrightarrow>
      w_lobbies w' = w_lobbies w \<and> w_client_lobby_map w' = w_client_lobby_map w)"
proof -
  obtain g where g: "random_session_generation (en_draws en) = Some g"
    using random_session_generation_total [OF assms(2-4)] by blast
  obtain out w' where run: "handle_v3 h cfg now en ctx req w = Some (out, w')"
    using handle_v3_total [OF g] by blast
  have resp: "w_lobbies (send_response h v x m) = w_lobbies v"
    "w_client_lobby_map (send_response h v x m) = w_client_lobby_map v" for v x m
    using only_sends_registry [OF send_response_only] by (simp_all add: same_registry_def)
  show ?thesis
  proof (cases "check_request (h_crypto h) cfg ctx req")
    case (Inl r)
    have "check_request (h_crypto h) cfg ctx req \<noteq> Inl (m, Committed s b)" for m s b
      by (auto simp: check_request_def Let_def split: if_splits option.splits prod.splits)
    then show ?thesis
      using Inl run resp by (cases r) (auto simp: handle_v3_def split: option.splits)
  next
    case (Inr cd)
    obtain r w1 where adm: "admit (h_crypto h) now en ctx req cd w = Some (r, w1)"
      using run Inr by (auto simp: handle_v3_def split: option.splits)
    show ?thesis
    proof (cases r)
      case (Inl q)
      then have "\<not> admissible (h_crypto h) now ctx req cd w"
        using adm admit_iff [OF assms(1) g, of now ctx req cd] by auto
      moreover have "snd q = Retry \<or> snd q = Disconnect"
        using admit_refusal_outcome adm Inl by (metis prod.collapse)
      ultimately show ?thesis
        using run adm Inr Inl resp admit_refused adm [unfolded Inl]
        by (cases q) (auto simp: handle_v3_def)
    next
      case (Inr cm)
      then have "admissible (h_crypto h) now ctx req cd w"
        using adm admit_iff [OF assms(1) g, of now ctx req cd] by auto
      moreover have "announce h ctx req cd cm w1 = (out, w')"
        using run adm \<open>check_request (h_crypto h) cfg ctx req = Inr cd\<close> Inr by (simp add: handle_v3_def)
      ultimately show ?thesis
        using run announce_session [of h ctx req cd cm w1 out w'] \<open>check_request (h_crypto h) cfg ctx req = Inr cd\<close>
        by (intro exI [of _ out] exI [of _ w']) auto
    qed
  qed
qed

theorem admission_decided_witness:
  "\<exists>out w'. handle_v3 demo_host demo_cfg 0 demo_entropy (demo_ctx 1)
     (demo_request ''k1'' ''10.126.126.1'' ''pw'') demo_empty = Some (out, w') \<and>
     (\<exists>s b. out = Committed s b)"
proof -
  let ?req = "demo_request ''k1'' ''10.126.126.1'' ''pw''"
  have "case check_request demo_crypto demo_cfg (demo_ctx 1) ?req of Inr cd \<Rightarrow>
      \<not> fst (is_locked (quota_source (rc_source_ip (demo_ctx 1)), cd_lobby_id cd) 0 (w_failures demo_empty))
      | _ \<Rightarrow> False" by code_simp
  then obtain cd where cd: "check_request (h_crypto demo_host) demo_cfg (demo_ctx 1) ?req = Inr cd"
    "\<not> fst (is_locked (quota_source (rc_source_ip (demo_ctx 1)), cd_lobby_id cd) 0 (w_failures demo_empty))"
    by (auto simp: demo_host_def split: sum.splits)
  then have "admissible (h_crypto demo_host) 0 (demo_ctx 1) ?req cd demo_empty"
    by (simp add: admissible_def member_elsewhere_def lobby_client_def demo_empty_def demo_request_def)
  with cd(1) show ?thesis
    using admission_decided [OF demo_empty_inv, of 1000000000000001 demo_entropy demo_host demo_cfg 0
        "demo_ctx 1" ?req]
    by (auto simp: demo_entropy_def GENERATION_MIN_def GENERATION_MAX_def)
qed

end
