(* ===== verification/Moderation.thy ===== *)
theory Moderation
  imports Registration
begin

text \<open>
  \<open>src/src/moderation.rs\<close>: the four host actions. Each is split where the code releases the
  lobby lock: the \<open>..._locked\<close> function is the locked section, the handler adds the
  notifications. A refusal leaves the state as it was and carries the dispatch result.

  The last sections state the same actions on an abstract view of a lobby and show that the
  handlers refine them.
\<close>

section \<open>Data\<close>

record ModerationSession =
  ms_client_id :: rstr
  ms_lobby_id :: rstr
  ms_session_generation :: u64
  ms_sender :: nat

datatype ModerationDispatch = NotHandled | Handled | CloseConnection

definition msg_kicked :: rstr where
  "msg_kicked =
     [20320, 24050, 34987, 25151, 20027, 31227, 20986, 22823, 21381]"

section \<open>Authorisation\<close>

definition authorize_host :: "LobbyInfo \<Rightarrow> ModerationSession \<Rightarrow> ModerationDispatch option" where
  "authorize_host lobby session =
     (let is_current = is_some_and (hm_get (lb_clients lobby) (ms_client_id session)) (\<lambda>client.
            ci_session_generation client = ms_session_generation session \<and>
            ci_sender client = ms_sender session)
      in if \<not> is_current then Some CloseConnection
         else if lb_host_id lobby \<noteq> ms_client_id session then Some Handled
         else None)"

text \<open>The lobby of the session with the caller's rights checked, or the dispatch of a refusal.\<close>

definition authorized_lobby :: "World \<Rightarrow> ModerationSession \<Rightarrow> ModerationDispatch + LobbyInfo" where
  "authorized_lobby w session =
     (case hm_get (w_lobbies w) (ms_lobby_id session) of
        None \<Rightarrow> Inl Handled
      | Some lobby \<Rightarrow>
          (case authorize_host lobby session of Some r \<Rightarrow> Inl r | None \<Rightarrow> Inr lobby))"

section \<open>Kicking a member\<close>

definition kick_locked ::
  "World \<Rightarrow> ModerationSession \<Rightarrow> bytes \<Rightarrow> rstr \<Rightarrow>
   ModerationDispatch + (ClientInfo \<times> (rstr \<times> nat) list \<times> rstr \<times> u64 \<times> World)" where
  "kick_locked w session rnd target =
     (case authorized_lobby w session of
        Inl r \<Rightarrow> Inl r
      | Inr lobby \<Rightarrow>
          if target = ms_client_id session then Inl Handled
          else case hm_get (lb_clients lobby) target of
            None \<Rightarrow> Inl Handled
          | Some removed \<Rightarrow>
              let lobby1 = lobby\<lparr>lb_clients := hm_remove target (lb_clients lobby),
                                 lb_muted := set_remove target (lb_muted lobby)\<rparr>;
                  lobby2 = rotate_chat_token rnd lobby1;
                  targets = map (\<lambda>(i, client). (i, ci_sender client)) (lb_clients lobby2);
                  w1 = put_lobby (ms_lobby_id session) lobby2 w
              in Inr (removed, targets, lb_chat_token lobby2, lb_chat_token_epoch lobby2,
                      drop_mapping target (ms_lobby_id session) w1))"

definition kick_player ::
  "host \<Rightarrow> World \<Rightarrow> ModerationSession \<Rightarrow> bytes \<Rightarrow> rstr \<Rightarrow> ModerationDispatch \<times> World" where
  "kick_player h w session rnd target =
     (case kick_locked w session rnd target of
        Inl r \<Rightarrow> (r, w)
      | Inr (removed, targets, token, epoch, w1) \<Rightarrow>
          let w2 = w1\<lparr>w_disconnect := (w_disconnect w1)(ci_disconnect removed := True)\<rparr>;
              w3 = snd (send_text h w2 (ci_sender removed) (message_text (h_serde h) (Kicked msg_kicked)));
              w4 = snd (send_message h w3 (ci_sender removed) Close);
              w5 = broadcast_to_lobby h w4 (ms_lobby_id session) target
                     (PlayerLeft target (ci_session_generation removed));
              w6 = send_chat_token_rotation h w5 targets (ms_lobby_id session) token epoch
          in (Handled, w6))"

section \<open>Muting a member\<close>

definition mute_locked ::
  "World \<Rightarrow> ModerationSession \<Rightarrow> rstr \<Rightarrow> bool \<Rightarrow> ModerationDispatch + World" where
  "mute_locked w session target muted =
     (case authorized_lobby w session of
        Inl r \<Rightarrow> Inl r
      | Inr lobby \<Rightarrow>
          if target = lb_host_id lobby \<and> muted then Inl Handled
          else if \<not> hm_contains (lb_clients lobby) target then Inl Handled
          else if muted then
            (if MAX_LOBBY_MEMBERS \<le> length (lb_muted lobby) \<and> target \<notin> set (lb_muted lobby)
             then Inl Handled
             else Inr (put_lobby (ms_lobby_id session)
                    (lobby\<lparr>lb_muted := set_insert target (lb_muted lobby)\<rparr>) w))
          else Inr (put_lobby (ms_lobby_id session)
                 (lobby\<lparr>lb_muted := set_remove target (lb_muted lobby)\<rparr>) w))"

definition mute_player ::
  "host \<Rightarrow> World \<Rightarrow> ModerationSession \<Rightarrow> rstr \<Rightarrow> bool \<Rightarrow> ModerationDispatch \<times> World" where
  "mute_player h w session target muted =
     (case mute_locked w session target muted of
        Inl r \<Rightarrow> (r, w)
      | Inr w1 \<Rightarrow>
          (Handled, broadcast_to_lobby h w1 (ms_lobby_id session) [] (PlayerMuteChanged target muted)))"

section \<open>Handing the lobby over\<close>

definition transfer_locked ::
  "World \<Rightarrow> ModerationSession \<Rightarrow> rstr \<Rightarrow> ModerationDispatch + World" where
  "transfer_locked w session target =
     (case authorized_lobby w session of
        Inl r \<Rightarrow> Inl r
      | Inr lobby \<Rightarrow>
          if \<not> hm_contains (lb_clients lobby) target then Inl Handled
          else Inr (put_lobby (ms_lobby_id session)
                 (lobby\<lparr>lb_host_id := target, lb_muted := set_remove target (lb_muted lobby)\<rparr>) w))"

definition transfer_host ::
  "host \<Rightarrow> World \<Rightarrow> ModerationSession \<Rightarrow> rstr \<Rightarrow> ModerationDispatch \<times> World" where
  "transfer_host h w session target =
     (case transfer_locked w session target of
        Inl r \<Rightarrow> (r, w)
      | Inr w1 \<Rightarrow>
          let w2 = broadcast_to_lobby h w1 (ms_lobby_id session) [] (PlayerMuteChanged target False);
              w3 = broadcast_to_lobby h w2 (ms_lobby_id session) [] (HostChanged target)
          in (Handled, w3))"

section \<open>Lobby options\<close>

definition set_options ::
  "u32 option \<Rightarrow> bool option \<Rightarrow> rstr option \<Rightarrow> rstr option \<Rightarrow> LobbyInfo \<Rightarrow> LobbyInfo" where
  "set_options max_players is_public description server_node lobby =
     (let l1 = (case max_players of
                  None \<Rightarrow> lobby
                | Some mx \<Rightarrow>
                    lobby\<lparr>lb_max_players :=
                      (if mx = 0 then None else Some (min mx (of_nat MAX_LOBBY_MEMBERS)))\<rparr>);
          l2 = (case description of
                  None \<Rightarrow> l1
                | Some d \<Rightarrow> if valid_text d 200 True then l1\<lparr>lb_description := d\<rparr> else l1);
          l3 = (case server_node of
                  None \<Rightarrow> l2
                | Some s \<Rightarrow> if valid_text s 512 False then l2\<lparr>lb_server_node := s\<rparr> else l2)
      in case is_public of
           None \<Rightarrow> l3
         | Some requested \<Rightarrow>
             l3\<lparr>lb_is_public := effective_public_setting requested (lb_is_passwordless l3)\<rparr>)"

definition options_locked ::
  "World \<Rightarrow> ModerationSession \<Rightarrow> u32 option \<Rightarrow> bool option \<Rightarrow> rstr option \<Rightarrow> rstr option \<Rightarrow>
   ModerationDispatch + (u32 option \<times> bool \<times> World)" where
  "options_locked w session max_players is_public description server_node =
     (case authorized_lobby w session of
        Inl r \<Rightarrow> Inl r
      | Inr lobby \<Rightarrow>
          let lobby1 = set_options max_players is_public description server_node lobby
          in Inr (lb_max_players lobby1, lb_is_public lobby1,
                  put_lobby (ms_lobby_id session) lobby1 w))"

definition set_lobby_options ::
  "host \<Rightarrow> World \<Rightarrow> ModerationSession \<Rightarrow> u32 option \<Rightarrow> bool option \<Rightarrow> rstr option \<Rightarrow> rstr option \<Rightarrow>
   ModerationDispatch \<times> World" where
  "set_lobby_options h w session max_players is_public description server_node =
     (case options_locked w session max_players is_public description server_node of
        Inl r \<Rightarrow> (r, w)
      | Inr (mx, public, w1) \<Rightarrow>
          (Handled, broadcast_to_lobby h w1 (ms_lobby_id session) [] (LobbyOptionsChanged mx public)))"

section \<open>Dispatch\<close>

definition moderation_from :: "SignalingMessage \<Rightarrow> rstr option" where
  "moderation_from m =
     (case m of
        KickPlayer frm _ \<Rightarrow> Some frm
      | MutePlayer frm _ _ \<Rightarrow> Some frm
      | TransferHost frm _ \<Rightarrow> Some frm
      | SetLobbyOptions frm _ _ _ _ \<Rightarrow> Some frm
      | _ \<Rightarrow> None)"

definition handle_moderation_message ::
  "host \<Rightarrow> World \<Rightarrow> bytes \<Rightarrow> SignalingMessage \<Rightarrow> ModerationSession option \<Rightarrow>
   ModerationDispatch \<times> World" where
  "handle_moderation_message h w rnd m session =
     (case moderation_from m of
        None \<Rightarrow> (NotHandled, w)
      | Some frm \<Rightarrow>
          (case session of
             None \<Rightarrow> (CloseConnection, w)
           | Some s \<Rightarrow>
               if frm \<noteq> ms_client_id s then (Handled, w)
               else if hm_get (w_client_lobby_map w) (ms_client_id s) \<noteq> Some (ms_lobby_id s)
               then (Handled, w)
               else case m of
                 KickPlayer _ target \<Rightarrow> kick_player h w s rnd target
               | MutePlayer _ target muted \<Rightarrow> mute_player h w s target muted
               | TransferHost _ target \<Rightarrow> transfer_host h w s target
               | SetLobbyOptions _ max_players is_public description server_node \<Rightarrow>
                   set_lobby_options h w s max_players is_public description server_node
               | _ \<Rightarrow> (NotHandled, w)))"

section \<open>The locked sections keep the registry\<close>

lemma authorized_lobby_Inr:
  assumes "authorized_lobby w s = Inr l"
  shows "hm_get (w_lobbies w) (ms_lobby_id s) = Some l" "lb_host_id l = ms_client_id s"
    "is_current_session w (ms_lobby_id s) (ms_client_id s) (ms_session_generation s) (ms_sender s)"
  using assms
  by (auto simp: authorized_lobby_def authorize_host_def Let_def is_some_and_def lobby_client_def
      is_current_session_def split: option.splits if_splits)

lemma kick_locked_Inr:
  assumes "kick_locked w s rnd target = Inr (removed, targets, token, epoch, w')"
  obtains l where "authorized_lobby w s = Inr l" "target \<noteq> ms_client_id s"
    "hm_get (lb_clients l) target = Some removed"
    "w' = drop_mapping target (ms_lobby_id s) (put_lobby (ms_lobby_id s)
       (rotate_chat_token rnd (l\<lparr>lb_clients := hm_remove target (lb_clients l),
          lb_muted := set_remove target (lb_muted l)\<rparr>)) w)"
  using assms by (auto simp: kick_locked_def Let_def split: sum.splits if_splits option.splits)

lemma kick_locked_inv:
  assumes "registry_inv C w" "kick_locked w s rnd target = Inr (removed, targets, token, epoch, w')"
  shows "registry_inv C w'"
proof -
  obtain l where l: "authorized_lobby w s = Inr l" "target \<noteq> ms_client_id s"
    "hm_get (lb_clients l) target = Some removed"
    and w': "w' = drop_mapping target (ms_lobby_id s) (put_lobby (ms_lobby_id s)
       (rotate_chat_token rnd (l\<lparr>lb_clients := hm_remove target (lb_clients l),
          lb_muted := set_remove target (lb_muted l)\<rparr>)) w)"
    using kick_locked_Inr [OF assms(2)] by metis
  note a = authorized_lobby_Inr [OF l(1)]
  have inv: "lobby_inv C (ms_lobby_id s) l" using registry_lobby [OF assms(1) a(1)] .
  show ?thesis
    unfolding w'
    by (rule registry_inv_remove [OF assms(1) a(1)], simp add: hm_contains_def l(3),
        rule lobby_inv_remove [OF inv])
      (use inv l a in \<open>auto simp: hm_contains_def rotate_epoch lobby_inv_def hm.get_del\<close>)
qed

lemma mute_locked_inv:
  assumes "registry_inv C w" "mute_locked w s target muted = Inr w'"
  shows "registry_inv C w'"
proof -
  obtain l where l: "authorized_lobby w s = Inr l" "hm_contains (lb_clients l) target"
    "\<not> (target = lb_host_id l \<and> muted)"
    "w' = put_lobby (ms_lobby_id s) (l\<lparr>lb_muted :=
       (if muted then set_insert target (lb_muted l) else set_remove target (lb_muted l))\<rparr>) w"
    using assms(2) by (auto simp: mute_locked_def split: sum.splits if_splits)
  note a = authorized_lobby_Inr [OF l(1)]
  have inv: "lobby_inv C (ms_lobby_id s) l" using registry_lobby [OF assms(1) a(1)] .
  show ?thesis
    unfolding l(4)
    by (rule registry_inv_edit [OF assms(1) a(1)])
      (use inv l in \<open>auto simp: lobby_inv_def password_inv_def\<close>)
qed

lemma transfer_locked_inv:
  assumes "registry_inv C w" "transfer_locked w s target = Inr w'"
  shows "registry_inv C w'"
proof -
  obtain l where l: "authorized_lobby w s = Inr l" "hm_contains (lb_clients l) target"
    "w' = put_lobby (ms_lobby_id s)
       (l\<lparr>lb_host_id := target, lb_muted := set_remove target (lb_muted l)\<rparr>) w"
    using assms(2) by (auto simp: transfer_locked_def split: sum.splits if_splits)
  note a = authorized_lobby_Inr [OF l(1)]
  have inv: "lobby_inv C (ms_lobby_id s) l" using registry_lobby [OF assms(1) a(1)] .
  show ?thesis
    unfolding l(3)
    by (rule registry_inv_edit [OF assms(1) a(1)])
      (use inv l in \<open>auto simp: lobby_inv_def password_inv_def\<close>)
qed

lemma set_options_simps [simp]:
  "lb_clients (set_options mx p d n l) = lb_clients l"
  "lb_lobby_name (set_options mx p d n l) = lb_lobby_name l"
  "lb_host_id (set_options mx p d n l) = lb_host_id l"
  "lb_muted (set_options mx p d n l) = lb_muted l"
  "lb_is_passwordless (set_options mx p d n l) = lb_is_passwordless l"
  "lb_password_hash (set_options mx p d n l) = lb_password_hash l"
  "lb_password_salt (set_options mx p d n l) = lb_password_salt l"
  "lb_chat_token (set_options mx p d n l) = lb_chat_token l"
  "lb_chat_token_epoch (set_options mx p d n l) = lb_chat_token_epoch l"
  by (simp_all add: set_options_def Let_def split: option.splits)

lemma set_options_public:
  "lb_is_public (set_options mx p d n l) =
     (case p of None \<Rightarrow> lb_is_public l | Some b \<Rightarrow> b \<and> lb_is_passwordless l)"
  by (simp add: set_options_def Let_def effective_public_setting_def split: option.splits)

lemma set_options_max:
  "lb_max_players (set_options mx p d n l) =
     (case mx of None \<Rightarrow> lb_max_players l | Some m \<Rightarrow> if m = 0 then None else Some (min m 64))"
  by (simp add: set_options_def Let_def config_simps split: option.splits)

lemma unat_ge_1: "1 \<le> unat x \<longleftrightarrow> x \<noteq> 0"
  by (simp add: Suc_le_eq unat_gt_0)

lemma unat_min_64: "unat (min x 64) = min (unat x) 64" for x :: u32
  by (simp add: min_def word_le_nat_alt)

lemma min_nonzero: "x \<noteq> 0 \<Longrightarrow> min x 64 \<noteq> (0 :: u32)"
  by (simp add: min_def)

lemma lobby_inv_options:
  assumes "lobby_inv C lid l"
  shows "lobby_inv C lid (set_options mx p d n l)"
proof -
  have "1 \<le> unat k \<and> unat k \<le> 64" if "lb_max_players (set_options mx p d n l) = Some k" for k
    using that assms
    by (auto simp only: set_options_max lobby_inv_def config_simps unat_ge_1 unat_min_64
        split: option.splits if_splits dest: min_nonzero)
  then show ?thesis
    using assms
    by (auto simp: lobby_inv_def password_inv_def set_options_public config_simps split: option.splits)
qed

lemma options_locked_inv:
  assumes "registry_inv C w" "options_locked w s mx p d n = Inr (mx', p', w')"
  shows "registry_inv C w'"
proof -
  obtain l where l: "authorized_lobby w s = Inr l"
    "w' = put_lobby (ms_lobby_id s) (set_options mx p d n l) w"
    using assms(2) by (auto simp: options_locked_def Let_def split: sum.splits)
  note a = authorized_lobby_Inr [OF l(1)]
  show ?thesis
    unfolding l(2)
    by (rule registry_inv_edit [OF assms(1) a(1)])
      (use registry_lobby [OF assms(1) a(1)] lobby_inv_options in auto)
qed

section \<open>Notifications\<close>

lemma send_keeps_registry:
  "same_registry w (snd (send_message h w sender m))" "same_registry w (snd (send_text h w sender t))"
  "same_registry w (snd (send_to_lobby_client h w lid i m))"
  "same_registry w (broadcast_to_lobby h w lid ex msg)"
  "same_registry w (send_chat_token_rotation h w targets lid token epoch)"
  unfolding send_text_def
  by (rule only_sends_registry [OF send_message_only] only_sends_registry [OF broadcast_only]
      only_sends_registry [OF send_to_lobby_client_only] only_sends_registry [OF rotation_only])+

lemma same_registry_disconnect: "same_registry w (w\<lparr>w_disconnect := d\<rparr>)"
  by (simp add: same_registry_def)

lemmas keeps_registry = send_keeps_registry same_registry_disconnect

lemma kick_player_registry:
  "kick_locked w s rnd target = Inr (removed, targets, token, epoch, w1) \<Longrightarrow>
   same_registry w1 (snd (kick_player h w s rnd target))"
  by (auto simp: kick_player_def Let_def
      intro!: keeps_registry same_registry_trans [OF _ send_keeps_registry(5)]
        same_registry_trans [OF _ send_keeps_registry(4)]
        same_registry_trans [OF _ send_keeps_registry(1)]
        same_registry_trans [OF _ send_keeps_registry(2)])

lemma transfer_host_registry:
  "transfer_locked w s target = Inr w1 \<Longrightarrow> same_registry w1 (snd (transfer_host h w s target))"
  by (auto simp: transfer_host_def Let_def
      intro!: same_registry_trans [OF _ send_keeps_registry(4)] send_keeps_registry)

lemma mute_player_registry:
  "mute_locked w s target muted = Inr w1 \<Longrightarrow> same_registry w1 (snd (mute_player h w s target muted))"
  by (auto simp: mute_player_def intro: send_keeps_registry)

lemma set_lobby_options_registry:
  "options_locked w s mx p d n = Inr (mx', p', w1) \<Longrightarrow>
   same_registry w1 (snd (set_lobby_options h w s mx p d n))"
  by (auto simp: set_lobby_options_def intro: send_keeps_registry)

lemma moderation_unauthorized:
  assumes "authorized_lobby w s = Inl r"
  shows "snd (kick_player h w s rnd target) = w" "snd (mute_player h w s target muted) = w"
    "snd (transfer_host h w s target) = w" "snd (set_lobby_options h w s mx p d n) = w"
  using assms
  by (simp_all add: kick_player_def kick_locked_def mute_player_def mute_locked_def
      transfer_host_def transfer_locked_def set_lobby_options_def options_locked_def)

lemma handle_moderation_cases:
  assumes "moderation_from m = Some frm"
    and "ms_client_id s = frm" "hm_get (w_client_lobby_map w) (ms_client_id s) = Some (ms_lobby_id s)"
  obtains target where "m = KickPlayer frm target"
    "handle_moderation_message h w rnd m (Some s) = kick_player h w s rnd target"
  | target muted where "m = MutePlayer frm target muted"
    "handle_moderation_message h w rnd m (Some s) = mute_player h w s target muted"
  | target where "m = TransferHost frm target"
    "handle_moderation_message h w rnd m (Some s) = transfer_host h w s target"
  | mx p d n where "m = SetLobbyOptions frm mx p d n"
    "handle_moderation_message h w rnd m (Some s) = set_lobby_options h w s mx p d n"
  using assms
  by (cases m) (simp_all add: handle_moderation_message_def moderation_from_def)

lemma handle_moderation_refused:
  assumes "snd (handle_moderation_message h w rnd m session) \<noteq> w"
  obtains s where "session = Some s" "moderation_from m = Some (ms_client_id s)"
    "hm_get (w_client_lobby_map w) (ms_client_id s) = Some (ms_lobby_id s)"
  using assms
  by (auto simp: handle_moderation_message_def split: option.splits if_splits)

lemma handle_moderation_inv:
  assumes "registry_inv C w"
  shows "registry_inv C (snd (handle_moderation_message h w rnd m session))"
proof (cases "snd (handle_moderation_message h w rnd m session) = w")
  case False
  then obtain s where s: "session = Some s" "moderation_from m = Some (ms_client_id s)"
    "hm_get (w_client_lobby_map w) (ms_client_id s) = Some (ms_lobby_id s)"
    using handle_moderation_refused by metis
  have step: "registry_inv C (snd r)"
    if "r = kick_player h w s rnd target \<or> r = mute_player h w s target muted \<or>
      r = transfer_host h w s target \<or> r = set_lobby_options h w s mx p d n"
    for r target muted mx p d n
    using that
  proof (elim disjE)
    show "r = kick_player h w s rnd target \<Longrightarrow> registry_inv C (snd r)"
      using kick_locked_inv [OF assms] kick_player_registry registry_inv_same assms
      by (cases "kick_locked w s rnd target") (auto simp: kick_player_def, fastforce)
    show "r = mute_player h w s target muted \<Longrightarrow> registry_inv C (snd r)"
      using mute_locked_inv [OF assms] mute_player_registry registry_inv_same assms
      by (cases "mute_locked w s target muted") (auto simp: mute_player_def, fastforce)
    show "r = transfer_host h w s target \<Longrightarrow> registry_inv C (snd r)"
      using transfer_locked_inv [OF assms] transfer_host_registry registry_inv_same assms
      by (cases "transfer_locked w s target") (auto simp: transfer_host_def, fastforce)
    show "r = set_lobby_options h w s mx p d n \<Longrightarrow> registry_inv C (snd r)"
      using options_locked_inv [OF assms] set_lobby_options_registry registry_inv_same assms
      by (cases "options_locked w s mx p d n") (auto simp: set_lobby_options_def, fastforce)
  qed
  show ?thesis
    unfolding s(1)
    by (rule handle_moderation_cases [OF s(2) refl s(3), of h rnd]) (auto intro: step)
qed (use assms in simp)

section \<open>The abstract lobby\<close>

text \<open>
  What the members of a lobby can observe of it: who is in it, who hosts, who is muted, the
  limit, whether it is listed, and its credential with the number of it. The host's actions are
  plain set operations on this view; \<open>token\<close> is the credential drawn for the action, which only
  a removal uses.
\<close>

record lobby_view =
  v_members :: "rstr set"
  v_host :: rstr
  v_muted :: "rstr set"
  v_limit :: "u32 option"
  v_listed :: bool
  v_open :: bool
  v_token :: rstr
  v_epoch :: nat

definition lobby_abs :: "LobbyInfo \<Rightarrow> lobby_view" where
  "lobby_abs l =
     \<lparr>v_members = {i. hm_contains (lb_clients l) i}, v_host = lb_host_id l,
      v_muted = set (lb_muted l), v_limit = lb_max_players l, v_listed = lb_is_public l,
      v_open = lb_is_passwordless l, v_token = lb_chat_token l,
      v_epoch = unat (lb_chat_token_epoch l)\<rparr>"

definition view :: "World \<Rightarrow> rstr \<Rightarrow> lobby_view option" where
  "view w lid = map_option lobby_abs (hm_get (w_lobbies w) lid)"

definition spec_rotate :: "rstr \<Rightarrow> lobby_view \<Rightarrow> lobby_view" where
  "spec_rotate token v = v\<lparr>v_token := token, v_epoch := min (v_epoch v + 1) (2 ^ 64 - 1)\<rparr>"

definition spec_remove :: "rstr \<Rightarrow> rstr \<Rightarrow> lobby_view \<Rightarrow> lobby_view" where
  "spec_remove token i v =
     spec_rotate token (v\<lparr>v_members := v_members v - {i}, v_muted := v_muted v - {i}\<rparr>)"

definition spec_moderate :: "rstr \<Rightarrow> SignalingMessage \<Rightarrow> lobby_view \<Rightarrow> lobby_view" where
  "spec_moderate token m v =
     (case m of
        KickPlayer _ target \<Rightarrow>
          if target \<in> v_members v \<and> target \<noteq> v_host v then spec_remove token target v else v
      | MutePlayer _ target muted \<Rightarrow>
          if target \<notin> v_members v \<or> target = v_host v then v
          else v\<lparr>v_muted := (if muted then insert target (v_muted v) else v_muted v - {target})\<rparr>
      | TransferHost _ target \<Rightarrow>
          if target \<in> v_members v
          then v\<lparr>v_host := target, v_muted := v_muted v - {target}\<rparr> else v
      | SetLobbyOptions _ limit listed _ _ \<Rightarrow>
          v\<lparr>v_limit := (case limit of
               None \<Rightarrow> v_limit v | Some n \<Rightarrow> if n = 0 then None else Some (min n 64)),
            v_listed := (case listed of None \<Rightarrow> v_listed v | Some b \<Rightarrow> b \<and> v_open v)\<rparr>
      | _ \<Rightarrow> v)"

lemma view_same: "same_registry w w' \<Longrightarrow> view w' = view w"
  by (simp add: view_def same_registry_def fun_eq_iff)

lemma view_put: "view (put_lobby lid l w) = (view w)(lid := Some (lobby_abs l))"
  by (simp add: view_def fun_eq_iff hm.get_ins)

lemma view_drop_mapping [simp]: "view (drop_mapping i lid w) = view w"
  by (simp add: view_def fun_eq_iff)

lemma lobby_abs_rotate: "lobby_abs (rotate_chat_token rnd l) =
    spec_rotate (generate_chat_token rnd) (lobby_abs l)"
  by (simp add: lobby_abs_def spec_rotate_def rotate_epoch generate_chat_token_def)

lemma contains_remove: "hm_contains (hm_remove i m) j \<longleftrightarrow> hm_contains m j \<and> j \<noteq> i"
  by (simp add: hm_contains_def hm.get_del)

lemma lobby_abs_remove:
  "lobby_abs (l\<lparr>lb_clients := hm_remove i (lb_clients l), lb_muted := set_remove i (lb_muted l)\<rparr>) =
     (lobby_abs l)\<lparr>v_members := v_members (lobby_abs l) - {i}, v_muted := v_muted (lobby_abs l) - {i}\<rparr>"
  by (auto simp: lobby_abs_def contains_remove)

lemma muted_below_limit:
  assumes "lobby_inv C lid l"
  shows "length (lb_muted l) < MAX_LOBBY_MEMBERS"
proof -
  have sub: "insert (lb_host_id l) (set (lb_muted l)) \<subseteq> set (hm_keys (lb_clients l))"
    using assms by (auto simp: lobby_inv_def hm_contains_iff)
  have "card (insert (lb_host_id l) (set (lb_muted l))) = Suc (length (lb_muted l))"
    using assms by (simp add: lobby_inv_def distinct_card)
  moreover have "card (set (hm_keys (lb_clients l))) \<le> hm_len (lb_clients l)"
    using card_length [of "hm_keys (lb_clients l)"] by (simp add: hm_keys_def hm_len_def)
  ultimately have "Suc (length (lb_muted l)) \<le> hm_len (lb_clients l)"
    using card_mono [OF _ sub] by simp
  then show ?thesis using assms by (simp add: lobby_inv_def)
qed

lemma view_authorized:
  "authorized_lobby w s = Inr l \<Longrightarrow> (view w)(ms_lobby_id s := Some (lobby_abs l)) = view w"
  using authorized_lobby_Inr(1) by (auto simp: view_def fun_eq_iff)

lemma kick_view:
  assumes l: "authorized_lobby w s = Inr l"
  shows "view (snd (kick_player h w s rnd target)) = (view w)(ms_lobby_id s :=
      Some (spec_moderate (generate_chat_token rnd) (KickPlayer frm target) (lobby_abs l)))"
proof (cases "kick_locked w s rnd target")
  case (Inl r)
  then have "target = ms_client_id s \<or> \<not> hm_contains (lb_clients l) target"
    using l by (auto simp: kick_locked_def Let_def hm_contains_def split: option.splits if_splits)
  then have "spec_moderate token (KickPlayer frm target) (lobby_abs l) = lobby_abs l" for token
    using authorized_lobby_Inr(2) [OF l] by (auto simp: spec_moderate_def lobby_abs_def)
  then show ?thesis
    using Inl view_authorized [OF l] by (simp add: kick_player_def)
next
  case (Inr r)
  then obtain removed targets token epoch w1
    where k: "kick_locked w s rnd target = Inr (removed, targets, token, epoch, w1)"
    by (cases r) auto
  obtain l' where l': "authorized_lobby w s = Inr l'" "target \<noteq> ms_client_id s"
    "hm_get (lb_clients l') target = Some removed"
    "w1 = drop_mapping target (ms_lobby_id s) (put_lobby (ms_lobby_id s)
       (rotate_chat_token rnd (l'\<lparr>lb_clients := hm_remove target (lb_clients l'),
          lb_muted := set_remove target (lb_muted l')\<rparr>)) w)"
    using kick_locked_Inr [OF k] by metis
  have [simp]: "l' = l" using l l'(1) by simp
  have "spec_moderate token (KickPlayer frm target) (lobby_abs l) =
      spec_remove token target (lobby_abs l)" for token
    using l' authorized_lobby_Inr(2) [OF l]
    by (simp add: spec_moderate_def lobby_abs_def hm_contains_def)
  then show ?thesis
    using view_same [OF kick_player_registry [OF k]]
    by (simp add: l'(4) view_put lobby_abs_rotate lobby_abs_remove spec_remove_def)
qed

lemma mute_view:
  assumes inv: "registry_inv C w" and l: "authorized_lobby w s = Inr l"
  shows "view (snd (mute_player h w s target muted)) = (view w)(ms_lobby_id s :=
      Some (spec_moderate token (MutePlayer frm target muted) (lobby_abs l)))"
proof -
  have linv: "lobby_inv C (ms_lobby_id s) l"
    using registry_lobby [OF inv authorized_lobby_Inr(1) [OF l]] .
  show ?thesis
  proof (cases "mute_locked w s target muted")
    case (Inl r)
    then have "target = lb_host_id l \<and> muted \<or> \<not> hm_contains (lb_clients l) target"
      using l muted_below_limit [OF linv] by (auto simp: mute_locked_def split: if_splits)
    then have "spec_moderate token (MutePlayer frm target muted) (lobby_abs l) = lobby_abs l"
      by (auto simp: spec_moderate_def lobby_abs_def)
    then show ?thesis using Inl view_authorized [OF l] by (simp add: mute_player_def)
  next
    case (Inr w1)
    then have c: "hm_contains (lb_clients l) target" "\<not> (target = lb_host_id l \<and> muted)"
      and w1: "w1 = put_lobby (ms_lobby_id s) (l\<lparr>lb_muted :=
         (if muted then set_insert target (lb_muted l) else set_remove target (lb_muted l))\<rparr>) w"
      using l by (auto simp: mute_locked_def split: if_splits)
    have "target = lb_host_id l \<Longrightarrow> target \<notin> set (lb_muted l)"
      using linv by (simp add: lobby_inv_def)
    then have "lobby_abs (l\<lparr>lb_muted :=
         (if muted then set_insert target (lb_muted l) else set_remove target (lb_muted l))\<rparr>) =
        spec_moderate token (MutePlayer frm target muted) (lobby_abs l)"
      using c by (auto simp: spec_moderate_def lobby_abs_def)
    then show ?thesis
      using view_same [OF mute_player_registry [OF Inr]] by (simp add: w1 view_put)
  qed
qed

lemma transfer_view:
  assumes l: "authorized_lobby w s = Inr l"
  shows "view (snd (transfer_host h w s target)) = (view w)(ms_lobby_id s :=
      Some (spec_moderate token (TransferHost frm target) (lobby_abs l)))"
proof (cases "transfer_locked w s target")
  case (Inl r)
  then have "\<not> hm_contains (lb_clients l) target"
    using l by (auto simp: transfer_locked_def split: if_splits)
  then show ?thesis
    using Inl view_authorized [OF l] by (simp add: transfer_host_def spec_moderate_def lobby_abs_def)
next
  case (Inr w1)
  then have "hm_contains (lb_clients l) target"
    "w1 = put_lobby (ms_lobby_id s)
      (l\<lparr>lb_host_id := target, lb_muted := set_remove target (lb_muted l)\<rparr>) w"
    using l by (auto simp: transfer_locked_def split: if_splits)
  then show ?thesis
    using view_same [OF transfer_host_registry [OF Inr]]
    by (simp add: view_put spec_moderate_def lobby_abs_def)
qed

lemma options_view:
  assumes l: "authorized_lobby w s = Inr l"
  shows "view (snd (set_lobby_options h w s mx p d n)) = (view w)(ms_lobby_id s :=
      Some (spec_moderate token (SetLobbyOptions frm mx p d n) (lobby_abs l)))"
proof -
  have o: "options_locked w s mx p d n = Inr (lb_max_players (set_options mx p d n l),
      lb_is_public (set_options mx p d n l), put_lobby (ms_lobby_id s) (set_options mx p d n l) w)"
    using l by (simp add: options_locked_def Let_def)
  show ?thesis
    using view_same [OF set_lobby_options_registry [OF o]]
    by (cases mx; cases p)
      (simp_all add: view_put spec_moderate_def lobby_abs_def set_options_public set_options_max)
qed

section \<open>Properties\<close>

text \<open>
  C7. Only the current session of the host moderates: a moderation message that changes
  anything at all (registry, sockets, flags) came from a registered connection, under its own
  name, whose session is the current one of its lobby and whose client hosts that lobby.
\<close>

theorem moderation_needs_host:
  assumes "handle_moderation_message h w rnd m session = (d, w')" "w' \<noteq> w"
  shows "\<exists>s l. session = Some s \<and> moderation_from m = Some (ms_client_id s) \<and>
    hm_get (w_lobbies w) (ms_lobby_id s) = Some l \<and> lb_host_id l = ms_client_id s \<and>
    is_current_session w (ms_lobby_id s) (ms_client_id s) (ms_session_generation s) (ms_sender s)"
proof -
  have ne: "snd (handle_moderation_message h w rnd m session) \<noteq> w" using assms by simp
  obtain s where s: "session = Some s" "moderation_from m = Some (ms_client_id s)"
    "hm_get (w_client_lobby_map w) (ms_client_id s) = Some (ms_lobby_id s)"
    using handle_moderation_refused [OF ne] by metis
  have "snd (handle_moderation_message h w rnd m (Some s)) = w" if "authorized_lobby w s = Inl r" for r
    by (rule handle_moderation_cases [OF s(2) refl s(3), of h rnd])
      (simp_all add: moderation_unauthorized [OF that])
  then obtain l where l: "authorized_lobby w s = Inr l"
    using ne s(1) by (cases "authorized_lobby w s") auto
  then show ?thesis using authorized_lobby_Inr [OF l] s by blast
qed

text \<open>
  C8. The host's actions refine their abstract meaning: for the authorised host, each message
  changes the view of the host's lobby exactly as \<open>spec_moderate\<close> says (a kick removes the
  member and its mute and replaces the credential by the hex form of the random bytes drawn for
  it, with the next number; a mute toggles one name; a transfer changes the host and unmutes it;
  the options set limit and listing; none of those three touches the credential) and leaves
  every other lobby alone. Different random bytes give different credentials
  (\<open>chat_token_inj\<close>).
\<close>

theorem moderation_refines_spec:
  assumes "registry_inv C w" "moderation_from m = Some (ms_client_id s)"
    and "hm_get (w_lobbies w) (ms_lobby_id s) = Some l" "lb_host_id l = ms_client_id s"
    and "is_current_session w (ms_lobby_id s) (ms_client_id s) (ms_session_generation s) (ms_sender s)"
  shows "view (snd (handle_moderation_message h w rnd m (Some s))) =
    (view w)(ms_lobby_id s :=
      Some (spec_moderate (generate_chat_token rnd) m (lobby_abs l)))"
proof -
  have l: "authorized_lobby w s = Inr l"
    using assms(3-5) by (auto simp: authorized_lobby_def authorize_host_def is_current_session_def
        lobby_client_def is_some_and_def split: option.splits)
  have "lobby_client w (ms_lobby_id s) (ms_client_id s) \<noteq> None"
    using assms(5) by (auto simp: is_current_session_def split: option.splits)
  then have map: "hm_get (w_client_lobby_map w) (ms_client_id s) = Some (ms_lobby_id s)"
    using assms(1) by (simp add: registry_inv_def)
  show ?thesis
    by (rule handle_moderation_cases [OF assms(2) refl map, of h rnd])
      (simp_all add: kick_view [OF l] mute_view [OF assms(1) l] transfer_view [OF l] options_view [OF l])
qed

text \<open>
  A lobby with a password is never listed: whatever the host requests, a listed lobby is one
  that was created with the empty password, and its limit is between 1 and 64.
\<close>

lemma listed_lobbies_open:
  assumes "registry_inv C w"
    and "hm_get (w_lobbies (snd (handle_moderation_message h w rnd m session))) lid = Some l"
    and "lb_is_public l"
  shows "lb_password_hash l = hash_lobby_password C (lb_password_salt l) [] \<and>
    (\<forall>n. lb_max_players l = Some n \<longrightarrow> 1 \<le> unat n \<and> unat n \<le> 64)"
  using registry_lobby [OF handle_moderation_inv [OF assms(1)] assms(2)] assms(3)
  by (auto simp: lobby_inv_def password_inv_def config_simps)

section \<open>Concrete runs\<close>

text \<open>The founder \<open>k1\<close> of the demonstration lobby, and the kick of \<open>k2\<close>.\<close>

definition demo_session :: ModerationSession where
  "demo_session = \<lparr>ms_client_id = str ''k1'', ms_lobby_id = generate_lobby_id demo_crypto (str ''L''),
     ms_session_generation = 1000000000000001, ms_sender = 1\<rparr>"

definition demo_kicked :: World where
  "demo_kicked = snd (handle_moderation_message demo_host demo_two [9]
     (KickPlayer (str ''k1'') (str ''k2'')) (Some demo_session))"

lemma demo_authorized:
  "\<exists>l. hm_get (w_lobbies demo_two) (ms_lobby_id demo_session) = Some l \<and>
     lb_host_id l = ms_client_id demo_session \<and> \<not> lb_is_public l"
  "is_current_session demo_two (ms_lobby_id demo_session) (ms_client_id demo_session)
     (ms_session_generation demo_session) (ms_sender demo_session)"
proof -
  have "is_some_and (hm_get (w_lobbies demo_two) (ms_lobby_id demo_session))
      (\<lambda>l. lb_host_id l = ms_client_id demo_session \<and> \<not> lb_is_public l)" by code_simp
  then show "\<exists>l. hm_get (w_lobbies demo_two) (ms_lobby_id demo_session) = Some l \<and>
      lb_host_id l = ms_client_id demo_session \<and> \<not> lb_is_public l"
    by (auto simp: is_some_and_def split: option.splits)
  show "is_current_session demo_two (ms_lobby_id demo_session) (ms_client_id demo_session)
     (ms_session_generation demo_session) (ms_sender demo_session)" by code_simp
qed

lemma demo_kick_changes: "demo_kicked \<noteq> demo_two"
proof -
  let ?lid = "generate_lobby_id demo_crypto (str ''L'')"
  have old: "hm_contains (w_client_lobby_map demo_two) (str ''k2'') \<and>
      hm_get (w_client_lobby_map demo_two) (str ''k1'') = Some ?lid" by code_simp
  have "case kick_locked demo_two demo_session [9] (str ''k2'') of
      Inr (_, _, _, _, w1) \<Rightarrow> \<not> hm_contains (w_client_lobby_map w1) (str ''k2'') | _ \<Rightarrow> False"
    by code_simp
  then obtain a b c d w1 where k: "kick_locked demo_two demo_session [9] (str ''k2'') = Inr (a, b, c, d, w1)"
    "\<not> hm_contains (w_client_lobby_map w1) (str ''k2'')" by (auto split: sum.splits)
  have "demo_kicked = snd (kick_player demo_host demo_two demo_session [9] (str ''k2''))"
    using old by (simp add: demo_kicked_def handle_moderation_message_def moderation_from_def demo_session_def)
  then have "w_client_lobby_map demo_kicked = w_client_lobby_map w1"
    using kick_player_registry [OF k(1), of demo_host] by (simp add: same_registry_def)
  then show ?thesis using old k(2) by metis
qed

theorem moderation_needs_host_witness:
  "is_current_session demo_two (generate_lobby_id demo_crypto (str ''L'')) (str ''k1'')
     1000000000000001 1"
proof -
  have "\<exists>s l. Some demo_session = Some s \<and>
      moderation_from (KickPlayer (str ''k1'') (str ''k2'')) = Some (ms_client_id s) \<and>
      hm_get (w_lobbies demo_two) (ms_lobby_id s) = Some l \<and> lb_host_id l = ms_client_id s \<and>
      is_current_session demo_two (ms_lobby_id s) (ms_client_id s) (ms_session_generation s) (ms_sender s)"
    by (intro moderation_needs_host [of demo_host demo_two "[9]" "KickPlayer (str ''k1'') (str ''k2'')"
          "Some demo_session" _ demo_kicked] demo_kick_changes) (simp add: demo_kicked_def prod_eq_iff)
  then show ?thesis by (auto simp: demo_session_def)
qed

theorem moderation_refines_spec_witness:
  "\<exists>l. view demo_kicked (generate_lobby_id demo_crypto (str ''L'')) =
     Some (spec_moderate (generate_chat_token [9]) (KickPlayer (str ''k1'') (str ''k2'')) (lobby_abs l))"
proof -
  obtain l where l: "hm_get (w_lobbies demo_two) (ms_lobby_id demo_session) = Some l"
    "lb_host_id l = ms_client_id demo_session" using demo_authorized(1) by blast
  have "moderation_from (KickPlayer (str ''k1'') (str ''k2'')) = Some (ms_client_id demo_session)"
    by (simp add: moderation_from_def demo_session_def)
  then have "view demo_kicked = (view demo_two)(ms_lobby_id demo_session :=
      Some (spec_moderate (generate_chat_token [9]) (KickPlayer (str ''k1'') (str ''k2'')) (lobby_abs l)))"
    unfolding demo_kicked_def
    by (rule moderation_refines_spec [OF demo_inv(2) _ l demo_authorized(2)])
  then show ?thesis by (auto simp: demo_session_def)
qed

definition demo_listed :: World where
  "demo_listed = snd (handle_moderation_message demo_host
     (snd (the (demo_admit ''k1'' 1 [] 1 demo_empty))) [9]
     (SetLobbyOptions (str ''k1'') (Some 200) (Some True) None None) (Some demo_session))"

end
