(* ===== verification/Routing.thy ===== *)
theory Routing
  imports Moderation
begin

text \<open>
  The message branches of \<open>src/src/connection.rs\<close> that relay a client's message to members of
  its lobby: one definition per branch, in the order of the source. A branch reads and extends
  the shared state \<open>World\<close> and tells the connection loop to go on or to stop.

  Serialising a message cannot fail (no map with non-string keys occurs in it), so the
  \<open>if let Ok(json)\<close> of the source always takes its branch.
\<close>

section \<open>The state of a connection\<close>

record Conn =
  co_sender :: nat
  co_disconnect :: nat
  co_source :: socket_addr
  co_challenge :: rstr
  co_client_id :: "rstr option"
  co_lobby_id :: "rstr option"
  co_generation :: u64
  co_is_registered :: bool
  co_limiter :: MessageRateLimiter

datatype Flow = Continue | Break

section \<open>Guards and the two ways out\<close>

text \<open>
  The lobby a relayed message goes to: an unregistered connection is dropped; where the branch
  compares the sender again a mismatch is ignored; so is a sender that is in no lobby.
\<close>

definition relay_lobby :: "World \<Rightarrow> Conn \<Rightarrow> bool \<Rightarrow> rstr \<Rightarrow> Flow + rstr" where
  "relay_lobby w c recheck frm =
     (if \<not> co_is_registered c then Inl Break
      else if recheck \<and> co_client_id c \<noteq> Some frm then Inl Continue
      else case hm_get (w_client_lobby_map w) frm of
             None \<Rightarrow> Inl Continue
           | Some lid \<Rightarrow> Inr lid)"

definition send_json :: "host \<Rightarrow> World \<Rightarrow> nat \<Rightarrow> SignalingMessage \<Rightarrow> bool \<times> World" where
  "send_json h w sender m = send_text h w sender (message_text (h_serde h) m)"

definition forward ::
  "host \<Rightarrow> World \<Rightarrow> Conn \<Rightarrow> bool \<Rightarrow> rstr \<Rightarrow> rstr \<Rightarrow> SignalingMessage \<Rightarrow> Flow \<times> World" where
  "forward h w c recheck frm target_id m =
     (case relay_lobby w c recheck frm of
        Inl flow \<Rightarrow> (flow, w)
      | Inr lid \<Rightarrow>
          (Continue, snd (send_to_lobby_client h w lid target_id (Text (message_text (h_serde h) m)))))"

definition fan_out ::
  "host \<Rightarrow> World \<Rightarrow> Conn \<Rightarrow> bool \<Rightarrow> rstr \<Rightarrow> SignalingMessage \<Rightarrow> Flow \<times> World" where
  "fan_out h w c recheck frm m =
     (case relay_lobby w c recheck frm of
        Inl flow \<Rightarrow> (flow, w)
      | Inr lid \<Rightarrow> (Continue, broadcast_to_lobby h w lid frm m))"

section \<open>Branches\<close>

definition on_players_list_request :: "host \<Rightarrow> World \<Rightarrow> Conn \<Rightarrow> Flow \<times> World" where
  "on_players_list_request h w c =
     (if \<not> co_is_registered c then (Break, w)
      else case co_lobby_id c of
             None \<Rightarrow> (Break, w)
           | Some lid \<Rightarrow>
               (Continue, snd (send_json h w (co_sender c)
                  (PlayersList (current_players w lid (co_client_id c))))))"

definition on_voice_reconnect :: "host \<Rightarrow> World \<Rightarrow> Conn \<Rightarrow> rstr \<Rightarrow> rstr \<Rightarrow> Flow \<times> World" where
  "on_voice_reconnect h w c frm dst =
     (if \<not> co_is_registered c then (Break, w)
      else case co_lobby_id c of
             None \<Rightarrow> (Break, w)
           | Some lid \<Rightarrow>
               (Continue, snd (send_to_lobby_client h w lid dst
                  (Text (message_text (h_serde h) (VoiceReconnect frm dst))))))"

text \<open>The offer carries the registered name of its sender, not the one the client wrote.\<close>

definition on_offer :: "host \<Rightarrow> World \<Rightarrow> Conn \<Rightarrow> rstr \<Rightarrow> rstr \<Rightarrow> OfferData \<Rightarrow> Flow \<times> World" where
  "on_offer h w c frm dst offer =
     (case relay_lobby w c False frm of
        Inl flow \<Rightarrow> (flow, w)
      | Inr lid \<Rightarrow>
          let player_name = map_option ci_player_name (lobby_client w lid frm)
          in (Continue, snd (send_to_lobby_client h w lid dst
                (Text (message_text (h_serde h) (Offer frm dst offer player_name))))))"

definition on_answer :: "host \<Rightarrow> World \<Rightarrow> Conn \<Rightarrow> rstr \<Rightarrow> rstr \<Rightarrow> AnswerData \<Rightarrow> Flow \<times> World" where
  "on_answer h w c frm dst answer = forward h w c False frm dst (Answer frm dst answer)"

definition on_ice_candidate ::
  "host \<Rightarrow> World \<Rightarrow> Conn \<Rightarrow> rstr \<Rightarrow> rstr \<Rightarrow> CandidateData \<Rightarrow> Flow \<times> World" where
  "on_ice_candidate h w c frm dst cand = forward h w c False frm dst (IceCandidate frm dst cand)"

definition on_status_update :: "host \<Rightarrow> World \<Rightarrow> Conn \<Rightarrow> rstr \<Rightarrow> bool \<Rightarrow> Flow \<times> World" where
  "on_status_update h w c cid mic_enabled = fan_out h w c False cid (StatusUpdate cid mic_enabled)"

definition on_screen_share_start ::
  "host \<Rightarrow> World \<Rightarrow> Conn \<Rightarrow> rstr \<Rightarrow> rstr \<Rightarrow> rstr \<Rightarrow> bool \<Rightarrow> Flow \<times> World" where
  "on_screen_share_start h w c frm share_id player_name has_password =
     fan_out h w c False frm (ScreenShareStart frm share_id player_name has_password)"

definition on_screen_share_stop :: "host \<Rightarrow> World \<Rightarrow> Conn \<Rightarrow> rstr \<Rightarrow> rstr \<Rightarrow> Flow \<times> World" where
  "on_screen_share_stop h w c frm share_id = fan_out h w c False frm (ScreenShareStop frm share_id)"

text \<open>
  The relay control message has fourteen fields and is sent on as it came; \<open>m\<close> is the message
  itself, \<open>frm\<close> and \<open>dst\<close> its first two fields.
\<close>

definition on_screen_share_relay ::
  "host \<Rightarrow> World \<Rightarrow> Conn \<Rightarrow> rstr \<Rightarrow> rstr \<Rightarrow> SignalingMessage \<Rightarrow> Flow \<times> World" where
  "on_screen_share_relay h w c frm dst m = forward h w c True frm dst m"

definition on_screen_share_offer ::
  "host \<Rightarrow> World \<Rightarrow> Conn \<Rightarrow> rstr \<Rightarrow> rstr \<Rightarrow> rstr \<Rightarrow> rstr option \<Rightarrow> rstr option \<Rightarrow> u64 option \<Rightarrow>
   OfferData \<Rightarrow> Flow \<times> World" where
  "on_screen_share_offer h w c frm dst share_id player_name password route_version offer =
     forward h w c True frm dst
       (ScreenShareOffer frm dst share_id player_name password route_version offer)"

definition on_screen_share_answer ::
  "host \<Rightarrow> World \<Rightarrow> Conn \<Rightarrow> rstr \<Rightarrow> rstr \<Rightarrow> rstr \<Rightarrow> u64 option \<Rightarrow> AnswerData \<Rightarrow> Flow \<times> World" where
  "on_screen_share_answer h w c frm dst share_id route_version answer =
     forward h w c True frm dst (ScreenShareAnswer frm dst share_id route_version answer)"

definition on_screen_share_ice_candidate ::
  "host \<Rightarrow> World \<Rightarrow> Conn \<Rightarrow> rstr \<Rightarrow> rstr \<Rightarrow> rstr \<Rightarrow> rstr option \<Rightarrow> u64 option \<Rightarrow> CandidateData \<Rightarrow>
   Flow \<times> World" where
  "on_screen_share_ice_candidate h w c frm dst share_id connection_role route_version cand =
     forward h w c True frm dst
       (ScreenShareIceCandidate frm dst share_id connection_role route_version cand)"

definition on_screen_share_error ::
  "host \<Rightarrow> World \<Rightarrow> Conn \<Rightarrow> rstr \<Rightarrow> rstr \<Rightarrow> rstr \<Rightarrow> rstr \<Rightarrow> Flow \<times> World" where
  "on_screen_share_error h w c frm dst share_id err =
     forward h w c False frm dst (ScreenShareError frm dst share_id err)"

definition on_screen_share_list_request :: "host \<Rightarrow> World \<Rightarrow> Conn \<Rightarrow> rstr \<Rightarrow> Flow \<times> World" where
  "on_screen_share_list_request h w c frm = fan_out h w c False frm (ScreenShareListRequest frm)"

definition on_screen_share_list_response ::
  "host \<Rightarrow> World \<Rightarrow> Conn \<Rightarrow> rstr \<Rightarrow> rstr \<Rightarrow> rstr \<Rightarrow> rstr \<Rightarrow> bool \<Rightarrow> Flow \<times> World" where
  "on_screen_share_list_response h w c frm dst share_id player_name has_password =
     forward h w c False frm dst (ScreenShareListResponse frm dst share_id player_name has_password)"

definition on_screen_share_viewer_left :: "host \<Rightarrow> World \<Rightarrow> Conn \<Rightarrow> rstr \<Rightarrow> rstr \<Rightarrow> Flow \<times> World" where
  "on_screen_share_viewer_left h w c frm share_id =
     fan_out h w c True frm (ScreenShareViewerLeft frm share_id)"

definition on_screen_share_update ::
  "host \<Rightarrow> World \<Rightarrow> Conn \<Rightarrow> rstr \<Rightarrow> rstr \<Rightarrow> rstr option \<Rightarrow> rstr option \<Rightarrow> u64 option \<Rightarrow> Flow \<times> World" where
  "on_screen_share_update h w c frm share_id viewer_id viewer_name viewer_count =
     fan_out h w c True frm (ScreenShareUpdate frm share_id viewer_id viewer_name viewer_count)"

definition on_file_share_added ::
  "host \<Rightarrow> World \<Rightarrow> Conn \<Rightarrow> rstr \<Rightarrow> rstr \<Rightarrow> rstr \<Rightarrow> rstr \<Rightarrow> bool \<Rightarrow> Flow \<times> World" where
  "on_file_share_added h w c frm share_id share_name player_name has_password =
     fan_out h w c False frm (FileShareAdded frm share_id share_name player_name has_password)"

definition on_file_share_removed :: "host \<Rightarrow> World \<Rightarrow> Conn \<Rightarrow> rstr \<Rightarrow> rstr \<Rightarrow> Flow \<times> World" where
  "on_file_share_removed h w c frm share_id = fan_out h w c False frm (FileShareRemoved frm share_id)"

definition on_file_share_list_request :: "host \<Rightarrow> World \<Rightarrow> Conn \<Rightarrow> rstr \<Rightarrow> Flow \<times> World" where
  "on_file_share_list_request h w c frm = fan_out h w c False frm (FileShareListRequest frm)"

definition on_file_share_list_response ::
  "host \<Rightarrow> World \<Rightarrow> Conn \<Rightarrow> rstr \<Rightarrow> rstr \<Rightarrow> FileShareInfo list \<Rightarrow> Flow \<times> World" where
  "on_file_share_list_response h w c frm dst shares =
     forward h w c False frm dst (FileShareListResponse frm dst shares)"

definition on_share_updated ::
  "host \<Rightarrow> World \<Rightarrow> Conn \<Rightarrow> rstr \<Rightarrow> rstr \<Rightarrow> rstr option \<Rightarrow> rstr option \<Rightarrow> bool option \<Rightarrow> Flow \<times> World" where
  "on_share_updated h w c frm share_id share_name player_name has_password =
     fan_out h w c False frm (ShareUpdated frm share_id share_name player_name has_password)"

definition on_remote_control_request ::
  "host \<Rightarrow> World \<Rightarrow> Conn \<Rightarrow> rstr \<Rightarrow> rstr \<Rightarrow> rstr \<Rightarrow> rstr \<Rightarrow> Flow \<times> World" where
  "on_remote_control_request h w c frm dst session_id from_name =
     forward h w c False frm dst (RemoteControlRequest frm dst session_id from_name)"

definition on_remote_control_accept ::
  "host \<Rightarrow> World \<Rightarrow> Conn \<Rightarrow> rstr \<Rightarrow> rstr \<Rightarrow> rstr \<Rightarrow> Flow \<times> World" where
  "on_remote_control_accept h w c frm dst session_id =
     forward h w c False frm dst (RemoteControlAccept frm dst session_id)"

definition on_remote_control_reject ::
  "host \<Rightarrow> World \<Rightarrow> Conn \<Rightarrow> rstr \<Rightarrow> rstr \<Rightarrow> rstr \<Rightarrow> rstr \<Rightarrow> Flow \<times> World" where
  "on_remote_control_reject h w c frm dst session_id reason =
     forward h w c False frm dst (RemoteControlReject frm dst session_id reason)"

definition on_remote_control_offer ::
  "host \<Rightarrow> World \<Rightarrow> Conn \<Rightarrow> rstr \<Rightarrow> rstr \<Rightarrow> rstr \<Rightarrow> OfferData \<Rightarrow> Flow \<times> World" where
  "on_remote_control_offer h w c frm dst session_id offer =
     forward h w c False frm dst (RemoteControlOffer frm dst session_id offer)"

definition on_remote_control_answer ::
  "host \<Rightarrow> World \<Rightarrow> Conn \<Rightarrow> rstr \<Rightarrow> rstr \<Rightarrow> rstr \<Rightarrow> AnswerData \<Rightarrow> Flow \<times> World" where
  "on_remote_control_answer h w c frm dst session_id answer =
     forward h w c False frm dst (RemoteControlAnswer frm dst session_id answer)"

definition on_remote_control_ice ::
  "host \<Rightarrow> World \<Rightarrow> Conn \<Rightarrow> rstr \<Rightarrow> rstr \<Rightarrow> rstr \<Rightarrow> CandidateData \<Rightarrow> Flow \<times> World" where
  "on_remote_control_ice h w c frm dst session_id cand =
     forward h w c False frm dst (RemoteControlIce frm dst session_id cand)"

definition on_remote_control_stop ::
  "host \<Rightarrow> World \<Rightarrow> Conn \<Rightarrow> rstr \<Rightarrow> rstr \<Rightarrow> rstr \<Rightarrow> Flow \<times> World" where
  "on_remote_control_stop h w c frm dst session_id =
     forward h w c False frm dst (RemoteControlStop frm dst session_id)"

lemmas forwarding_branches =
  on_answer_def on_ice_candidate_def on_screen_share_relay_def on_screen_share_offer_def
  on_screen_share_answer_def on_screen_share_ice_candidate_def on_screen_share_error_def
  on_screen_share_list_response_def on_file_share_list_response_def on_remote_control_request_def
  on_remote_control_accept_def on_remote_control_reject_def on_remote_control_offer_def
  on_remote_control_answer_def on_remote_control_ice_def on_remote_control_stop_def

lemmas broadcasting_branches =
  on_status_update_def on_screen_share_start_def on_screen_share_stop_def
  on_screen_share_list_request_def on_screen_share_viewer_left_def on_screen_share_update_def
  on_file_share_added_def on_file_share_removed_def on_file_share_list_request_def
  on_share_updated_def

definition on_ping :: "host \<Rightarrow> World \<Rightarrow> Conn \<Rightarrow> Flow \<times> World" where
  "on_ping h w c = (Continue, snd (send_json h w (co_sender c) Pong))"

definition msg_host_fallback :: rstr where
  "msg_host_fallback = [25151, 20027]"

definition public_lobby_info :: "LobbyInfo \<Rightarrow> PublicLobbyInfo" where
  "public_lobby_info lobby =
     \<lparr>pl_lobby_name = lb_lobby_name lobby, pl_player_count = of_nat (hm_len (lb_clients lobby)),
      pl_max_players = lb_max_players lobby,
      pl_host_name = (case hm_get (lb_clients lobby) (lb_host_id lobby) of
                        Some c \<Rightarrow> ci_player_name c | None \<Rightarrow> msg_host_fallback),
      pl_description = lb_description lobby, pl_server_node = lb_server_node lobby\<rparr>"

definition public_lobbies :: "World \<Rightarrow> PublicLobbyInfo list" where
  "public_lobbies w = map public_lobby_info (filter lb_is_public (hm_values (w_lobbies w)))"

definition on_public_lobby_list_request :: "host \<Rightarrow> World \<Rightarrow> Conn \<Rightarrow> Flow \<times> World" where
  "on_public_lobby_list_request h w c =
     (Continue, snd (send_json h w (co_sender c) (PublicLobbyListResponse (public_lobbies w))))"

section \<open>What a branch may send\<close>

text \<open>
  Frames to the own socket of the connection, and, when the sender of the message is a member of
  a lobby, frames to the sockets of that lobby.
\<close>

definition routed :: "World \<Rightarrow> Conn \<Rightarrow> rstr \<Rightarrow> World \<Rightarrow> bool" where
  "routed w c frm w' \<longleftrightarrow>
     only_sends {(s, m) |s m. s = co_sender c \<or>
       co_is_registered c \<and> (\<exists>lid. hm_get (w_client_lobby_map w) frm = Some lid \<and> s \<in> member_senders w lid)} w w'"

lemma routed_refl [simp]: "routed w c frm w"
  by (simp add: routed_def)

lemma routed_own: "routed w c frm (snd (send_message h w (co_sender c) m))"
  unfolding routed_def by (rule only_sends_mono [OF send_message_only]) auto

lemma routed_json: "routed w c frm (snd (send_json h w (co_sender c) m))"
  by (simp add: send_json_def send_text_def routed_own)

lemma send_to_member_only:
  "only_sends {(s, m) |s m. s \<in> member_senders w lid} w (snd (send_to_lobby_client h w lid dst frame))"
  by (rule only_sends_mono [OF send_to_lobby_client_only]) (auto dest: lobby_client_sender)

lemma relay_lobby_Inr:
  "relay_lobby w c recheck frm = Inr lid \<Longrightarrow>
   co_is_registered c \<and> hm_get (w_client_lobby_map w) frm = Some lid"
  by (auto simp: relay_lobby_def split: if_splits option.splits)

lemma routed_forward: "routed w c frm (snd (forward h w c recheck frm dst m))"
proof (cases "relay_lobby w c recheck frm")
  case (Inr lid)
  then show ?thesis
    using relay_lobby_Inr [OF Inr] unfolding routed_def forward_def
    by (simp, intro only_sends_mono [OF send_to_member_only [of w lid]]) auto
qed (simp add: forward_def)

lemma routed_fan_out: "routed w c frm (snd (fan_out h w c recheck frm m))"
proof (cases "relay_lobby w c recheck frm")
  case (Inr lid)
  then show ?thesis
    using relay_lobby_Inr [OF Inr] unfolding routed_def fan_out_def
    by (simp, intro only_sends_mono [OF broadcast_only [of w lid]]) auto
qed (simp add: fan_out_def)

lemma routed_offer: "routed w c frm (snd (on_offer h w c frm dst offer))"
proof (cases "relay_lobby w c False frm")
  case (Inr lid)
  then show ?thesis
    using relay_lobby_Inr [OF Inr] unfolding routed_def on_offer_def
    by (simp add: Let_def, intro only_sends_mono [OF send_to_member_only [of w lid]]) auto
qed (simp add: on_offer_def)

end
