(* ===== verification/Node_Address.thy ===== *)
theory Node_Address
  imports Config_Limits Ip_Addr
begin

text \<open>
  The first half of \<open>src/src/community_nodes.rs\<close>: reading and normalising the address of a
  submitted node, the rule that keeps the server from connecting to non-public addresses, and
  the reachability probe.

  What the operating system answers during one probe is the record \<open>prober\<close>: the addresses the
  resolver returns within its time limit, the outcome of every connection attempt, the UDP
  socket calls, and whether a permit of the probe semaphore was free in time. A probe returns
  its outcome together with the addresses it contacted, in order.
\<close>

unbundle bit_operations_syntax

section \<open>Error texts\<close>

definition msg_address_empty :: rstr where
  "msg_address_empty =
     [33410, 28857, 22320, 22336, 19981, 33021, 20026, 31354]"

definition msg_address_long :: rstr where
  "msg_address_long =
     [33410, 28857, 22320, 22336, 36807, 38271]"

definition msg_address_chars :: rstr where
  "msg_address_chars =
     [33410, 28857, 22320, 22336, 19981, 33021, 21253, 21547, 31354, 30333, 25110, 25511, 21046,
     23383, 31526]"

definition msg_address_scheme :: rstr where
  "msg_address_scheme =
     [33410, 28857, 22320, 22336, 24517, 39035, 20197] @ str '' tcp:// udp:// ws:// wss:// '' @
     [24320, 22836]"

definition msg_address_protocol :: rstr where
  "msg_address_protocol =
     [33410, 28857, 22320, 22336, 21327, 35758, 19981, 25903, 25345, 65292, 20165, 25903, 25345]
     @ str '' tcp:// udp:// ws:// wss://''"

definition msg_address_parse :: rstr where
  "msg_address_parse =
     [33410, 28857, 22320, 22336, 26080, 27861, 35299, 26512, 20986, 20027, 26426, 19982, 31471,
     21475]"

definition msg_address_port :: rstr where
  "msg_address_port =
     [33410, 28857, 31471, 21475, 26080, 25928]"

section \<open>Addresses of nodes\<close>

text \<open>\<open>uni\<close> stands for the Unicode tables behind \<open>str::to_lowercase\<close>.\<close>

definition node_default_port :: "rstr \<Rightarrow> u16" where
  "node_default_port scheme =
     (if scheme \<in> {str ''wss'', str ''https''} then 443
      else if scheme \<in> {str ''ws'', str ''http''} then 80 else 11010)"

definition split_host_port :: "rstr \<Rightarrow> u16 \<Rightarrow> (rstr \<times> u16) option" where
  "split_host_port host_port default_port =
     (case strip_prefix 91 host_port of
        Some stripped \<Rightarrow>
          (case split_once [93] stripped of
             None \<Rightarrow> None
           | Some (host, tail) \<Rightarrow>
               if host = [] then None
               else (case strip_prefix 58 tail of
                       Some p \<Rightarrow> map_option (\<lambda>port. (host, of_nat port)) (parse_uint 65535 p)
                     | None \<Rightarrow> Some (host, default_port)))
      | None \<Rightarrow>
          (case rsplit_once 58 host_port of
             Some (host, port_str) \<Rightarrow>
               (case parse_uint 65535 port_str of
                  Some port \<Rightarrow> if host = [] then None else Some (host, of_nat port)
                | None \<Rightarrow> Some (host_port, default_port))
           | None \<Rightarrow> Some (host_port, default_port)))"

definition parse_node_host_port :: "(rstr \<Rightarrow> rstr) \<Rightarrow> rstr \<Rightarrow> (rstr \<times> u16) option" where
  "parse_node_host_port uni address =
     (let trimmed = trim address;
          (scheme, rest) =
            (case split_once (str ''://'') trimmed of
               Some (s, r) \<Rightarrow> (to_lowercase uni s, r)
             | None \<Rightarrow> ([], trimmed));
          host_port = hd (split_char 47 rest)
      in if host_port = [] then None else split_host_port host_port (node_default_port scheme))"

definition normalize_community_node_address :: "(rstr \<Rightarrow> rstr) \<Rightarrow> rstr \<Rightarrow> rstr + rstr" where
  "normalize_community_node_address uni address =
     (let trimmed = trim address
      in if trimmed = [] then Inl msg_address_empty
         else if COMMUNITY_NODE_ADDRESS_MAX_LEN < str_len trimmed then Inl msg_address_long
         else if list_ex (\<lambda>c. is_whitespace c \<or> is_control c) trimmed then Inl msg_address_chars
         else
           case split_once (str ''://'') trimmed of
             None \<Rightarrow> Inl msg_address_scheme
           | Some (scheme, rest) \<Rightarrow>
               let scheme_lower = to_lowercase uni scheme
               in if scheme_lower \<notin> {str ''tcp'', str ''udp'', str ''ws'', str ''wss''}
                  then Inl msg_address_protocol
                  else
                    case parse_node_host_port uni trimmed of
                      None \<Rightarrow> Inl msg_address_parse
                    | Some (host, port) \<Rightarrow>
                        if port = 0 then Inl msg_address_port
                        else
                          let path = (case split_once (str ''/'') rest of
                                        Some (_, p) \<Rightarrow> if p \<noteq> [] then 47 # p else []
                                      | None \<Rightarrow> []);
                              host_lower = to_lowercase uni host;
                              host_part = (if 58 \<in> set host_lower then 91 # host_lower @ [93]
                                           else host_lower)
                          in Inr (scheme_lower @ str ''://'' @ host_part @ 58 # show_nat (unat port)
                                @ path))"

definition sanitize_community_text :: "rstr \<Rightarrow> nat \<Rightarrow> rstr" where
  "sanitize_community_text raw max_len =
     trim (take max_len (filter (\<lambda>c. \<not> is_control c) (trim raw)))"

section \<open>Which addresses may be probed\<close>

definition v4_is_public :: "u32 \<Rightarrow> bool" where
  "v4_is_public v4 \<longleftrightarrow>
     (let octets = ipv4_octets v4
      in \<not> (v4_is_unspecified v4 \<or> v4_is_loopback v4 \<or> v4_is_private v4 \<or> v4_is_link_local v4 \<or>
            v4_is_broadcast v4 \<or> v4_is_documentation v4 \<or> v4_is_multicast v4 \<or>
            octets ! 0 = 100 \<and> (octets ! 1 AND 192) = 64 \<or>
            octets ! 0 = 192 \<and> octets ! 1 = 0 \<and> octets ! 2 = 0 \<or>
            octets ! 0 = 198 \<and> (octets ! 1 AND 254) = 18 \<or>
            240 \<le> octets ! 0))"

definition v6_is_public :: "u128 \<Rightarrow> bool" where
  "v6_is_public v6 \<longleftrightarrow>
     (if v6_is_unspecified v6 \<or> v6_is_loopback v6 \<or> v6_is_multicast v6 then False
      else
        case to_ipv4_mapped v6 of
          Some mapped \<Rightarrow> v4_is_public mapped
        | None \<Rightarrow>
            let segments = ipv6_segments v6
            in if take 6 segments = [0, 0, 0, 0, 0, 0] then False
               else \<not> ((segments ! 0 AND 65024) = 64512 \<or> (segments ! 0 AND 65472) = 65152 \<or>
                       segments ! 0 = 8193 \<and> segments ! 1 = 3512))"

definition is_public_probe_target :: "ip_addr \<Rightarrow> bool" where
  "is_public_probe_target ip = (case ip of V4 v4 \<Rightarrow> v4_is_public v4 | V6 v6 \<Rightarrow> v6_is_public v6)"

section \<open>The probe\<close>

datatype ProbeOutcome = Alive u64 | Dead | Blocked | Busy

text \<open>
  \<open>pb_lookup\<close> is \<open>None\<close> when the lookup fails or runs out of time. \<open>pb_connect i a\<close> is the
  outcome of the \<open>i\<close>-th connection attempt: the milliseconds since the first attempt began when
  the handshake completed in time. \<open>pb_recv\<close> likewise for the answer to the UDP datagram.
\<close>

record prober =
  pb_lookup :: "rstr \<Rightarrow> u16 \<Rightarrow> socket_addr list option"
  pb_connect :: "nat \<Rightarrow> socket_addr \<Rightarrow> nat option"
  pb_udp_bind :: "bool \<Rightarrow> bool"
  pb_udp_connect :: "socket_addr \<Rightarrow> bool"
  pb_udp_send :: "socket_addr \<Rightarrow> bool"
  pb_udp_recv :: "socket_addr \<Rightarrow> nat option"
  pb_permit :: bool

definition resolve_probe_targets ::
  "prober \<Rightarrow> rstr \<Rightarrow> u16 \<Rightarrow> bool \<Rightarrow> socket_addr list" where
  "resolve_probe_targets P host port allow_private =
     (case pb_lookup P host port of
        None \<Rightarrow> []
      | Some resolved \<Rightarrow>
          take COMMUNITY_NODE_PROBE_MAX_TARGETS
            (filter (\<lambda>addr. allow_private \<or> is_public_probe_target (fst addr)) resolved))"

fun probe_community_node_tcp ::
  "prober \<Rightarrow> nat \<Rightarrow> socket_addr list \<Rightarrow> u64 option \<times> socket_addr list" where
  "probe_community_node_tcp P i [] = (None, [])"
| "probe_community_node_tcp P i (target # targets) =
     (case pb_connect P i target of
        Some ms \<Rightarrow> (Some (of_nat ms), [target])
      | None \<Rightarrow> let (r, contacted) = probe_community_node_tcp P (Suc i) targets
                in (r, target # contacted))"

definition probe_community_node_udp ::
  "prober \<Rightarrow> socket_addr \<Rightarrow> u64 option \<times> socket_addr list" where
  "probe_community_node_udp P target =
     (let is_ipv6 = (case fst target of V6 _ \<Rightarrow> True | V4 _ \<Rightarrow> False)
      in if \<not> pb_udp_bind P is_ipv6 then (None, [])
         else if \<not> pb_udp_connect P target \<or> \<not> pb_udp_send P target then (None, [target])
         else (map_option of_nat (pb_udp_recv P target), [target]))"

definition probe_community_node ::
  "(rstr \<Rightarrow> rstr) \<Rightarrow> prober \<Rightarrow> bool \<Rightarrow> rstr \<Rightarrow> ProbeOutcome \<times> socket_addr list" where
  "probe_community_node uni P allow_private address =
     (case parse_node_host_port uni address of
        None \<Rightarrow> (Blocked, [])
      | Some (host, port) \<Rightarrow>
          let targets = resolve_probe_targets P host port allow_private
          in if targets = [] then (Blocked, [])
             else
               case probe_community_node_tcp P 0 targets of
                 (Some ms, contacted) \<Rightarrow> (Alive ms, contacted)
               | (None, contacted) \<Rightarrow>
                   let scheme = (case split_once (str ''://'') address of
                                   Some (s, _) \<Rightarrow> to_lowercase uni s
                                 | None \<Rightarrow> [])
                   in if scheme = str ''udp''
                      then case probe_community_node_udp P (hd targets) of
                             (Some ms, c) \<Rightarrow> (Alive ms, contacted @ c)
                           | (None, c) \<Rightarrow> (Dead, contacted @ c)
                      else (Dead, contacted))"

definition probe_community_node_limited ::
  "(rstr \<Rightarrow> rstr) \<Rightarrow> prober \<Rightarrow> bool \<Rightarrow> rstr \<Rightarrow> ProbeOutcome \<times> socket_addr list" where
  "probe_community_node_limited uni P allow_private address =
     (if pb_permit P then probe_community_node uni P allow_private address else (Busy, []))"

section \<open>Contacted addresses\<close>

lemma probe_tcp_contacts:
  "set (snd (probe_community_node_tcp P i targets)) \<subseteq> set targets"
  by (induction P i targets rule: probe_community_node_tcp.induct)
     (auto split: option.splits prod.splits)

lemma probe_tcp_length:
  "length (snd (probe_community_node_tcp P i targets)) \<le> length targets"
  by (induction P i targets rule: probe_community_node_tcp.induct)
     (auto split: option.splits prod.splits)

lemma probe_udp_contacts:
  "set (snd (probe_community_node_udp P target)) \<subseteq> {target}"
  "length (snd (probe_community_node_udp P target)) \<le> 1"
  by (auto simp: probe_community_node_udp_def Let_def)

lemma resolve_targets:
  "set (resolve_probe_targets P host port allow_private) \<subseteq>
     {a. allow_private \<or> is_public_probe_target (fst a)}"
  "length (resolve_probe_targets P host port allow_private) \<le> 4"
  by (auto simp: resolve_probe_targets_def config_simps dest!: in_set_takeD split: option.splits)

lemma probe_contacts:
  assumes "probe_community_node_limited uni P allow_private address = (outcome, contacted)"
  shows "set contacted \<subseteq> {a. allow_private \<or> is_public_probe_target (fst a)}"
    and "length contacted \<le> 5"
proof -
  have main: "set contacted \<subseteq> {a. allow_private \<or> is_public_probe_target (fst a)} \<and> length contacted \<le> 5"
  proof (cases "parse_node_host_port uni address")
    case (Some hp)
    obtain host port where hp: "hp = (host, port)" by (cases hp)
    let ?ts = "resolve_probe_targets P host port allow_private"
    obtain r c where tcp: "probe_community_node_tcp P 0 ?ts = (r, c)" by fastforce
    obtain u d where udp: "probe_community_node_udp P (hd ?ts) = (u, d)" by fastforce
    have sets: "set c \<subseteq> set ?ts" "length c \<le> 4" "set d \<subseteq> {hd ?ts}" "length d \<le> 1"
      using probe_tcp_contacts [of P 0 ?ts] probe_tcp_length [of P 0 ?ts] resolve_targets(2) [of P host port allow_private]
        probe_udp_contacts [of P "hd ?ts"] tcp udp by auto
    have "contacted = [] \<or> ?ts \<noteq> [] \<and> (contacted = c \<or> contacted = c @ d)"
      using assms Some hp tcp udp
      by (auto simp: probe_community_node_limited_def probe_community_node_def Let_def
          split: if_splits option.splits)
    moreover have "?ts \<noteq> [] \<Longrightarrow> set c \<union> set d \<subseteq> set ?ts" using sets hd_in_set [of ?ts] by blast
    ultimately have "set contacted \<subseteq> set ?ts" "length contacted \<le> 5" using sets by auto
    with resolve_targets(1) [of P host port allow_private] show ?thesis
      by (meson subset_trans)
  qed (use assms in \<open>auto simp: probe_community_node_limited_def probe_community_node_def split: if_splits\<close>)
  show "set contacted \<subseteq> {a. allow_private \<or> is_public_probe_target (fst a)}" using main ..
  show "length contacted \<le> 5" using main ..
qed

section \<open>Address blocks\<close>

text \<open>A CIDR block is its network number, as octets or segments, and its prefix length.\<close>

type_synonym block = "nat list \<times> nat"

definition block_net :: "nat \<Rightarrow> block \<Rightarrow> nat" where
  "block_net base block = foldl (\<lambda>n digit. n * base + digit) 0 (fst block)"

definition in_v4_block :: "u32 \<Rightarrow> block \<Rightarrow> bool" where
  "in_v4_block a block \<longleftrightarrow>
     (let k = 2 ^ (32 - snd block) in unat a div k = block_net 256 block div k)"

definition in_v6_block :: "u128 \<Rightarrow> block \<Rightarrow> bool" where
  "in_v6_block a block \<longleftrightarrow>
     (let k = 2 ^ (128 - snd block) in unat a div k = block_net 65536 block div k)"

definition v4_mapped_block :: block where
  "v4_mapped_block = ([0, 0, 0, 0, 0, 65535, 0, 0], 96)"

text \<open>An IPv4-mapped address is judged by the IPv4 address it carries.\<close>

definition in_blocks :: "block list \<Rightarrow> block list \<Rightarrow> ip_addr \<Rightarrow> bool" where
  "in_blocks v4 v6 ip \<longleftrightarrow>
     (case ip of
        V4 a \<Rightarrow> list_ex (in_v4_block a) v4
      | V6 a \<Rightarrow>
          if in_v6_block a v4_mapped_block then list_ex (in_v4_block (of_nat (unat a mod 2 ^ 32))) v4
          else list_ex (in_v6_block a) v6)"

text \<open>The blocks the tests of the code amount to (shown below).\<close>

definition v4_refused_blocks :: "block list" where
  "v4_refused_blocks =
     [([0, 0, 0, 0], 32), ([10, 0, 0, 0], 8), ([100, 64, 0, 0], 10), ([127, 0, 0, 0], 8),
      ([169, 254, 0, 0], 16), ([172, 16, 0, 0], 12), ([192, 0, 0, 0], 24), ([192, 0, 2, 0], 24),
      ([192, 168, 0, 0], 16), ([198, 18, 0, 0], 15), ([198, 51, 100, 0], 24),
      ([203, 0, 113, 0], 24), ([224, 0, 0, 0], 4), ([240, 0, 0, 0], 4)]"

definition v6_refused_blocks :: "block list" where
  "v6_refused_blocks =
     [([0, 0, 0, 0, 0, 0, 0, 0], 96), ([65280, 0, 0, 0, 0, 0, 0, 0], 8),
      ([64512, 0, 0, 0, 0, 0, 0, 0], 7), ([65152, 0, 0, 0, 0, 0, 0, 0], 10),
      ([8193, 3512, 0, 0, 0, 0, 0, 0], 32)]"

text \<open>
  The reference, independent of the code: the blocks that are not public unicast space. These are
  the entries of the IANA special-purpose address registries (RFC 6890 and its updates) that are
  not globally reachable or have a deprecated or translating use, and the multicast, IPv4-compatible
  and site-local blocks of RFC 4291. In order, for IPv4: this network, private, shared (CGNAT),
  loopback, link-local, private, protocol assignments, documentation, 6to4 relays, private,
  benchmarking, documentation (twice), multicast, reserved and broadcast; for IPv6: unspecified,
  loopback and IPv4-compatible, NAT64, local NAT64, discard and dummy, protocol assignments (with
  Teredo and ORCHID), documentation, 6to4, documentation, segment routing, unique local,
  link-local, site-local, multicast.
\<close>

definition v4_special_blocks :: "block list" where
  "v4_special_blocks =
     [([0, 0, 0, 0], 8), ([10, 0, 0, 0], 8), ([100, 64, 0, 0], 10), ([127, 0, 0, 0], 8),
      ([169, 254, 0, 0], 16), ([172, 16, 0, 0], 12), ([192, 0, 0, 0], 24), ([192, 0, 2, 0], 24),
      ([192, 88, 99, 0], 24), ([192, 168, 0, 0], 16), ([198, 18, 0, 0], 15), ([198, 51, 100, 0], 24),
      ([203, 0, 113, 0], 24), ([224, 0, 0, 0], 4), ([240, 0, 0, 0], 4)]"

definition v6_special_blocks :: "block list" where
  "v6_special_blocks =
     [([0, 0, 0, 0, 0, 0, 0, 0], 96), ([100, 65435, 0, 0, 0, 0, 0, 0], 96),
      ([100, 65435, 1, 0, 0, 0, 0, 0], 48), ([256, 0, 0, 0, 0, 0, 0, 0], 64),
      ([256, 0, 0, 1, 0, 0, 0, 0], 64), ([8193, 0, 0, 0, 0, 0, 0, 0], 23),
      ([8193, 3512, 0, 0, 0, 0, 0, 0], 32), ([8194, 0, 0, 0, 0, 0, 0, 0], 16),
      ([16383, 0, 0, 0, 0, 0, 0, 0], 20), ([24320, 0, 0, 0, 0, 0, 0, 0], 16),
      ([64512, 0, 0, 0, 0, 0, 0, 0], 7), ([65152, 0, 0, 0, 0, 0, 0, 0], 10),
      ([65216, 0, 0, 0, 0, 0, 0, 0], 10), ([65280, 0, 0, 0, 0, 0, 0, 0], 8)]"

definition special_purpose :: "ip_addr \<Rightarrow> bool" where
  "special_purpose ip \<longleftrightarrow> in_blocks v4_special_blocks v6_special_blocks ip"

text \<open>
  The part of the reference the code does not test for: this network except 0.0.0.0 itself, 6to4
  relays, and for IPv6 NAT64, discard, protocol assignments, 6to4, the newer documentation block,
  segment routing and site-local.
\<close>

definition v4_gap_blocks :: "block list" where
  "v4_gap_blocks = [([0, 0, 0, 0], 8), ([192, 88, 99, 0], 24)]"

definition v6_gap_blocks :: "block list" where
  "v6_gap_blocks =
     [([100, 65435, 0, 0, 0, 0, 0, 0], 96), ([100, 65435, 1, 0, 0, 0, 0, 0], 48),
      ([256, 0, 0, 0, 0, 0, 0, 0], 64), ([256, 0, 0, 1, 0, 0, 0, 0], 64),
      ([8193, 0, 0, 0, 0, 0, 0, 0], 23), ([8194, 0, 0, 0, 0, 0, 0, 0], 16),
      ([16383, 0, 0, 0, 0, 0, 0, 0], 20), ([24320, 0, 0, 0, 0, 0, 0, 0], 16),
      ([65216, 0, 0, 0, 0, 0, 0, 0], 10)]"

definition probe_gap :: "ip_addr \<Rightarrow> bool" where
  "probe_gap ip \<longleftrightarrow>
     in_blocks v4_gap_blocks v6_gap_blocks ip \<and> \<not> in_blocks [([0, 0, 0, 0], 32)] [] ip"

text \<open>
  The inside of a network: private, shared, loopback and link-local IPv4 (with the metadata
  service of cloud hosts), loopback, unique local and link-local IPv6.
\<close>

definition inside_network :: "ip_addr \<Rightarrow> bool" where
  "inside_network ip \<longleftrightarrow>
     in_blocks
       [([10, 0, 0, 0], 8), ([172, 16, 0, 0], 12), ([192, 168, 0, 0], 16), ([100, 64, 0, 0], 10),
        ([127, 0, 0, 0], 8), ([169, 254, 0, 0], 16)]
       [([0, 0, 0, 0, 0, 0, 0, 1], 128), ([64512, 0, 0, 0, 0, 0, 0, 0], 7),
        ([65152, 0, 0, 0, 0, 0, 0, 0], 10)] ip"

section \<open>The probing rule as a list of address blocks\<close>

lemmas v4_block_defs = in_v4_block_def block_net_def
lemmas v6_block_defs = in_v6_block_def block_net_def

lemma and_high_mask:
  fixes x :: nat
  assumes "x < 2 ^ n" "k \<le> n"
  shows "(x AND (2 ^ n - 2 ^ k)) = x div 2 ^ k * 2 ^ k"
proof -
  have mask: "(2::nat) ^ n - 2 ^ k = push_bit k (mask (n - k))"
    using assms(2) by (simp add: push_bit_eq_mult mask_eq_exp_minus_1 diff_mult_distrib
        flip: power_add)
  have "x div 2 ^ k * 2 ^ k = push_bit k (drop_bit k x)"
    by (simp add: push_bit_eq_mult drop_bit_eq_div)
  moreover have "\<not> bit x i" if "n \<le> i" for i
  proof -
    have "x < 2 ^ i" using assms(1) that by (meson less_le_trans one_le_numeral power_increasing)
    then show ?thesis by (simp add: bit_iff_odd)
  qed
  ultimately show ?thesis
    unfolding mask
    by (intro bit_eqI) (auto simp: bit_and_iff bit_push_bit_iff bit_mask_iff bit_drop_bit_eq
        not_le intro: ccontr)
qed

lemma octet_masks:
  fixes x :: nat
  assumes "x < 256"
  shows "(x AND 192) = 64 \<longleftrightarrow> x div 64 = 1" "(x AND 254) = 18 \<longleftrightarrow> x div 2 = 9"
  using and_high_mask [of x 8 6] and_high_mask [of x 8 1] assms by simp_all

lemma segment_masks:
  fixes x :: nat
  assumes "x < 65536"
  shows "(x AND 65024) = 64512 \<longleftrightarrow> x div 512 = 126" "(x AND 65472) = 65152 \<longleftrightarrow> x div 64 = 1018"
    "(x AND 65280) = 65280 \<longleftrightarrow> x div 256 = 255"
  using and_high_mask [of x 16 9] and_high_mask [of x 16 6] and_high_mask [of x 16 8] assms
  by simp_all

lemma digit_split:
  fixes k :: nat
  assumes "x < k" "d < k"
  shows "p * k + x = c * k + d \<longleftrightarrow> p = c \<and> x = d"
proof
  assume eq: "p * k + x = c * k + d"
  from arg_cong [OF eq, of "\<lambda>n. n mod k"] arg_cong [OF eq, of "\<lambda>n. n div k"] assms
  show "p = c \<and> x = d" by simp
qed simp

lemmas base256 = digit_split [where k = 256]

lemma unat_ipv4_octets:
  fixes a :: u32
  assumes "ipv4_octets a = [p, q, r, s]"
  shows "unat a = ((p * 256 + q) * 256 + r) * 256 + s" "p < 256" "q < 256" "r < 256" "s < 256"
proof -
  show lt: "p < 256" "q < 256" "r < 256" "s < 256"
    using ipv4_octets_lt [of a] assms by simp_all
  then have "((p * 256 + q) * 256 + r) * 256 + s < 2 ^ 32" by simp
  moreover have "a = ipv4_of p q r s" using ipv4_of_octets [of a] assms by simp
  moreover have "unat (of_nat k :: u32) = k" if "k < 2 ^ 32" for k
    using that by (simp add: unat_of_nat)
  ultimately show "unat a = ((p * 256 + q) * 256 + r) * 256 + s" by (simp only: ipv4_of_def)
qed

lemma v4_broadcast_octet: "ipv4_octets a = [p, q, r, s] \<Longrightarrow> v4_is_broadcast a \<Longrightarrow> 240 \<le> p"
proof -
  assume oct: "ipv4_octets a = [p, q, r, s]" and "v4_is_broadcast a"
  then have "unat a = 2 ^ 32 - 1"
    by (simp add: v4_is_broadcast_def word_unat_eq_iff unsigned_minus_1_eq_mask mask_eq_exp_minus_1)
  with unat_ipv4_octets [OF oct] show "240 \<le> p" by simp
qed

lemma v4_octet_blocks:
  assumes "ipv4_octets a = [p, q, r, s]"
  shows "in_v4_block a ([0, 0, 0, 0], 32) \<longleftrightarrow> v4_is_unspecified a"
    "in_v4_block a ([x, 0, 0, 0], 8) \<longleftrightarrow> p = x"
    "y < 256 \<Longrightarrow> in_v4_block a ([x, y, 0, 0], 16) \<longleftrightarrow> p = x \<and> q = y"
    "y < 256 \<Longrightarrow> z < 256 \<Longrightarrow> in_v4_block a ([x, y, z, 0], 24) \<longleftrightarrow> p = x \<and> q = y \<and> r = z"
proof -
  note n = unat_ipv4_octets(1) [OF assms] and lt = unat_ipv4_octets(2-5) [OF assms]
  have zero: "a = 0 \<longleftrightarrow> unat a = 0" by (simp add: unat_eq_0)
  have div: "unat a div 256 = (p * 256 + q) * 256 + r" "unat a div 65536 = p * 256 + q"
    "unat a div 16777216 = p"
    using lt unfolding n by simp_all
  show "in_v4_block a ([0, 0, 0, 0], 32) \<longleftrightarrow> v4_is_unspecified a"
    "in_v4_block a ([x, 0, 0, 0], 8) \<longleftrightarrow> p = x"
    "y < 256 \<Longrightarrow> in_v4_block a ([x, y, 0, 0], 16) \<longleftrightarrow> p = x \<and> q = y"
    "y < 256 \<Longrightarrow> z < 256 \<Longrightarrow> in_v4_block a ([x, y, z, 0], 24) \<longleftrightarrow> p = x \<and> q = y \<and> r = z"
    using lt by (simp_all add: v4_block_defs div v4_is_unspecified_def zero base256
        mult.commute [of 256] del: distrib_right_numeral)
qed

lemma v4_bit_blocks:
  assumes "ipv4_octets a = [p, q, r, s]"
  shows "in_v4_block a ([100, 64, 0, 0], 10) \<longleftrightarrow> p = 100 \<and> q div 64 = 1"
    "in_v4_block a ([172, 16, 0, 0], 12) \<longleftrightarrow> p = 172 \<and> 16 \<le> q \<and> q \<le> 31"
    "in_v4_block a ([198, 18, 0, 0], 15) \<longleftrightarrow> p = 198 \<and> q div 2 = 9"
    "in_v4_block a ([224, 0, 0, 0], 4) \<longleftrightarrow> 224 \<le> p \<and> p \<le> 239"
    "in_v4_block a ([240, 0, 0, 0], 4) \<longleftrightarrow> 240 \<le> p"
proof -
  note n = unat_ipv4_octets(1) [OF assms] and lt = unat_ipv4_octets(2-5) [OF assms]
  have n16: "unat a div 65536 = p * 256 + q" and n24: "unat a div 16777216 = p"
    using lt unfolding n by simp_all
  have n28: "unat a div 268435456 = p div 16"
    unfolding n24 [symmetric] by (simp flip: div_mult2_eq)
  have "unat a div 131072 = (p * 256 + q) div 2" "unat a div 4194304 = (p * 256 + q) div 64"
    "unat a div 1048576 = (p * 256 + q) div 16"
    unfolding n16 [symmetric] by (simp_all flip: div_mult2_eq)
  moreover have "(p * 256 + q) div 64 = p * 4 + q div 64" "(p * 256 + q) div 16 = p * 16 + q div 16"
    "(p * 256 + q) div 2 = p * 128 + q div 2"
    using div_mult_self3 [of 64 "p * 4" q] div_mult_self3 [of 16 "p * 16" q]
      div_mult_self3 [of 2 "p * 128" q] by (simp_all add: ac_simps)
  moreover have "q div 64 < 4" "q div 16 < 16" "q div 2 < 128" using lt by auto
  moreover have "16 \<le> q \<and> q \<le> 31 \<longleftrightarrow> q div 16 = 1" by auto
  ultimately show "in_v4_block a ([100, 64, 0, 0], 10) \<longleftrightarrow> p = 100 \<and> q div 64 = 1"
    "in_v4_block a ([172, 16, 0, 0], 12) \<longleftrightarrow> p = 172 \<and> 16 \<le> q \<and> q \<le> 31"
    "in_v4_block a ([198, 18, 0, 0], 15) \<longleftrightarrow> p = 198 \<and> q div 2 = 9"
    using digit_split [of "q div 64" 4 1 p 100] digit_split [of "q div 16" 16 1 p 172]
      digit_split [of "q div 2" 128 9 p 198]
    by (simp_all add: v4_block_defs Let_def)
  show "in_v4_block a ([224, 0, 0, 0], 4) \<longleftrightarrow> 224 \<le> p \<and> p \<le> 239"
    "in_v4_block a ([240, 0, 0, 0], 4) \<longleftrightarrow> 240 \<le> p"
    using lt by (auto simp: v4_block_defs Let_def n28)
qed

lemma v4_is_public_blocks: "v4_is_public a \<longleftrightarrow> \<not> list_ex (in_v4_block a) v4_refused_blocks"
proof -
  obtain p q r s where oct: "ipv4_octets a = [p, q, r, s]" by (simp add: ipv4_octets_def)
  note lt = unat_ipv4_octets(2-5) [OF oct]
  have "v4_is_public a \<longleftrightarrow>
      \<not> (v4_is_unspecified a \<or> p = 127 \<or> (p = 10 \<or> p = 172 \<and> 16 \<le> q \<and> q \<le> 31 \<or> p = 192 \<and> q = 168) \<or>
         p = 169 \<and> q = 254 \<or> v4_is_broadcast a \<or>
         (p = 192 \<and> q = 0 \<and> r = 2 \<or> p = 198 \<and> q = 51 \<and> r = 100 \<or> p = 203 \<and> q = 0 \<and> r = 113) \<or>
         224 \<le> p \<and> p \<le> 239 \<or> p = 100 \<and> q div 64 = 1 \<or> p = 192 \<and> q = 0 \<and> r = 0 \<or>
         p = 198 \<and> q div 2 = 9 \<or> 240 \<le> p)"
    by (simp add: v4_is_public_def oct v4_is_loopback_def v4_is_private_def v4_is_link_local_def
        v4_is_documentation_def v4_is_multicast_def octet_masks lt)
  moreover have "list_ex (in_v4_block a) v4_refused_blocks \<longleftrightarrow>
      v4_is_unspecified a \<or> p = 10 \<or> p = 100 \<and> q div 64 = 1 \<or> p = 127 \<or> p = 169 \<and> q = 254 \<or>
      p = 172 \<and> 16 \<le> q \<and> q \<le> 31 \<or> p = 192 \<and> q = 0 \<and> r = 0 \<or> p = 192 \<and> q = 0 \<and> r = 2 \<or>
      p = 192 \<and> q = 168 \<or> p = 198 \<and> q div 2 = 9 \<or> p = 198 \<and> q = 51 \<and> r = 100 \<or>
      p = 203 \<and> q = 0 \<and> r = 113 \<or> 224 \<le> p \<and> p \<le> 239 \<or> 240 \<le> p"
    by (simp add: v4_refused_blocks_def v4_octet_blocks [OF oct] v4_bit_blocks [OF oct])
  ultimately show ?thesis using v4_broadcast_octet [OF oct] by argo
qed

lemma segments_lt: "segment i a < 65536"
  by (simp add: segment_def)

lemma segment_zero_prefix:
  fixes m :: nat
  assumes "m < 65536 ^ n"
  shows "m = 0 \<longleftrightarrow> (\<forall>i < n. m div 65536 ^ i mod 65536 = 0)"
  using assms
proof (induction n arbitrary: m)
  case (Suc n)
  have "m div 65536 < 65536 ^ n" using Suc.prems by (simp add: less_mult_imp_div_less mult.commute)
  then have "m div 65536 = 0 \<longleftrightarrow> (\<forall>i < n. m div 65536 ^ Suc i mod 65536 = 0)"
    using Suc.IH [of "m div 65536"] by (simp add: div_mult2_eq)
  moreover have "m = 0 \<longleftrightarrow> m mod 65536 = 0 \<and> m div 65536 = 0"
    by (metis add.right_neutral div_mult_mod_eq mod_0 div_0 mult_0)
  ultimately show ?case by (simp add: All_less_Suc2)
qed simp

lemma all_less_6: "(\<forall>i < 6. P i) \<longleftrightarrow> P 0 \<and> P 1 \<and> P 2 \<and> P 3 \<and> P 4 \<and> P (5 :: nat)"
proof -
  have "(\<forall>i < 6. P i) \<longleftrightarrow> list_all P [0..<6]" by (auto simp: list_all_iff)
  then show ?thesis by (simp add: upt_rec numeral_eq_Suc)
qed

lemma segment_div:
  fixes a :: u128
  shows "segment 0 a = unat a div 2 ^ 112" "segment 1 a = unat a div 2 ^ 96 mod 65536"
proof -
  have "unat a < 2 ^ 128" using unat_bound [of a] by simp
  then have "unat a div 2 ^ 112 < 65536" by (simp add: less_mult_imp_div_less)
  then show "segment 0 a = unat a div 2 ^ 112" by (simp add: segment_def)
qed (simp add: segment_def)

lemma v6_mask_blocks:
  "(segment 0 a AND 65024) = 64512 \<longleftrightarrow> unat a div 2 ^ 121 = 126"
  "(segment 0 a AND 65472) = 65152 \<longleftrightarrow> unat a div 2 ^ 118 = 1018"
  "v6_is_multicast a \<longleftrightarrow> unat a div 2 ^ 120 = 255"
  unfolding v6_is_multicast_def segment_masks [OF segments_lt]
  unfolding segment_div by (simp_all flip: div_mult2_eq)

lemma v6_documentation_block:
  "segment 0 a = 8193 \<and> segment 1 a = 3512 \<longleftrightarrow> unat a div 2 ^ 96 = 8193 * 65536 + 3512"
proof -
  define u where "u = unat a div 2 ^ 96"
  have "unat a div 2 ^ 112 = u div 65536" by (simp add: u_def flip: div_mult2_eq)
  moreover have "u div 65536 = 8193 \<and> u mod 65536 = 3512 \<longleftrightarrow> u = 8193 * 65536 + 3512"
    by (rule iffI, metis div_mult_mod_eq) simp
  ultimately show ?thesis unfolding segment_div u_def [symmetric] by simp
qed

lemma v6_low_block:
  "take 6 (ipv6_segments a) = [0, 0, 0, 0, 0, 0] \<longleftrightarrow> unat a div 2 ^ 32 = 0"
proof -
  have "unat a < 2 ^ 128" using unat_bound [of a] by simp
  then have "unat a div 2 ^ 32 < 65536 ^ 6" by (simp add: less_mult_imp_div_less)
  then have "unat a div 2 ^ 32 = 0 \<longleftrightarrow> (\<forall>i < 6. unat a div 2 ^ 32 div 65536 ^ i mod 65536 = 0)"
    by (rule segment_zero_prefix)
  also have "\<dots> \<longleftrightarrow> take 6 (ipv6_segments a) = [0, 0, 0, 0, 0, 0]"
    unfolding all_less_6 by (auto simp: ipv6_segments_def segment_def upt_rec simp flip: div_mult2_eq)
  finally show ?thesis ..
qed

lemma v6_is_public_blocks:
  "v6_is_public a \<longleftrightarrow>
     (if in_v6_block a v4_mapped_block
      then v4_is_public (of_nat (unat a mod 2 ^ 32))
      else \<not> list_ex (in_v6_block a) v6_refused_blocks)"
proof -
  define n where "n = unat a"
  have special: "v6_is_unspecified a \<or> v6_is_loopback a \<Longrightarrow> n div 2 ^ 32 = 0"
    by (auto simp: v6_is_unspecified_def v6_is_loopback_def n_def)
  have nth: "ipv6_segments a ! 0 = segment 0 a" "ipv6_segments a ! 1 = segment 1 a"
    by (simp_all add: ipv6_segments_def)
  have mapped: "in_v6_block a v4_mapped_block \<longleftrightarrow> n div 2 ^ 32 = 65535"
    by (simp add: v6_block_defs v4_mapped_block_def n_def)
  have multi: "n div 2 ^ 32 = 65535 \<Longrightarrow> n div 2 ^ 120 \<noteq> 255"
    by (auto dest!: arg_cong [of _ _ "\<lambda>m. m div 2 ^ 88"] simp flip: div_mult2_eq)
  have blocks: "list_ex (in_v6_block a) v6_refused_blocks \<longleftrightarrow>
      n div 2 ^ 32 = 0 \<or> n div 2 ^ 120 = 255 \<or> n div 2 ^ 121 = 126 \<or> n div 2 ^ 118 = 1018 \<or>
      n div 2 ^ 96 = 8193 * 65536 + 3512"
    by (simp add: v6_block_defs v6_refused_blocks_def n_def)
  show ?thesis
    unfolding v6_is_public_def Let_def nth v6_low_block v6_mask_blocks v6_documentation_block mapped blocks
      to_ipv4_mapped_def n_def [symmetric]
    using special multi by auto
qed

lemma probe_rule_blocks: "is_public_probe_target ip \<longleftrightarrow> \<not> in_blocks v4_refused_blocks v6_refused_blocks ip"
  by (cases ip) (simp_all add: is_public_probe_target_def in_blocks_def v4_is_public_blocks v6_is_public_blocks)

section \<open>The rule and the reference\<close>

text \<open>Blocks whose network numbers differ within the shorter prefix have no address in common.\<close>

definition blocks_apart :: "nat \<Rightarrow> nat \<Rightarrow> block \<Rightarrow> block \<Rightarrow> bool" where
  "blocks_apart base width b c \<longleftrightarrow>
     snd b \<le> width \<and> snd c \<le> width \<and>
     (let k = 2 ^ (width - min (snd b) (snd c)) in block_net base b div k \<noteq> block_net base c div k)"

lemma div_pow_shorter:
  fixes x y :: nat
  assumes "x div 2 ^ (w - l) = y div 2 ^ (w - l)" "m \<le> l" "l \<le> w"
  shows "x div 2 ^ (w - m) = y div 2 ^ (w - m)"
proof -
  have "w - m = (w - l) + (l - m)" using assms(2,3) by simp
  then have "(2::nat) ^ (w - m) = 2 ^ (w - l) * 2 ^ (l - m)" by (simp only: power_add)
  then show ?thesis by (simp add: div_mult2_eq assms(1))
qed

lemma blocks_apart_v4: "blocks_apart 256 32 b c \<Longrightarrow> in_v4_block a b \<Longrightarrow> \<not> in_v4_block a c"
  unfolding blocks_apart_def in_v4_block_def Let_def
  using div_pow_shorter [of "unat a" 32 "snd b" "block_net 256 b" "min (snd b) (snd c)"]
    div_pow_shorter [of "unat a" 32 "snd c" "block_net 256 c" "min (snd b) (snd c)"]
  by (metis min.cobounded1 min.cobounded2)

lemma blocks_apart_v6: "blocks_apart 65536 128 b c \<Longrightarrow> in_v6_block a b \<Longrightarrow> \<not> in_v6_block a c"
  unfolding blocks_apart_def in_v6_block_def Let_def
  using div_pow_shorter [of "unat a" 128 "snd b" "block_net 65536 b" "min (snd b) (snd c)"]
    div_pow_shorter [of "unat a" 128 "snd c" "block_net 65536 c" "min (snd b) (snd c)"]
  by (metis min.cobounded1 min.cobounded2)

lemma gaps_not_refused:
  "list_ex (in_v6_block a) v6_gap_blocks \<Longrightarrow> \<not> list_ex (in_v6_block a) v6_refused_blocks"
  "list_ex (in_v4_block b) v4_gap_blocks \<Longrightarrow> list_ex (in_v4_block b) v4_refused_blocks \<longleftrightarrow>
     in_v4_block b ([0, 0, 0, 0], 32)"
proof -
  have v6: "list_all (\<lambda>g. list_all (blocks_apart 65536 128 g) v6_refused_blocks) v6_gap_blocks"
    by code_simp
  have v4: "list_all (\<lambda>g. list_all (blocks_apart 256 32 g) (tl v4_refused_blocks)) v4_gap_blocks"
    by code_simp
  show "list_ex (in_v6_block a) v6_gap_blocks \<Longrightarrow> \<not> list_ex (in_v6_block a) v6_refused_blocks"
    using v6 blocks_apart_v6 unfolding list_all_iff list_ex_iff by blast
  have "list_ex (in_v4_block b) v4_gap_blocks \<Longrightarrow> \<not> list_ex (in_v4_block b) (tl v4_refused_blocks)"
    using v4 blocks_apart_v4 unfolding list_all_iff list_ex_iff by blast
  then show "list_ex (in_v4_block b) v4_gap_blocks \<Longrightarrow> list_ex (in_v4_block b) v4_refused_blocks \<longleftrightarrow>
      in_v4_block b ([0, 0, 0, 0], 32)"
    by (simp add: v4_refused_blocks_def)
qed

lemma special_blocks:
  "list_ex (in_v6_block a) v6_special_blocks \<longleftrightarrow>
     list_ex (in_v6_block a) v6_refused_blocks \<or> list_ex (in_v6_block a) v6_gap_blocks"
  "list_ex (in_v4_block b) v4_special_blocks \<longleftrightarrow>
     list_ex (in_v4_block b) v4_refused_blocks \<or> list_ex (in_v4_block b) v4_gap_blocks"
proof -
  show "list_ex (in_v6_block a) v6_special_blocks \<longleftrightarrow>
      list_ex (in_v6_block a) v6_refused_blocks \<or> list_ex (in_v6_block a) v6_gap_blocks"
    by (simp add: v6_special_blocks_def v6_refused_blocks_def v6_gap_blocks_def) argo
  have "in_v4_block b ([0, 0, 0, 0], 32) \<Longrightarrow> in_v4_block b ([0, 0, 0, 0], 8)"
    using div_pow_shorter [of "unat b" 32 32 0 8] by (simp add: v4_block_defs)
  then show "list_ex (in_v4_block b) v4_special_blocks \<longleftrightarrow>
      list_ex (in_v4_block b) v4_refused_blocks \<or> list_ex (in_v4_block b) v4_gap_blocks"
    by (simp add: v4_special_blocks_def v4_refused_blocks_def v4_gap_blocks_def) argo
qed

lemma rule_and_reference:
  "\<not> special_purpose ip \<Longrightarrow> is_public_probe_target ip"
  "special_purpose ip \<Longrightarrow> is_public_probe_target ip \<longleftrightarrow> probe_gap ip"
  unfolding special_purpose_def probe_rule_blocks probe_gap_def in_blocks_def
  using gaps_not_refused special_blocks by (auto split: ip_addr.splits if_splits)

lemma inside_refused: "inside_network ip \<Longrightarrow> \<not> is_public_probe_target ip"
proof -
  have "in_v6_block a ([0, 0, 0, 0, 0, 0, 0, 1], 128) \<Longrightarrow> in_v6_block a ([0, 0, 0, 0, 0, 0, 0, 0], 96)" for a
    by (simp add: v6_block_defs)
  then show "inside_network ip \<Longrightarrow> \<not> is_public_probe_target ip"
    unfolding inside_network_def probe_rule_blocks in_blocks_def
    by (auto simp: v4_refused_blocks_def v6_refused_blocks_def split: ip_addr.splits if_splits)
qed

section \<open>Splitting\<close>

lemma split_once_Some: "split_once p s = Some (a, b) \<Longrightarrow> s = a @ p @ b"
proof (induction s arbitrary: a b)
  case (Cons c s)
  show ?case
  proof (cases "take (length p) (c # s) = p")
    case True
    with Cons.prems have "a = []" "b = drop (length p) (c # s)" by simp_all
    then show ?thesis using True append_take_drop_id [of "length p" "c # s"] by simp
  next
    case False
    with Cons show ?thesis by (auto simp del: take_Cons' drop_Cons')
  qed
qed (auto split: if_splits)

lemma split_once_first: "x \<notin> set a \<Longrightarrow> split_once (x # p) (a @ x # p @ b) = Some (a, b)"
  by (induction a) auto

lemma split_once_none: "x \<notin> set s \<Longrightarrow> split_once (x # p) s = None"
  by (induction s) auto

lemma rsplit_once_last: "x \<notin> set b \<Longrightarrow> rsplit_once x (a @ x # b) = Some (a, b)"
  using split_once_first [of x "rev b" "[]" "rev a"] by (simp add: rsplit_once_def)

lemma rsplit_once_Some: "rsplit_once x s = Some (a, b) \<Longrightarrow> s = a @ x # b"
  using split_once_Some [of "[x]" "rev s"]
  by (auto simp: rsplit_once_def) (metis append.assoc append_Cons append_Nil rev_append
      rev_rev_ident rev_singleton_conv)

lemma split_char_hd: "x \<in> set (hd (split_char d s)) \<Longrightarrow> x \<in> set s \<and> x \<noteq> d"
  by (induction s) (auto split: list.splits if_splits)

lemma strip_prefix_iff: "strip_prefix c s = Some r \<longleftrightarrow> s = c # r"
  by (auto simp: strip_prefix_def split: list.splits)

lemma split_host_port_host:
  assumes "split_host_port hp d = Some (host, port)" "hp \<noteq> []"
  shows "host \<noteq> [] \<and> set host \<subseteq> set hp"
  using assms
  by (auto simp: split_host_port_def strip_prefix_iff dest!: split_once_Some rsplit_once_Some
      split: if_splits option.splits)

lemma parse_node_host:
  assumes "parse_node_host_port uni t = Some (host, port)"
  shows "host \<noteq> [] \<and> 47 \<notin> set host \<and> set host \<subseteq> set t"
proof -
  obtain sch rest where split: "(case split_once (str ''://'') (trim t) of
      Some (s, r) \<Rightarrow> (to_lowercase uni s, r) | None \<Rightarrow> ([], trim t)) = (sch, rest)" by fastforce
  then have "set rest \<subseteq> set (trim t)"
    by (auto split: option.splits dest!: split_once_Some)
  then have hp: "set (hd (split_char 47 rest)) \<subseteq> set t - {47}"
    using split_char_hd trim_subset [of t] by blast
  have "host \<noteq> [] \<and> set host \<subseteq> set (hd (split_char 47 rest))"
    using assms split_host_port_host [of "hd (split_char 47 rest)"]
    unfolding parse_node_host_port_def Let_def split by (auto split: if_splits)
  with hp show ?thesis by blast
qed

lemma probe_tcp_answer:
  "probe_community_node_tcp P i targets = (Some ms, contacted) \<Longrightarrow>
     \<exists>j. \<exists>a \<in> set contacted. pb_connect P j a \<noteq> None"
proof (induction P i targets arbitrary: contacted rule: probe_community_node_tcp.induct)
  case (2 P i target targets)
  then show ?case
    by (cases "pb_connect P i target") (force split: prod.splits)+
qed simp

lemma probe_alive:
  assumes "probe_community_node_limited uni P allow_private address = (Alive ms, contacted)"
  shows "\<exists>a \<in> set contacted. (\<exists>i. pb_connect P i a \<noteq> None) \<or> pb_udp_recv P a \<noteq> None"
proof -
  obtain host port where hp: "parse_node_host_port uni address = Some (host, port)"
    using assms by (cases "parse_node_host_port uni address")
      (auto simp: probe_community_node_limited_def probe_community_node_def split: if_splits)
  let ?ts = "resolve_probe_targets P host port allow_private"
  obtain r c where tcp: "probe_community_node_tcp P 0 ?ts = (r, c)" by fastforce
  obtain u d where udp: "probe_community_node_udp P (hd ?ts) = (u, d)" by fastforce
  have "r = Some ms \<and> contacted = c \<or> u = Some ms \<and> contacted = c @ d"
    using assms hp tcp udp
    by (auto simp: probe_community_node_limited_def probe_community_node_def Let_def
        split: if_splits option.splits)
  moreover have "u = Some ms \<Longrightarrow> d = [hd ?ts] \<and> pb_udp_recv P (hd ?ts) \<noteq> None"
    using udp by (auto simp: probe_community_node_udp_def Let_def split: if_splits)
  ultimately show ?thesis using probe_tcp_answer [of P 0 ?ts ms c] tcp by auto
qed

section \<open>Normal forms\<close>

definition bracketed :: "rstr \<Rightarrow> rstr" where
  "bracketed host = (if 58 \<in> set host then 91 # host @ [93] else host)"

lemma split_host_port_print:
  assumes "host \<noteq> []" "set host \<inter> {91, 93} = {}"
  shows "split_host_port (bracketed host @ 58 # show_nat (unat port)) d = Some (host, port)"
proof -
  have digits: "58 \<notin> set (show_nat (unat port))"
    using show_nat_digits [of "unat port"] by (auto simp: list_all_iff is_digit_def)
  have port: "parse_uint 65535 (show_nat (unat port)) = Some (unat port)"
    using parse_show_nat [of "unat port" 65535] unat_bound [of port] by simp
  show ?thesis
  proof (cases "58 \<in> set host")
    case True
    have "split_once [93] (host @ 93 # 58 # show_nat (unat port)) = Some (host, 58 # show_nat (unat port))"
      using split_once_first [of 93 host "[]"] assms(2) by auto
    with True port assms(1) show ?thesis
      by (simp add: split_host_port_def bracketed_def strip_prefix_def)
  next
    case False
    have "strip_prefix 91 (host @ 58 # show_nat (unat port)) = None"
      using assms by (cases host) (auto simp: strip_prefix_def)
    with False port assms(1) digits show ?thesis
      by (simp add: split_host_port_def bracketed_def rsplit_once_last)
  qed
qed

lemma lower_props:
  "ascii_lower (ascii_lower c) = ascii_lower c" "ascii_lower c < 128 \<longleftrightarrow> c < 128"
  "is_whitespace (ascii_lower c) \<longleftrightarrow> is_whitespace c" "is_control (ascii_lower c) \<longleftrightarrow> is_control c"
  "c \<notin> {65..90} \<Longrightarrow> d \<notin> {97..122} \<Longrightarrow> ascii_lower c = d \<longleftrightarrow> c = d"
  by (auto simp: ascii_lower_def is_whitespace_def is_control_def)


definition plain :: "rstr \<Rightarrow> bool" where
  "plain s \<longleftrightarrow> \<not> list_ex (\<lambda>c. is_whitespace c \<or> is_control c) s"

lemma plain_simps [simp]:
  "plain []" "plain (c # s) \<longleftrightarrow> \<not> is_whitespace c \<and> \<not> is_control c \<and> plain s"
  "plain (s @ t) \<longleftrightarrow> plain s \<and> plain t"
  by (auto simp: plain_def)

lemma plain_trim: "plain s \<Longrightarrow> trim s = s"
  by (rule trim_noop) (auto simp: plain_def list_ex_iff)

lemma plain_subset: "plain s \<Longrightarrow> set t \<subseteq> set s \<Longrightarrow> plain t"
  by (auto simp: plain_def list_ex_iff)

lemma plain_show_nat [simp]: "plain (show_nat n)"
  using show_nat_digits [of n]
  by (auto simp: plain_def list_ex_iff list_all_iff is_digit_def is_whitespace_def is_control_def)

lemma plain_lower: "plain s \<Longrightarrow> plain (map ascii_lower s)"
  by (auto simp: plain_def list_ex_iff lower_props)

lemma plain_bracketed [simp]: "plain (bracketed s) \<longleftrightarrow> plain s"
  by (auto simp: bracketed_def is_whitespace_def is_control_def)

lemma lower_ascii: "list_all (\<lambda>c. c < 128) s \<Longrightarrow> to_lowercase uni s = map ascii_lower s"
  by (simp add: to_lowercase_def)

abbreviation node_schemes :: "rstr set" where
  "node_schemes \<equiv> {str ''tcp'', str ''udp'', str ''ws'', str ''wss''}"

lemma scheme_facts:
  "sch \<in> node_schemes \<Longrightarrow> 58 \<notin> set sch \<and> plain sch \<and> to_lowercase uni sch = sch"
  by (auto simp: str_def plain_def is_whitespace_def is_control_def to_lowercase_def ascii_lower_def)

lemma normal_form:
  assumes sch: "sch \<in> node_schemes"
    and host: "host \<noteq> []" "set host \<inter> {47, 91, 93} = {}" "plain host" "to_lowercase uni host = host"
    and path: "path = [] \<or> (\<exists>p. path = 47 # p \<and> p \<noteq> [])" "plain path" and port: "port \<noteq> 0"
    and k: "k = sch @ str ''://'' @ bracketed host @ 58 # show_nat (unat port) @ path"
    and len: "str_len k \<le> COMMUNITY_NODE_ADDRESS_MAX_LEN"
  shows "normalize_community_node_address uni k = Inr k \<and> parse_node_host_port uni k = Some (host, port)"
proof -
  define rest where "rest = bracketed host @ 58 # show_nat (unat port) @ path"
  have slashes: "str ''://'' = [58, 47, 47]" "str ''/'' = [47]" by (simp_all add: str_def)
  have k': "k = sch @ 58 # [47, 47] @ rest" by (simp add: k rest_def slashes)
  have plain: "plain k"
    using scheme_facts [OF sch] host(3) path(2) unfolding k slashes
    by (simp add: is_whitespace_def is_control_def)
  then have trim: "trim k = k" by (rule plain_trim)
  have split: "split_once (str ''://'') k = Some (sch, rest)"
    unfolding k' slashes using scheme_facts [OF sch] by (intro split_once_first) simp
  have no_slash: "47 \<notin> set (bracketed host @ 58 # show_nat (unat port))"
    using host(2) show_nat_digits [of "unat port"]
    by (auto simp: bracketed_def list_all_iff is_digit_def)
  have hp: "hd (split_char 47 rest) = bracketed host @ 58 # show_nat (unat port)"
    using path(1) split_char_append [OF no_slash] split_char_nosep [OF no_slash]
    by (auto simp: rest_def)
  have parse: "parse_node_host_port uni k = Some (host, port)"
    using split_host_port_print [OF host(1), of port "node_default_port sch"] host(2)
      scheme_facts [OF sch]
    by (auto simp: parse_node_host_port_def trim split hp)
  have "(case split_once (str ''/'') rest of Some (_, p) \<Rightarrow> if p \<noteq> [] then 47 # p else [] | None \<Rightarrow> []) = path"
    using path(1) split_once_first [OF no_slash, of "[]"] split_once_none [OF no_slash]
    by (auto simp: rest_def slashes)
  moreover have "k \<noteq> []" by (simp add: k')
  ultimately have "normalize_community_node_address uni k = Inr k"
    using plain len sch port scheme_facts [OF sch]
    unfolding normalize_community_node_address_def Let_def trim split parse
    by (simp add: host(4) plain_def not_less [symmetric]) (simp add: k bracketed_def)
  with parse show ?thesis by blast
qed


lemma normalize_shape:
  assumes "normalize_community_node_address uni a = Inr k"
  obtains scheme rest host port path where
    "split_once (str ''://'') (trim a) = Some (scheme, rest)" "plain (trim a)"
    "to_lowercase uni scheme \<in> node_schemes" "parse_node_host_port uni (trim a) = Some (host, port)"
    "port \<noteq> 0" "path = [] \<or> (\<exists>p. path = 47 # p \<and> p \<noteq> [])" "set path \<subseteq> set (trim a)"
    "k = to_lowercase uni scheme @ str ''://'' @ bracketed (to_lowercase uni host) @
       58 # show_nat (unat port) @ path"
proof -
  obtain scheme rest where 1: "split_once (str ''://'') (trim a) = Some (scheme, rest)" "plain (trim a)"
    "to_lowercase uni scheme \<in> node_schemes"
    using assms by (auto simp: normalize_community_node_address_def Let_def plain_def
        split: if_splits option.splits)
  obtain host port where 2: "parse_node_host_port uni (trim a) = Some (host, port)" "port \<noteq> 0"
    using assms 1 by (auto simp: normalize_community_node_address_def Let_def
        split: if_splits option.splits)
  define path where "path = (case split_once (str ''/'') rest of
      Some (_, p) \<Rightarrow> if p \<noteq> [] then 47 # p else [] | None \<Rightarrow> [])"
  have "set path \<subseteq> set rest"
    by (cases "split_once (str ''/'') rest")
       (auto simp: path_def str_def dest!: split_once_Some split: if_splits)
  also have "\<dots> \<subseteq> set (trim a)" using split_once_Some [OF 1(1)] by auto
  finally have 3: "set path \<subseteq> set (trim a)" .
  have "k = to_lowercase uni scheme @ str ''://'' @ bracketed (to_lowercase uni host) @
       58 # show_nat (unat port) @ path"
    using assms 1 2 unfolding path_def bracketed_def
    by (simp add: normalize_community_node_address_def Let_def split: if_splits)
  moreover have "path = [] \<or> (\<exists>p. path = 47 # p \<and> p \<noteq> [])"
    by (auto simp: path_def split: option.splits)
  ultimately show thesis using that 1 2 3 by blast
qed

section \<open>Properties\<close>

text \<open>
  C25. What the probing rule admits, measured against the special-purpose address registries. The
  rule refuses no address outside the special-purpose blocks. Inside them it does not do what its
  comment and the README promise (public unicast only): it refuses all of them, in every
  IPv4-mapped spelling too, except the blocks of \<open>probe_gap\<close>, all of whose addresses it
  admits: 0.0.0.0/8 other than 0.0.0.0, the 6to4 relays 192.88.99.0/24, NAT64
  (64:ff9b::/96 and 64:ff9b:1::/48), 100::/64, 100:0:0:1::/64, 2001::/23 with Teredo, 6to4
  (2002::/16), 3fff::/20, 5f00::/16 and site-local fec0::/10. NAT64, 6to4 and Teredo addresses
  can embed a private IPv4 address.
\<close>

theorem probe_rule_reference:
  "(\<not> special_purpose ip \<longrightarrow> is_public_probe_target ip) \<and>
   (special_purpose ip \<longrightarrow> (is_public_probe_target ip \<longleftrightarrow> probe_gap ip))"
  using rule_and_reference by blast

text \<open>The rule on one address of each kind: public, private, mapped private, and NAT64 of a private one.\<close>

theorem probe_rule_reference_witness:
  "is_public_probe_target (V4 (ipv4_of 8 8 8 8)) \<and> \<not> is_public_probe_target (V4 (ipv4_of 10 0 0 1)) \<and>
   \<not> is_public_probe_target (V6 (of_nat (65535 * 2 ^ 32 + 10 * 2 ^ 24 + 1))) \<and>
   is_public_probe_target (V6 (of_nat ((100 * 65536 + 65435) * 2 ^ 96 + 10 * 2 ^ 24 + 1)))"
proof -
  have "\<not> special_purpose (V4 (ipv4_of 8 8 8 8))" "special_purpose (V4 (ipv4_of 10 0 0 1))"
    "\<not> probe_gap (V4 (ipv4_of 10 0 0 1))"
    "special_purpose (V6 (of_nat (65535 * 2 ^ 32 + 10 * 2 ^ 24 + 1)))"
    "\<not> probe_gap (V6 (of_nat (65535 * 2 ^ 32 + 10 * 2 ^ 24 + 1)))"
    "special_purpose (V6 (of_nat ((100 * 65536 + 65435) * 2 ^ 96 + 10 * 2 ^ 24 + 1)))"
    "probe_gap (V6 (of_nat ((100 * 65536 + 65435) * 2 ^ 96 + 10 * 2 ^ 24 + 1)))"
    by code_simp+
  then show ?thesis
    using probe_rule_reference [of "V4 (ipv4_of 8 8 8 8)"] probe_rule_reference [of "V4 (ipv4_of 10 0 0 1)"]
      probe_rule_reference [of "V6 (of_nat (65535 * 2 ^ 32 + 10 * 2 ^ 24 + 1))"]
      probe_rule_reference [of "V6 (of_nat ((100 * 65536 + 65435) * 2 ^ 96 + 10 * 2 ^ 24 + 1))"]
    by blast
qed

text \<open>
  C26. What a submission can make the server contact. With private targets disallowed, whatever
  the resolver answers, no contacted address is a private, shared, loopback or link-local IPv4
  address (so not the metadata service), plain or IPv4-mapped, nor a loopback, unique local or
  link-local IPv6 address; every contacted address lies outside the special-purpose blocks or in
  one of the gaps of \<open>probe_gap\<close>, which the rule does not exclude (0.0.0.0/8, NAT64, 6to4 and the
  others listed with the rule, so a host with such a translator can still be made to reach its
  inside). A probe contacts at most five times, and it reports a node alive only when a contacted
  address answered.
\<close>

theorem probe_only_public:
  assumes "probe_community_node_limited uni P False address = (outcome, contacted)"
  shows "length contacted \<le> 5 \<and>
    (\<forall>a \<in> set contacted. \<not> inside_network (fst a) \<and> (\<not> special_purpose (fst a) \<or> probe_gap (fst a))) \<and>
    (\<forall>ms. outcome = Alive ms \<longrightarrow>
       (\<exists>a \<in> set contacted. (\<exists>i. pb_connect P i a \<noteq> None) \<or> pb_udp_recv P a \<noteq> None))"
proof -
  have "\<exists>a \<in> set contacted. (\<exists>i. pb_connect P i a \<noteq> None) \<or> pb_udp_recv P a \<noteq> None"
    if "outcome = Alive ms" for ms
    using probe_alive [OF assms(1) [unfolded that]] .
  moreover have "is_public_probe_target (fst a)" if "a \<in> set contacted" for a
    using probe_contacts(1) [OF assms] that by auto
  ultimately show ?thesis
    using probe_contacts(2) [OF assms] inside_refused rule_and_reference(2) by blast
qed

definition demo_prober :: prober where
  "demo_prober =
     \<lparr>pb_lookup = (\<lambda>host port. Some [(V4 (ipv4_of 10 0 0 1), port), (V4 (ipv4_of 8 8 8 8), port)]),
      pb_connect = (\<lambda>i a. if i = 0 then Some 12 else None), pb_udp_bind = (\<lambda>_. True),
      pb_udp_connect = (\<lambda>_. True), pb_udp_send = (\<lambda>_. True), pb_udp_recv = (\<lambda>_. None),
      pb_permit = True\<rparr>"

theorem probe_only_public_witness:
  "probe_community_node_limited id demo_prober False (str ''tcp://example.org:80'') =
     (Alive 12, [(V4 (ipv4_of 8 8 8 8), 80)]) \<and>
   \<not> inside_network (V4 (ipv4_of 8 8 8 8))"
proof -
  have "probe_community_node_limited id demo_prober False (str ''tcp://example.org:80'') =
     (Alive 12, [(V4 (ipv4_of 8 8 8 8), 80)])" by code_simp
  from this probe_only_public [OF this] show ?thesis by simp
qed

text \<open>
  C27. Printing and reading an address agree: the normal form of an ASCII address reads back as
  its lower-cased host and its port, and is its own normal form, so it is the key of one node
  however it was spelled. The host must not contain brackets and the normal form must stay
  within the length limit.
\<close>

theorem node_address_normal_form:
  assumes "normalize_community_node_address uni a = Inr k" "list_all (\<lambda>c. c < 128) a"
    and "parse_node_host_port uni a = Some (host, port)" "set host \<inter> {91, 93} = {}"
    and "str_len k \<le> COMMUNITY_NODE_ADDRESS_MAX_LEN"
  shows "normalize_community_node_address uni k = Inr k \<and>
    parse_node_host_port uni k = Some (map ascii_lower host, port)"
proof -
  have parse: "parse_node_host_port uni (trim a) = Some (host, port)"
    using assms(3) by (simp add: parse_node_host_port_def)
  from assms(1) obtain scheme rest path where n: "plain (trim a)"
    "to_lowercase uni scheme \<in> node_schemes" "port \<noteq> 0"
    "path = [] \<or> (\<exists>p. path = 47 # p \<and> p \<noteq> [])" "set path \<subseteq> set (trim a)"
    "k = to_lowercase uni scheme @ str ''://'' @ bracketed (to_lowercase uni host) @
       58 # show_nat (unat port) @ path"
    by (rule normalize_shape) (simp add: parse)
  have host: "host \<noteq> []" "47 \<notin> set host" "set host \<subseteq> set (trim a)"
    using parse_node_host [OF parse] by auto
  then have "list_all (\<lambda>c. c < 128) host"
    using assms(2) trim_subset [of a] by (auto simp: list_all_iff)
  then have low: "to_lowercase uni host = map ascii_lower host"
    "to_lowercase uni (map ascii_lower host) = map ascii_lower host"
    by (simp_all add: lower_ascii list_all_iff lower_props)
  have "set (map ascii_lower host) \<inter> {47, 91, 93} = {}"
    using assms(4) host(2) by (auto simp: ascii_lower_def split: if_splits)
  moreover have "plain (map ascii_lower host)" "plain path"
    using n(1,5) host(3) by (simp_all add: plain_lower plain_subset)
  ultimately show ?thesis
    using normal_form [OF n(2), of "map ascii_lower host" uni path port k] host(1) n(3-6) low assms(5)
    by simp
qed

theorem node_address_normal_form_witness:
  "normalize_community_node_address id (str ''WSS://Node.Example/a'') =
     Inr (str ''wss://node.example:443/a'') \<and>
   normalize_community_node_address id (str ''wss://node.example:443/a'') =
     Inr (str ''wss://node.example:443/a'') \<and>
   parse_node_host_port id (str ''wss://node.example:443/a'') = Some (str ''node.example'', 443)"
proof -
  have 1: "normalize_community_node_address id (str ''WSS://Node.Example/a'') =
     Inr (str ''wss://node.example:443/a'')" by code_simp
  have 2: "parse_node_host_port id (str ''WSS://Node.Example/a'') = Some (str ''Node.Example'', 443)"
    by code_simp
  have 3: "map ascii_lower (str ''Node.Example'') = str ''node.example''"
    "list_all (\<lambda>c. c < 128) (str ''WSS://Node.Example/a'')"
    "set (str ''Node.Example'') \<inter> {91, 93} = {}"
    "str_len (str ''wss://node.example:443/a'') \<le> COMMUNITY_NODE_ADDRESS_MAX_LEN"
    by code_simp+
  from 1 node_address_normal_form [OF 1 3(2) 2 3(3,4)] 3(1) show ?thesis by simp
qed

text \<open>
  Without that condition it fails: an unbracketed host with a closing bracket is printed to a
  text that reads as another host and port, so the probed address is not the listed one.
\<close>

lemma bracket_host_not_stable:
  "normalize_community_node_address id (str ''tcp://a]b:c:1'') = Inr (str ''tcp://[a]b:c]:1'')"
  "parse_node_host_port id (str ''tcp://a]b:c:1'') = Some (str ''a]b:c'', 1)"
  "parse_node_host_port id (str ''tcp://[a]b:c]:1'') = Some (str ''a'', 11010)"
  "normalize_community_node_address id (str ''tcp://[a]b:c]:1'') = Inr (str ''tcp://a:11010'')"
  by code_simp+

text \<open>
  The length limit is checked before the default port is added: an address of 128 bytes is
  accepted, and its normal form is refused as too long when it is read again.
\<close>

lemma long_address_refused_later:
  "normalize_community_node_address id (str ''tcp://'' @ replicate 122 97) =
     Inr (str ''tcp://'' @ replicate 122 97 @ str '':11010'')"
  "normalize_community_node_address id (str ''tcp://'' @ replicate 122 97 @ str '':11010'') =
     Inl msg_address_long"
  by code_simp+

end
