(* ===== verification/Community_Nodes.thy ===== *)
theory Community_Nodes
  imports Node_Address Connection_Guard Rate_Windows Wire_Json
    "HOL-Library.List_Lexorder" "HOL-Library.Product_Lexorder" "HOL-Library.Multiset"
begin

text \<open>
  The second half of \<open>src/src/community_nodes.rs\<close>: the table of submitted nodes, its file, the
  list shown to clients, the periodic sweep and the submission handler.

  The state is the record \<open>Community\<close>: the node table, the cooldown and quota tables, the files
  of the working directory and the counter of the temporary file names. Reading and printing the
  node list as JSON (\<open>serde_json\<close>) is the record \<open>node_codec\<close>; \<open>node_codec_law\<close> says that what
  was printed is read back (for nodes made of Rust strings). A submission runs its lock sections one after the other; what other
  tasks do to the state while its probe is under way is the argument \<open>during\<close>.
\<close>

section \<open>Texts\<close>

definition msg_name_empty :: rstr where
  "msg_name_empty =
     [33410, 28857, 21517, 31216, 19981, 33021, 20026, 31354]"

definition msg_sources_full :: rstr where
  "msg_sources_full =
     [25237, 31295, 26469, 28304, 36807, 22810, 65292, 35831, 31245, 21518, 20877, 35797]"

definition msg_quota_used :: rstr where
  "msg_quota_used =
     [35813, 26469, 28304, 30340, 25237, 31295, 37197, 39069, 24050, 29992, 23613, 65292, 35831,
     31245, 21518, 20877, 35797]"

definition msg_wait_before :: rstr where
  "msg_wait_before =
     [25237, 31295, 36807, 20110, 39057, 32321, 65292, 35831] @ str '' ''"

definition msg_wait_after :: rstr where
  "msg_wait_after =
     str '' '' @ [31186, 21518, 20877, 35797]"

definition msg_list_full :: rstr where
  "msg_list_full =
     [20849, 20139, 33410, 28857, 21015, 34920, 24050, 28385, 65292, 35831, 31245, 21518, 20877,
     35797]"

definition msg_unreachable :: rstr where
  "msg_unreachable =
     [35813, 33410, 28857, 24403, 21069, 19981, 21487, 36798, 65292, 35831, 30830, 35748, 22320,
     22336, 19982, 31471, 21475, 21518, 37325, 26032, 25552, 20132]"

definition msg_not_public :: rstr where
  "msg_not_public =
     [21482, 25509, 21463, 20844, 32593, 21487, 35775, 38382, 30340, 33410, 28857, 22320, 22336,
     65292, 22238, 29615] @ str ''/'' @ [20869, 32593] @ str ''/'' @ [20445, 30041, 22320, 22336,
     26080, 27861, 20316, 20026, 20849, 20139, 33410, 28857]"

definition msg_busy :: rstr where
  "msg_busy =
     [24403, 21069, 25506, 27979, 38431, 21015, 32321, 24537, 65292, 35831, 31245, 21518, 20877,
     35797]"

definition msg_refreshed :: rstr where
  "msg_refreshed =
     [35813, 33410, 28857, 24050, 22312, 20849, 20139, 21015, 34920, 20013, 65292, 24050, 21047,
     26032, 23384, 27963, 29366, 24577]"

definition msg_submitted :: rstr where
  "msg_submitted =
     [25237, 31295, 25104, 21151, 65292, 24863, 35874, 20998, 20139]"

section \<open>State\<close>

type_synonym CommunityNodes = "(rstr, CommunityNodeInfo) hashmap"
type_synonym SubmitCooldowns = "(ip_addr, u64) hashmap"
type_synonym SubmitQuotas = "(ip_addr, SubmitQuota) hashmap"

record Community =
  cm_nodes :: CommunityNodes
  cm_cooldowns :: SubmitCooldowns
  cm_quotas :: SubmitQuotas
  cm_files :: "(rstr, rstr) hashmap"
  cm_generation :: u64

record node_codec =
  nc_print :: "CommunityNodeInfo list \<Rightarrow> rstr"
  nc_parse :: "rstr \<Rightarrow> CommunityNodeInfo list option"

definition unicode_node :: "CommunityNodeInfo \<Rightarrow> bool" where
  "unicode_node n \<longleftrightarrow>
     unicode (cn_name n) \<and> unicode (cn_address n) \<and> (\<forall>t. cn_submitter n = Some t \<longrightarrow> unicode t)"

definition node_codec_law :: "node_codec \<Rightarrow> bool" where
  "node_codec_law C \<longleftrightarrow>
     (\<forall>nodes. (\<forall>n \<in> set nodes. unicode_node n) \<longrightarrow> nc_parse C (nc_print C nodes) = Some nodes)"

section \<open>Expiry and the file\<close>

definition is_community_node_expired :: "CommunityNodeInfo \<Rightarrow> u64 \<Rightarrow> bool" where
  "is_community_node_expired node now \<longleftrightarrow>
     COMMUNITY_NODE_MAX_OFFLINE_SECS < saturating_sub now (cn_last_ok_at node)"

text \<open>The loop of \<open>load_community_nodes_from_disk\<close> over the nodes of the file.\<close>

fun load_nodes :: "(rstr \<Rightarrow> rstr) \<Rightarrow> u64 \<Rightarrow> CommunityNodeInfo list \<Rightarrow> CommunityNodes \<Rightarrow> CommunityNodes" where
  "load_nodes uni now [] m = m"
| "load_nodes uni now (node # nodes) m =
     load_nodes uni now nodes
       (case normalize_community_node_address uni (cn_address node) of
          Inl _ \<Rightarrow> m
        | Inr key \<Rightarrow> if is_community_node_expired node now then m else hm_insert key node m)"

definition load_community_nodes_from_disk ::
  "node_codec \<Rightarrow> (rstr \<Rightarrow> rstr) \<Rightarrow> (rstr, rstr) hashmap \<Rightarrow> rstr \<Rightarrow> u64 \<Rightarrow> CommunityNodes" where
  "load_community_nodes_from_disk C uni files path now =
     (case hm_get files path of
        None \<Rightarrow> []
      | Some raw \<Rightarrow>
          (case nc_parse C raw of None \<Rightarrow> [] | Some nodes \<Rightarrow> load_nodes uni now nodes []))"

text \<open>
  Writing the snapshot. \<open>write\<close> is \<open>Inr ()\<close> when the temporary file was written, and \<open>Inl\<close> of
  what the failed write left in it (if anything); \<open>rename_ok\<close> and \<open>remove_ok\<close> are the results of
  the two other calls.
\<close>

record disk =
  dk_pid :: nat
  dk_write :: "rstr option + unit"
  dk_rename_ok :: bool
  dk_remove_ok :: bool

definition node_snapshot :: "CommunityNodes \<Rightarrow> CommunityNodeInfo list" where
  "node_snapshot nodes = sort_key cn_address (hm_values nodes)"

definition persist_community_nodes ::
  "node_codec \<Rightarrow> ServerConfig \<Rightarrow> disk \<Rightarrow> Community \<Rightarrow> Community" where
  "persist_community_nodes C cfg D s =
     (let path = community_nodes_file cfg;
          json = nc_print C (node_snapshot (cm_nodes s));
          generation = cm_generation s + 1;
          tmp = path @ str ''.'' @ show_nat (dk_pid D) @ str ''.'' @ show_nat (unat generation)
                  @ str ''.tmp'';
          files = cm_files s
      in s\<lparr>cm_generation := generation,
           cm_files :=
             (case dk_write D of
                Inl None \<Rightarrow> files
              | Inl (Some part) \<Rightarrow> hm_insert tmp part files
              | Inr _ \<Rightarrow>
                  if dk_rename_ok D then hm_insert path json (hm_remove tmp files)
                  else if dk_remove_ok D then hm_remove tmp files
                  else hm_insert tmp json files)\<rparr>)"

section \<open>The list shown to clients\<close>

text \<open>Online first, then by latency (unknown last), then by name; the sort is stable.\<close>

definition node_order_key :: "CommunityNodeInfo \<Rightarrow> bool \<times> u64 \<times> rstr" where
  "node_order_key n =
     (\<not> cn_online n, (case cn_latency_ms n of None \<Rightarrow> - 1 | Some ms \<Rightarrow> ms), cn_name n)"

definition community_node_list :: "CommunityNodes \<Rightarrow> CommunityNodeInfo list" where
  "community_node_list nodes = sort_key node_order_key (hm_values nodes)"

section \<open>The sweep\<close>

definition apply_probe ::
  "u64 \<Rightarrow> CommunityNodes \<times> nat \<Rightarrow> rstr \<times> ProbeOutcome \<Rightarrow> CommunityNodes \<times> nat" where
  "apply_probe now acc result =
     (let (m, online) = acc; (address, outcome) = result
      in case hm_get m address of
           None \<Rightarrow> (m, online)
         | Some node \<Rightarrow>
             (case outcome of
                Alive ms \<Rightarrow>
                  (hm_insert address
                     (node\<lparr>cn_online := True, cn_latency_ms := Some ms, cn_last_ok_at := now\<rparr>) m,
                   online + 1)
              | Dead \<Rightarrow> (hm_insert address (node\<lparr>cn_online := False, cn_latency_ms := None\<rparr>) m, online)
              | Blocked \<Rightarrow> (hm_insert address (node\<lparr>cn_online := False, cn_latency_ms := None\<rparr>) m, online)
              | Busy \<Rightarrow> (m, online)))"

text \<open>
  \<open>P\<close> gives the answers of the environment to the probe of each address; \<open>during\<close> is what other
  tasks do between the reading of the keys and the writing of the results.
\<close>

definition sweep_community_nodes_with_limiter ::
  "node_codec \<Rightarrow> (rstr \<Rightarrow> rstr) \<Rightarrow> ServerConfig \<Rightarrow> disk \<Rightarrow> (rstr \<Rightarrow> prober) \<Rightarrow> (Community \<Rightarrow> Community)
     \<Rightarrow> u64 \<Rightarrow> Community \<Rightarrow> (nat \<times> nat) \<times> Community" where
  "sweep_community_nodes_with_limiter C uni cfg D P during now s =
     (let targets = hm_keys (cm_nodes s)
      in if targets = [] then ((0, 0), s)
         else
           let results = map (\<lambda>address. (address, fst (probe_community_node_limited uni (P address)
                            (community_node_allow_private_targets cfg) address))) targets;
               s1 = during s;
               (m, online) = foldl (apply_probe now) (cm_nodes s1, 0) results;
               kept = hm_retain (\<lambda>_ node. \<not> is_community_node_expired node now) m;
               removed = hm_len m - hm_len kept;
               s2 = s1\<lparr>cm_nodes := kept\<rparr>
           in ((online, removed), if 0 < removed then persist_community_nodes C cfg D s2 else s2))"

section \<open>Submission\<close>

text \<open>The readings of the two clocks during one submission.\<close>

record submit_clock =
  sc_unix :: u64
  sc_retain :: "ip_addr \<Rightarrow> instant"
  sc_entry :: instant
  sc_now :: instant
  sc_restart :: instant

definition reject :: "rstr \<Rightarrow> SignalingMessage" where
  "reject message = CommunityNodeSubmitResult False message None"

definition submit_quota_section ::
  "submit_clock \<Rightarrow> ip_addr \<Rightarrow> SubmitQuotas \<Rightarrow> rstr option \<times> SubmitQuotas" where
  "submit_quota_section T ip quotas =
     (let quotas = hm_retain (\<lambda>src quota. sc_retain T src - sq_window_started quota
                      < from_secs (COMMUNITY_NODE_SUBMIT_WINDOW_SECS * 2)) quotas
      in if \<not> hm_contains quotas ip \<and> MAX_TRACKED_IP_SUBMITTERS \<le> hm_len quotas
         then (Some msg_sources_full, quotas)
         else
           let quota = (case hm_get quotas ip of
                          Some q \<Rightarrow> q
                        | None \<Rightarrow> \<lparr>sq_window_started = sc_entry T, sq_submissions = 0\<rparr>);
               (ok, quota) = allow_submit_quota quota (sc_now T) (sc_restart T)
           in (if ok then None else Some msg_quota_used, hm_insert ip quota quotas))"

definition submit_cooldown_section ::
  "u64 \<Rightarrow> ip_addr \<Rightarrow> SubmitCooldowns \<Rightarrow> rstr option \<times> SubmitCooldowns" where
  "submit_cooldown_section now ip cooldowns =
     (let cooldowns = hm_retain (\<lambda>_ at. saturating_sub now at \<le> COMMUNITY_NODE_SUBMIT_COOLDOWN_SECS)
                        cooldowns
      in case hm_get cooldowns ip of
           Some last_at \<Rightarrow>
             let wait = saturating_sub COMMUNITY_NODE_SUBMIT_COOLDOWN_SECS (saturating_sub now last_at)
             in (Some (msg_wait_before @ show_nat (unat (max wait 1)) @ msg_wait_after), cooldowns)
         | None \<Rightarrow> (None, hm_insert ip now cooldowns))"

definition store_node ::
  "nat \<Rightarrow> u64 \<Rightarrow> rstr \<Rightarrow> rstr \<Rightarrow> rstr option \<Rightarrow> u64 \<Rightarrow> CommunityNodes \<Rightarrow>
     rstr + CommunityNodeInfo \<times> CommunityNodes" where
  "store_node capacity now normalized clean_name clean_submitter latency nodes =
     (case hm_get nodes normalized of
        Some existing \<Rightarrow>
          let node = existing\<lparr>cn_name := clean_name,
                cn_submitter := (if clean_submitter \<noteq> None then clean_submitter
                                 else cn_submitter existing),
                cn_online := True, cn_latency_ms := Some latency, cn_last_ok_at := now\<rparr>
          in Inr (node, hm_insert normalized node nodes)
      | None \<Rightarrow>
          if capacity \<le> hm_len nodes then Inl msg_list_full
          else
            let node = \<lparr>cn_name = clean_name, cn_address = normalized, cn_submitter = clean_submitter,
                  cn_submitted_at = now, cn_last_ok_at = now, cn_online = True,
                  cn_latency_ms = Some latency\<rparr>
            in Inr (node, hm_insert normalized node nodes))"

definition handle_community_node_submit_with_limits ::
  "node_codec \<Rightarrow> (rstr \<Rightarrow> rstr) \<Rightarrow> ServerConfig \<Rightarrow> disk \<Rightarrow> prober \<Rightarrow> (Community \<Rightarrow> Community) \<Rightarrow>
     submit_clock \<Rightarrow> socket_addr \<Rightarrow> rstr \<Rightarrow> rstr \<Rightarrow> rstr option \<Rightarrow> Community \<Rightarrow>
     SignalingMessage \<times> Community" where
  "handle_community_node_submit_with_limits C uni cfg D P during T peer name address submitter s =
     (let ip = quota_source (fst peer)
      in case normalize_community_node_address uni address of
           Inl reason \<Rightarrow> (reject reason, s)
         | Inr normalized \<Rightarrow>
             let clean_name = sanitize_community_text name COMMUNITY_NODE_NAME_MAX_LEN
             in if clean_name = [] then (reject msg_name_empty, s)
                else
                  let clean_submitter =
                        (case map_option (\<lambda>n. sanitize_community_text n COMMUNITY_NODE_SUBMITTER_MAX_LEN)
                                submitter of
                           Some n \<Rightarrow> if n \<noteq> [] then Some n else None
                         | None \<Rightarrow> None);
                      now = sc_unix T;
                      (err, quotas) = submit_quota_section T ip (cm_quotas s);
                      s1 = s\<lparr>cm_quotas := quotas\<rparr>
                  in case err of
                       Some message \<Rightarrow> (reject message, s1)
                     | None \<Rightarrow>
                         let (err, cooldowns) = submit_cooldown_section now ip (cm_cooldowns s1);
                             s2 = s1\<lparr>cm_cooldowns := cooldowns\<rparr>
                         in case err of
                              Some message \<Rightarrow> (reject message, s2)
                            | None \<Rightarrow>
                                let already_exists = hm_contains (cm_nodes s2) normalized
                                in if \<not> already_exists \<and> community_node_capacity cfg \<le> hm_len (cm_nodes s2)
                                   then (reject msg_list_full, s2)
                                   else
                                     let s3 = during s2
                                     in case fst (probe_community_node_limited uni P
                                               (community_node_allow_private_targets cfg) normalized) of
                                          Dead \<Rightarrow> (reject msg_unreachable, s3)
                                        | Blocked \<Rightarrow> (reject msg_not_public, s3)
                                        | Busy \<Rightarrow> (reject msg_busy, s3)
                                        | Alive latency \<Rightarrow>
                                            (case store_node (community_node_capacity cfg) now normalized
                                                    clean_name clean_submitter latency (cm_nodes s3) of
                                               Inl message \<Rightarrow> (reject message, s3)
                                             | Inr (node, nodes) \<Rightarrow>
                                                 (CommunityNodeSubmitResult True
                                                    (if already_exists then msg_refreshed
                                                     else msg_submitted) (Some node),
                                                  persist_community_nodes C cfg D
                                                    (s3\<lparr>cm_nodes := nodes\<rparr>))))"

section \<open>Loading what was written\<close>

text \<open>
  The nodes a load would enter under a key, in the order of the file: their address normalises to
  the key and they are not expired.
\<close>

definition loadable :: "(rstr \<Rightarrow> rstr) \<Rightarrow> u64 \<Rightarrow> rstr \<Rightarrow> CommunityNodeInfo \<Rightarrow> bool" where
  "loadable uni now k n \<longleftrightarrow>
     normalize_community_node_address uni (cn_address n) = Inr k \<and> \<not> is_community_node_expired n now"

lemma load_nodes_get:
  "hm_get (load_nodes uni now nodes m) k =
     (if filter (loadable uni now k) nodes = [] then hm_get m k
      else Some (last (filter (loadable uni now k) nodes)))"
proof (induction nodes arbitrary: m)
  case (Cons n nodes)
  show ?case
    by (simp add: Cons.IH loadable_def split: sum.split) (auto simp: hm_simps)
qed simp

lemma load_nodes_wf: "hm_wf m \<Longrightarrow> hm_wf (load_nodes uni now nodes m)"
  by (induction uni now nodes m rule: load_nodes.induct) (auto simp: hm_simps split: sum.splits)

lemma load_wf: "hm_wf (load_community_nodes_from_disk C uni files path now)"
  by (auto simp: load_community_nodes_from_disk_def load_nodes_wf split: option.splits)

lemma load_key:
  assumes "hm_get (load_community_nodes_from_disk C uni files path now) k = Some n"
  shows "loadable uni now k n"
proof -
  obtain nodes where "filter (loadable uni now k) nodes \<noteq> []" "n = last (filter (loadable uni now k) nodes)"
    using assms by (auto simp: load_community_nodes_from_disk_def load_nodes_get
        split: option.splits if_splits)
  then have "n \<in> set (filter (loadable uni now k) nodes)" by (metis last_in_set)
  then show ?thesis by simp
qed

lemma tmp_not_path: "path @ str ''.'' @ x \<noteq> path"
  by (simp add: str_def)

lemma persist_simps [simp]:
  "cm_nodes (persist_community_nodes C cfg D s) = cm_nodes s"
  "cm_cooldowns (persist_community_nodes C cfg D s) = cm_cooldowns s"
  "cm_quotas (persist_community_nodes C cfg D s) = cm_quotas s"
  by (simp_all add: persist_community_nodes_def Let_def)

lemma persist_file:
  "hm_get (cm_files (persist_community_nodes C cfg D s)) (community_nodes_file cfg) =
     (if dk_write D = Inr () \<and> dk_rename_ok D then Some (nc_print C (node_snapshot (cm_nodes s)))
      else hm_get (cm_files s) (community_nodes_file cfg))"
  using tmp_not_path [of "community_nodes_file cfg"]
  by (auto simp: persist_community_nodes_def Let_def hm_simps split: sum.splits option.splits)

section \<open>The sweep, node by node\<close>

definition probed_node :: "u64 \<Rightarrow> ProbeOutcome \<Rightarrow> CommunityNodeInfo \<Rightarrow> CommunityNodeInfo" where
  "probed_node now outcome n =
     (case outcome of
        Alive ms \<Rightarrow> n\<lparr>cn_online := True, cn_latency_ms := Some ms, cn_last_ok_at := now\<rparr>
      | Dead \<Rightarrow> n\<lparr>cn_online := False, cn_latency_ms := None\<rparr>
      | Blocked \<Rightarrow> n\<lparr>cn_online := False, cn_latency_ms := None\<rparr>
      | Busy \<Rightarrow> n)"

lemma apply_probe_get:
  "hm_get (fst (apply_probe now (m, i) (a, out))) k =
     (if k = a then map_option (probed_node now out) (hm_get m k) else hm_get m k)"
  by (auto simp: apply_probe_def probed_node_def hm_simps split: option.splits ProbeOutcome.splits)

lemma apply_probe_len:
  "hm_wf m \<Longrightarrow> hm_wf (fst (apply_probe now (m, i) r)) \<and> hm_len (fst (apply_probe now (m, i) r)) = hm_len m"
  by (cases r) (auto simp: apply_probe_def hm_simps split: option.splits ProbeOutcome.splits)

lemma apply_probes_len:
  "hm_wf (fst acc) \<Longrightarrow>
   hm_wf (fst (foldl (apply_probe now) acc rs)) \<and> hm_len (fst (foldl (apply_probe now) acc rs)) = hm_len (fst acc)"
proof (induction rs arbitrary: acc)
  case (Cons r rs)
  obtain m i where acc: "acc = (m, i)" by fastforce
  then show ?case using Cons.IH [of "apply_probe now acc r"] apply_probe_len [of m now i r] Cons.prems by simp
qed simp

lemma apply_probes_get:
  "distinct ks \<Longrightarrow>
   hm_get (fst (foldl (apply_probe now) acc (map (\<lambda>a. (a, f a)) ks))) k =
     (if k \<in> set ks then map_option (probed_node now (f k)) (hm_get (fst acc) k) else hm_get (fst acc) k)"
proof (induction ks arbitrary: acc)
  case (Cons a ks)
  obtain m i where acc: "acc = (m, i)" by fastforce
  then show ?case using Cons.IH [of "apply_probe now acc (a, f a)"] Cons.prems
    by (auto simp: apply_probe_get)
qed simp

lemma sweep_write:
  assumes "hm_wf m" "distinct ks"
  shows "hm_get (hm_retain (\<lambda>_ node. \<not> is_community_node_expired node now)
      (fst (foldl (apply_probe now) (m, 0) (map (\<lambda>a. (a, f a)) ks)))) k =
    (case hm_get m k of
       None \<Rightarrow> None
     | Some n \<Rightarrow>
         let n' = (if k \<in> set ks then probed_node now (f k) n else n)
         in if is_community_node_expired n' now then None else Some n')"
  using apply_probes_len [of "(m, 0)"] assms(1)
  by (auto simp: hm_get_retain apply_probes_get [OF assms(2)] Let_def split: option.splits)

lemma alive_not_expired: "\<not> is_community_node_expired (probed_node now (Alive ms) n) now"
  by (simp add: is_community_node_expired_def probed_node_def saturating_sub_def word_less_nat_alt)

lemma sweep_table:
  assumes "cm_nodes s \<noteq> []"
  shows "cm_nodes (snd (sweep_community_nodes_with_limiter C uni cfg D P during now s)) =
    hm_retain (\<lambda>_ node. \<not> is_community_node_expired node now)
      (fst (foldl (apply_probe now) (cm_nodes (during s), 0)
        (map (\<lambda>a. (a, fst (probe_community_node_limited uni (P a)
           (community_node_allow_private_targets cfg) a))) (hm_keys (cm_nodes s)))))"
  using assms by (simp add: sweep_community_nodes_with_limiter_def Let_def hm_keys_def split: prod.splits)

section \<open>The tables under interleaving\<close>

text \<open>
  One step is one lock section of a submission or of the sweep, or the writing of the file;
  the sections of concurrent tasks interleave in any order.
\<close>

inductive community_step ::
  "node_codec \<Rightarrow> (rstr \<Rightarrow> rstr) \<Rightarrow> ServerConfig \<Rightarrow> Community \<Rightarrow> Community \<Rightarrow> bool"
  for C uni cfg where
  Quota: "community_step C uni cfg s (s\<lparr>cm_quotas := snd (submit_quota_section T ip (cm_quotas s))\<rparr>)"
| Cooldown: "community_step C uni cfg s
    (s\<lparr>cm_cooldowns := snd (submit_cooldown_section now ip (cm_cooldowns s))\<rparr>)"
| Store: "store_node (community_node_capacity cfg) now normalized nm sb latency (cm_nodes s) = Inr (node, nodes) \<Longrightarrow>
    normalize_community_node_address uni address = Inr normalized \<Longrightarrow>
    community_step C uni cfg s (s\<lparr>cm_nodes := nodes\<rparr>)"
| Sweep: "community_step C uni cfg s
    (s\<lparr>cm_nodes := hm_retain (\<lambda>_ node. \<not> is_community_node_expired node now)
         (fst (foldl (apply_probe now) (cm_nodes s, 0) results))\<rparr>)"
| Persist: "community_step C uni cfg s (persist_community_nodes C cfg D s)"

definition normal_keys :: "(rstr \<Rightarrow> rstr) \<Rightarrow> CommunityNodes \<Rightarrow> bool" where
  "normal_keys uni m \<longleftrightarrow>
     (\<forall>k. hm_get m k \<noteq> None \<longrightarrow> (\<exists>a. normalize_community_node_address uni a = Inr k))"

definition tables_inv :: "(rstr \<Rightarrow> rstr) \<Rightarrow> nat \<Rightarrow> Community \<Rightarrow> bool" where
  "tables_inv uni bound s \<longleftrightarrow> normal_keys uni (cm_nodes s) \<and>
     hm_wf (cm_nodes s) \<and> hm_wf (cm_cooldowns s) \<and> hm_wf (cm_quotas s) \<and>
     hm_len (cm_nodes s) \<le> bound \<and> hm_len (cm_quotas s) \<le> MAX_TRACKED_IP_SUBMITTERS"

lemma store_node_len:
  "store_node cap now k nm sb latency m = Inr (node, m') \<Longrightarrow> hm_wf m \<Longrightarrow>
   hm_wf m' \<and> hm_len m' \<le> max cap (hm_len m) \<and> m' = hm_insert k node m"
  by (auto simp: store_node_def Let_def hm_simps split: option.splits if_splits)

lemma quota_section_len:
  "hm_wf q \<Longrightarrow> hm_len q \<le> MAX_TRACKED_IP_SUBMITTERS \<Longrightarrow>
   hm_wf (snd (submit_quota_section T ip q)) \<and>
   hm_len (snd (submit_quota_section T ip q)) \<le> MAX_TRACKED_IP_SUBMITTERS"
  using hm_len_retain [of "\<lambda>src quota. sc_retain T src - sq_window_started quota
      < from_secs (COMMUNITY_NODE_SUBMIT_WINDOW_SECS * 2)" q]
  by (auto simp: submit_quota_section_def Let_def hm_simps hm_contains_def split: prod.splits option.splits)

lemma cooldown_section_wf:
  "hm_wf m \<Longrightarrow> hm_wf (snd (submit_cooldown_section now ip m))"
  by (auto simp: submit_cooldown_section_def Let_def hm_simps split: option.splits)

lemma apply_probe_keys:
  "(hm_get (fst (apply_probe now acc r)) k = None) = (hm_get (fst acc) k = None)"
  by (cases acc; cases r) (simp add: apply_probe_get)

lemma apply_probes_keys:
  "(hm_get (fst (foldl (apply_probe now) acc rs)) k = None) = (hm_get (fst acc) k = None)"
  by (induction rs arbitrary: acc) (simp_all add: apply_probe_keys)

lemma community_step_inv:
  "community_step C uni cfg s t \<Longrightarrow> community_node_capacity cfg \<le> bound \<Longrightarrow> tables_inv uni bound s \<Longrightarrow>
   tables_inv uni bound t"
proof (induction rule: community_step.induct)
  case (Store now normalized nm sb latency s node nodes address)
  then show ?case using store_node_len [OF Store(1)]
    by (auto simp: tables_inv_def normal_keys_def hm_simps)
next
  case (Sweep s now results)
  let ?m = "fst (foldl (apply_probe now) (cm_nodes s, 0) results)"
  have m: "hm_wf ?m" "hm_len ?m = hm_len (cm_nodes s)"
    using apply_probes_len [of "(cm_nodes s, 0)"] Sweep by (simp_all add: tables_inv_def)
  then have "hm_len (hm_retain (\<lambda>_ node. \<not> is_community_node_expired node now) ?m) \<le> hm_len (cm_nodes s)"
    using hm_len_retain by metis
  moreover have "hm_get (cm_nodes s) k \<noteq> None"
    if "hm_get (hm_retain (\<lambda>_ node. \<not> is_community_node_expired node now) ?m) k \<noteq> None" for k
    using that apply_probes_keys [of now "(cm_nodes s, 0)" results k] m(1)
    by (cases "hm_get ?m k") (auto simp: hm_get_retain)
  then have "normal_keys uni (hm_retain (\<lambda>_ node. \<not> is_community_node_expired node now) ?m)"
    using Sweep(2) unfolding tables_inv_def normal_keys_def by blast
  ultimately show ?case using Sweep m by (auto simp: tables_inv_def hm_wf_retain)
qed (auto simp: tables_inv_def quota_section_len cooldown_section_wf)

definition community_start :: "node_codec \<Rightarrow> (rstr \<Rightarrow> rstr) \<Rightarrow> nat \<Rightarrow> Community \<Rightarrow> bool" where
  "community_start C uni n s \<longleftrightarrow>
     (\<exists>path now. cm_nodes s = load_community_nodes_from_disk C uni (cm_files s) path now) \<and>
     cm_cooldowns s = [] \<and> cm_quotas s = [] \<and> hm_len (cm_nodes s) \<le> n"

interpretation community: step_system "community_start C uni n" "community_step C uni cfg"
    "tables_inv uni (max (community_node_capacity cfg) n)"
proof unfold_locales
  show "community_start C uni n s \<Longrightarrow> tables_inv uni (max (community_node_capacity cfg) n) s" for s
    using load_key load_wf
    by (fastforce simp: community_start_def tables_inv_def normal_keys_def loadable_def)
  show "community_step C uni cfg s t \<Longrightarrow> tables_inv uni (max (community_node_capacity cfg) n) s \<Longrightarrow>
      tables_inv uni (max (community_node_capacity cfg) n) t" for s t
    by (rule community_step_inv) (auto intro: max.cobounded1)
qed

lemma submit_steps:
  assumes "\<And>u. (community_step C uni cfg)\<^sup>*\<^sup>* u (during u)"
  shows "(community_step C uni cfg)\<^sup>*\<^sup>* s
    (snd (handle_community_node_submit_with_limits C uni cfg D P during T peer name address submitter s))"
proof -
  let ?step = "community_step C uni cfg"
  define ip where "ip = quota_source (fst peer)"
  define s1 where "s1 = s\<lparr>cm_quotas := snd (submit_quota_section T ip (cm_quotas s))\<rparr>"
  define s2 where "s2 = s1\<lparr>cm_cooldowns := snd (submit_cooldown_section (sc_unix T) ip (cm_cooldowns s1))\<rparr>"
  have 1: "?step\<^sup>*\<^sup>* s s1" unfolding s1_def by (blast intro: community_step.Quota)
  have "?step s1 s2" unfolding s2_def by (rule community_step.Cooldown)
  with 1 have 2: "?step\<^sup>*\<^sup>* s s2" by (rule rtranclp.rtrancl_into_rtrancl)
  then have 3: "?step\<^sup>*\<^sup>* s (during s2)" using assms [of s2] by (rule rtranclp_trans)
  have 4: "?step\<^sup>*\<^sup>* s (persist_community_nodes C cfg D ((during s2)\<lparr>cm_nodes := nodes\<rparr>))"
    if "store_node (community_node_capacity cfg) now k nm sb l (cm_nodes (during s2)) = Inr (node, nodes)"
      "normalize_community_node_address uni address = Inr k" for now k nm sb l node nodes
    using 3 community_step.Store [OF that] community_step.Persist
    by (meson rtranclp.rtrancl_into_rtrancl)
  show ?thesis
    unfolding handle_community_node_submit_with_limits_def Let_def ip_def [symmetric]
    using 1 2 3 4
    by (auto simp: s1_def s2_def split: sum.splits option.splits prod.splits ProbeOutcome.splits)
qed


lemma sweep_steps:
  assumes "\<And>u. (community_step C uni cfg)\<^sup>*\<^sup>* u (during u)"
  shows "(community_step C uni cfg)\<^sup>*\<^sup>* s
    (snd (sweep_community_nodes_with_limiter C uni cfg D P during now s))"
proof -
  let ?rs = "map (\<lambda>address. (address, fst (probe_community_node_limited uni (P address)
      (community_node_allow_private_targets cfg) address))) (hm_keys (cm_nodes s))"
  let ?s2 = "(during s)\<lparr>cm_nodes := hm_retain (\<lambda>_ node. \<not> is_community_node_expired node now)
      (fst (foldl (apply_probe now) (cm_nodes (during s), 0) ?rs))\<rparr>"
  have 2: "(community_step C uni cfg)\<^sup>*\<^sup>* s ?s2"
    using assms [of s] community_step.Sweep by (rule rtranclp.rtrancl_into_rtrancl)
  then have "(community_step C uni cfg)\<^sup>*\<^sup>* s (persist_community_nodes C cfg D ?s2)"
    using community_step.Persist by (rule rtranclp.rtrancl_into_rtrancl)
  with 2 show ?thesis
    by (auto simp: sweep_community_nodes_with_limiter_def Let_def split: prod.splits)
qed

section \<open>Cooldowns\<close>

fun cooldown_after :: "SubmitCooldowns \<Rightarrow> (u64 \<times> ip_addr) list \<Rightarrow> SubmitCooldowns" where
  "cooldown_after m [] = m"
| "cooldown_after m ((now, ip) # calls) = cooldown_after (snd (submit_cooldown_section now ip m)) calls"

lemma cooldown_keeps:
  assumes "hm_wf m" "hm_get m ip = Some t1" "saturating_sub now t1 \<le> COMMUNITY_NODE_SUBMIT_COOLDOWN_SECS"
  shows "hm_get (snd (submit_cooldown_section now src m)) ip = Some t1"
  using assms by (auto simp: submit_cooldown_section_def Let_def hm_simps split: option.splits if_splits)

lemma saturating_sub_mono: "a \<le> b \<Longrightarrow> saturating_sub a c \<le> saturating_sub b c"
  by (simp add: word_le_nat_alt)

lemma cooldown_after_keeps:
  assumes "hm_wf m" "hm_get m ip = Some t1" "\<forall>c \<in> set calls. fst c \<le> t2"
    "saturating_sub t2 t1 \<le> COMMUNITY_NODE_SUBMIT_COOLDOWN_SECS"
  shows "hm_wf (cooldown_after m calls) \<and> hm_get (cooldown_after m calls) ip = Some t1"
  using assms(1-3)
proof (induction m calls rule: cooldown_after.induct)
  case (2 m now src calls)
  have "saturating_sub now t1 \<le> COMMUNITY_NODE_SUBMIT_COOLDOWN_SECS"
    using saturating_sub_mono [of now t2 t1] assms(4) "2.prems"(3) by simp
  with 2 show ?case by (simp add: cooldown_keeps cooldown_section_wf)
qed simp

section \<open>Outcomes of a submission\<close>

text \<open>What a stored node takes from the submission and what from the entry it replaces.\<close>

lemma store_node_entry:
  "store_node cap now k nm sb l m = Inr (node, m') \<Longrightarrow>
   m' = hm_insert k node m \<and> cn_online node \<and> cn_latency_ms node = Some l \<and>
   cn_last_ok_at node = now \<and> cn_name node = nm \<and>
   (case hm_get m k of
      None \<Rightarrow> hm_len m < cap \<and> cn_address node = k \<and> cn_submitted_at node = now
    | Some old \<Rightarrow> cn_address node = cn_address old \<and> cn_submitted_at node = cn_submitted_at old)"
  by (auto simp: store_node_def Let_def split: option.splits if_splits)

text \<open>
  The three ways a submission ends: refused before the probe, refused after it, stored. \<open>s2\<close> is
  the state in which the probe starts; quotas and cooldowns are all that changed until then.
\<close>

lemma submit_cases:
  assumes "handle_community_node_submit_with_limits C uni cfg D P during T peer name address submitter s =
      (answer, s')"
  obtains (early) reply q c where "answer = reject reply" "s' = s\<lparr>cm_quotas := q, cm_cooldowns := c\<rparr>"
  | (late) reply q c k where "normalize_community_node_address uni address = Inr k"
      "answer = reject reply" "s' = during (s\<lparr>cm_quotas := q, cm_cooldowns := c\<rparr>)"
  | (stored) reply q c k latency sb node nodes where
      "normalize_community_node_address uni address = Inr k" "sanitize_community_text name 32 \<noteq> []"
      "fst (probe_community_node_limited uni P (community_node_allow_private_targets cfg) k) = Alive latency"
      "store_node (community_node_capacity cfg) (sc_unix T) k (sanitize_community_text name 32) sb latency
        (cm_nodes (during (s\<lparr>cm_quotas := q, cm_cooldowns := c\<rparr>))) = Inr (node, nodes)"
      "answer = CommunityNodeSubmitResult True reply (Some node)"
      "s' = persist_community_nodes C cfg D ((during (s\<lparr>cm_quotas := q, cm_cooldowns := c\<rparr>))\<lparr>cm_nodes := nodes\<rparr>)"
proof (cases "normalize_community_node_address uni address")
  case (Inl reason)
  with assms have "answer = reject reason" "s' = s\<lparr>cm_quotas := cm_quotas s, cm_cooldowns := cm_cooldowns s\<rparr>"
    by (simp_all add: handle_community_node_submit_with_limits_def)
  then show ?thesis by (rule early)
next
  case (Inr k)
  define ip where "ip = quota_source (fst peer)"
  obtain e1 q where q: "submit_quota_section T ip (cm_quotas s) = (e1, q)" by fastforce
  obtain e2 c where c: "submit_cooldown_section (sc_unix T) ip (cm_cooldowns s) = (e2, c)" by fastforce
  let ?s0 = "s\<lparr>cm_quotas := cm_quotas s, cm_cooldowns := cm_cooldowns s\<rparr>"
  let ?s1 = "s\<lparr>cm_quotas := q, cm_cooldowns := cm_cooldowns s\<rparr>"
  let ?s2 = "s\<lparr>cm_quotas := q, cm_cooldowns := c\<rparr>"
  let ?full = "\<not> hm_contains (cm_nodes s) k \<and> community_node_capacity cfg \<le> hm_len (cm_nodes s)"
  let ?probe = "fst (probe_community_node_limited uni P (community_node_allow_private_targets cfg) k)"
  note run = assms [unfolded handle_community_node_submit_with_limits_def Let_def ip_def [symmetric],
      simplified Inr q c sum.case prod.case config_simps]
  consider (name) "sanitize_community_text name 32 = []"
    | (quota) m where "sanitize_community_text name 32 \<noteq> []" "e1 = Some m"
    | (wait) m where "sanitize_community_text name 32 \<noteq> []" "e1 = None" "e2 = Some m"
    | (full) "sanitize_community_text name 32 \<noteq> []" "e1 = None" "e2 = None" ?full
    | (probed) "sanitize_community_text name 32 \<noteq> []" "e1 = None" "e2 = None" "\<not> ?full"
    by blast
  then show ?thesis
  proof cases
    case name
    then show ?thesis using run by (intro early [of msg_name_empty "cm_cooldowns s" "cm_quotas s"]) simp_all
  next
    case (quota m)
    then show ?thesis using run by (intro early [of m "cm_cooldowns s" q]) (simp, cases s, auto)
  next
    case (wait m)
    then show ?thesis using run c by (intro early [of m c q]) simp_all
  next
    case full
    then show ?thesis using run c by (intro early [of msg_list_full c q]) simp_all
  next
    case probed
    show ?thesis
    proof (cases ?probe)
      case (Alive latency)
      have "\<exists>sb msg. (case store_node (community_node_capacity cfg) (sc_unix T) k
            (sanitize_community_text name 32) sb latency (cm_nodes (during ?s2)) of
          Inl message \<Rightarrow> (reject message, during ?s2)
        | Inr (node, nodes) \<Rightarrow> (CommunityNodeSubmitResult True msg (Some node),
            persist_community_nodes C cfg D ((during ?s2)\<lparr>cm_nodes := nodes\<rparr>))) = (answer, s')"
        by (insert run probed c Alive, simp, intro exI, assumption)
      then obtain sb msg where fin: "(case store_node (community_node_capacity cfg) (sc_unix T) k
            (sanitize_community_text name 32) sb latency (cm_nodes (during ?s2)) of
          Inl message \<Rightarrow> (reject message, during ?s2)
        | Inr (node, nodes) \<Rightarrow> (CommunityNodeSubmitResult True msg (Some node),
            persist_community_nodes C cfg D ((during ?s2)\<lparr>cm_nodes := nodes\<rparr>))) = (answer, s')" by blast
      then show ?thesis
        by (auto split: sum.splits intro: late [OF Inr] stored [OF Inr probed(1) Alive])
    qed (rule late [OF Inr], use run probed c in \<open>auto split: if_splits\<close>)+
  qed
qed

section \<open>A concrete codec and state\<close>

text \<open>
  A length-prefixed printer of node lists with its reader, which satisfies \<open>node_codec_law\<close>; the
  concrete runs below use it.
\<close>

definition put_text :: "rstr \<Rightarrow> rstr" where
  "put_text t = length t # t"

definition put_node :: "CommunityNodeInfo \<Rightarrow> rstr" where
  "put_node n =
     put_text (cn_name n) @ put_text (cn_address n) @
     (case cn_submitter n of None \<Rightarrow> [0] | Some t \<Rightarrow> 1 # put_text t) @
     [unat (cn_submitted_at n), unat (cn_last_ok_at n), if cn_online n then 1 else 0] @
     (case cn_latency_ms n of None \<Rightarrow> [0] | Some ms \<Rightarrow> [1, unat ms])"

definition get_text :: "rstr \<Rightarrow> (rstr \<times> rstr) option" where
  "get_text s = (case s of [] \<Rightarrow> None | n # r \<Rightarrow> Some (take n r, drop n r))"

definition get_submitter :: "rstr \<Rightarrow> (rstr option \<times> rstr) option" where
  "get_submitter s =
     (case s of
        [] \<Rightarrow> None
      | x # r \<Rightarrow> if x = 0 then Some (None, r) else map_option (\<lambda>(t, r). (Some t, r)) (get_text r))"

definition get_node :: "rstr \<Rightarrow> (CommunityNodeInfo \<times> rstr) option" where
  "get_node s =
     Option.bind (get_text s) (\<lambda>(nm, s). Option.bind (get_text s) (\<lambda>(ad, s).
     Option.bind (get_submitter s) (\<lambda>(sb, s).
       let node = \<lparr>cn_name = nm, cn_address = ad, cn_submitter = sb,
             cn_submitted_at = of_nat (s ! 0), cn_last_ok_at = of_nat (s ! 1),
             cn_online = (s ! 2 = 1), cn_latency_ms = None\<rparr>
       in if s ! 3 = 0 then Some (node, drop 4 s)
          else Some (node\<lparr>cn_latency_ms := Some (of_nat (s ! 4))\<rparr>, drop 5 s))))"

fun get_nodes :: "nat \<Rightarrow> rstr \<Rightarrow> CommunityNodeInfo list option" where
  "get_nodes 0 s = Some []"
| "get_nodes (Suc n) s =
     Option.bind (get_node s) (\<lambda>(node, s). map_option (\<lambda>nodes. node # nodes) (get_nodes n s))"

definition demo_codec :: node_codec where
  "demo_codec =
     \<lparr>nc_print = (\<lambda>nodes. length nodes # concat (map put_node nodes)),
      nc_parse = (\<lambda>s. case s of [] \<Rightarrow> None | n # r \<Rightarrow> get_nodes n r)\<rparr>"

lemma get_put_text: "get_text (put_text t @ r) = Some (t, r)"
  by (simp add: get_text_def put_text_def)

lemma get_put_node: "get_node (put_node n @ r) = Some (n, r)"
  by (cases n) (auto simp: get_node_def put_node_def get_put_text get_submitter_def split: option.splits)

lemma demo_codec_law: "node_codec_law demo_codec"
proof -
  have "get_nodes (length nodes) (concat (map put_node nodes)) = Some nodes" for nodes
    by (induction nodes) (simp_all add: get_put_node)
  then show ?thesis by (simp add: node_codec_law_def demo_codec_def)
qed

definition demo_node :: CommunityNodeInfo where
  "demo_node = \<lparr>cn_name = str ''n'', cn_address = str ''tcp://a:1'', cn_submitter = None,
     cn_submitted_at = 5, cn_last_ok_at = 7, cn_online = True, cn_latency_ms = Some 3\<rparr>"

definition demo_community :: Community where
  "demo_community = \<lparr>cm_nodes = [(str ''tcp://a:1'', demo_node)], cm_cooldowns = [], cm_quotas = [],
     cm_files = [], cm_generation = 0\<rparr>"

definition demo_disk :: disk where
  "demo_disk = \<lparr>dk_pid = 1, dk_write = Inr (), dk_rename_ok = True, dk_remove_ok = True\<rparr>"

definition demo_config :: ServerConfig where
  "demo_config = from_env (\<lambda>_. None)"

definition demo_clock :: submit_clock where
  "demo_clock = \<lparr>sc_unix = 9, sc_retain = (\<lambda>_. 0), sc_entry = 0, sc_now = 0, sc_restart = 0\<rparr>"

lemma demo_wf: "hm_wf (cm_nodes demo_community)"
  by (simp add: demo_community_def hm_wf_def)

section \<open>Properties\<close>

text \<open>
  C28. What a restart finds after the node table has been saved. The new table holds, under each
  key, the last in the order of the file of the saved nodes that are not expired and whose address
  normalises to that key, and nothing else. So a node that is alone in claiming its key is loaded
  again under it exactly when its address normalises to the key it had and it was seen within a
  day. For the other nodes the round trip fails, and such nodes can be in the table: an address
  whose normal form is longer than 128 bytes is dropped, and one whose host has a bracket comes
  back under another key (\<open>long_address_refused_later\<close>, \<open>bracket_host_not_stable\<close>).
\<close>

theorem persisted_nodes_reload:
  assumes "node_codec_law C" "hm_wf (cm_nodes s)" "\<forall>k n. hm_get (cm_nodes s) k = Some n \<longrightarrow> unicode_node n"
    and "dk_write D = Inr ()" "dk_rename_ok D"
    and "L = load_community_nodes_from_disk C uni (cm_files (persist_community_nodes C cfg D s))
      (community_nodes_file cfg) now"
    and "claims = filter (loadable uni now k) (node_snapshot (cm_nodes s))"
  shows "hm_get L k = (if claims = [] then None else Some (last claims)) \<and>
    (\<forall>n. n \<in> set claims \<longleftrightarrow> loadable uni now k n \<and> (\<exists>k0. hm_get (cm_nodes s) k0 = Some n)) \<and>
    (\<forall>n. hm_get (cm_nodes s) k = Some n \<and> set claims \<subseteq> {n} \<longrightarrow>
       (hm_get L k = Some n \<longleftrightarrow>
          normalize_community_node_address uni (cn_address n) = Inr k \<and> \<not> is_community_node_expired n now))"
proof -
  have vals: "n \<in> set (node_snapshot (cm_nodes s)) \<longleftrightarrow> (\<exists>k. hm_get (cm_nodes s) k = Some n)" for n
    using hm_values_get [OF assms(2)] by (simp add: node_snapshot_def)
  then have "nc_parse C (nc_print C (node_snapshot (cm_nodes s))) = Some (node_snapshot (cm_nodes s))"
    using assms(1,3) unfolding node_codec_law_def by blast
  then have L: "hm_get L k = (if claims = [] then None else Some (last claims))"
    using assms(4,5) unfolding assms(6,7)
    by (simp add: load_community_nodes_from_disk_def persist_file load_nodes_get)
  have mem: "n \<in> set claims \<longleftrightarrow> loadable uni now k n \<and> (\<exists>k0. hm_get (cm_nodes s) k0 = Some n)" for n
    using vals by (auto simp: assms(7))
  have "hm_get L k = Some n \<longleftrightarrow> loadable uni now k n"
    if "hm_get (cm_nodes s) k = Some n" "set claims \<subseteq> {n}" for n
  proof -
    have "n \<in> set claims \<longleftrightarrow> loadable uni now k n" using mem that(1) by blast
    moreover have "claims \<noteq> [] \<Longrightarrow> last claims = n \<and> n \<in> set claims"
      using that(2) last_in_set by blast
    ultimately show ?thesis unfolding L by auto
  qed
  with L mem show ?thesis by (auto simp: loadable_def)
qed

theorem persisted_nodes_reload_witness:
  "hm_get (load_community_nodes_from_disk demo_codec id
      (cm_files (persist_community_nodes demo_codec demo_config demo_disk demo_community))
      (community_nodes_file demo_config) 8) (str ''tcp://a:1'') = Some demo_node"
proof -
  have uni: "\<forall>k n. hm_get (cm_nodes demo_community) k = Some n \<longrightarrow> unicode_node n"
  proof -
    have "unicode_node demo_node" by (simp add: unicode_node_def demo_node_def unicode_def str_def)
    then show ?thesis by (simp add: demo_community_def hm_get_def)
  qed
  have node: "hm_get (cm_nodes demo_community) (str ''tcp://a:1'') = Some demo_node"
    "node_snapshot (cm_nodes demo_community) = [demo_node]"
    by (simp_all add: demo_community_def hm_get_def node_snapshot_def hm_values_def)
  have "normalize_community_node_address id (cn_address demo_node) = Inr (str ''tcp://a:1'')"
    "\<not> is_community_node_expired demo_node 8" by code_simp+
  then have "loadable id 8 (str ''tcp://a:1'') demo_node" by (simp add: loadable_def)
  then show ?thesis
    using persisted_nodes_reload [OF demo_codec_law demo_wf uni _ _ refl refl, of demo_disk id demo_config 8
        "str ''tcp://a:1''"] node
    by (simp add: demo_disk_def)
qed

text \<open>
  C29. Saving is atomic: whichever of its file operations fails, the data file afterwards holds
  either what it held before or the complete new snapshot; no file but a temporary one beside it
  is touched, and the tables in memory stay as they are.
\<close>

theorem persist_atomic:
  "hm_get (cm_files (persist_community_nodes C cfg D s)) (community_nodes_file cfg) \<in>
     {hm_get (cm_files s) (community_nodes_file cfg), Some (nc_print C (node_snapshot (cm_nodes s)))} \<and>
   (\<forall>p. hm_get (cm_files (persist_community_nodes C cfg D s)) p \<noteq> hm_get (cm_files s) p \<longrightarrow>
      p = community_nodes_file cfg \<or> (\<exists>x. p = community_nodes_file cfg @ str ''.'' @ x)) \<and>
   cm_nodes (persist_community_nodes C cfg D s) = cm_nodes s"
proof -
  have "hm_get (cm_files (persist_community_nodes C cfg D s)) p = hm_get (cm_files s) p"
    if "p \<noteq> community_nodes_file cfg" "\<nexists>x. p = community_nodes_file cfg @ str ''.'' @ x" for p
    using that
    by (auto simp: persist_community_nodes_def Let_def hm_simps split: sum.splits option.splits)
  then show ?thesis by (auto simp: persist_file)
qed

theorem persist_atomic_witness:
  "hm_get (cm_files (persist_community_nodes demo_codec demo_config
      (demo_disk\<lparr>dk_write := Inl (Some (str ''junk''))\<rparr>) demo_community)) (str ''other'') = None"
proof -
  have "community_nodes_file demo_config = str ''community_nodes.json''" by code_simp
  then have "str ''other'' \<noteq> community_nodes_file demo_config \<and>
      (\<nexists>x. str ''other'' = community_nodes_file demo_config @ str ''.'' @ x)"
    by (simp add: str_def)
  then have "hm_get (cm_files (persist_community_nodes demo_codec demo_config
      (demo_disk\<lparr>dk_write := Inl (Some (str ''junk''))\<rparr>) demo_community)) (str ''other'') =
    hm_get (cm_files demo_community) (str ''other'')"
    using persist_atomic [of demo_codec demo_config "demo_disk\<lparr>dk_write := Inl (Some (str ''junk''))\<rparr>"
        demo_community] by blast
  then show ?thesis by (simp add: demo_community_def)
qed

text \<open>
  C30. However submissions and sweeps of concurrent tasks interleave, from a start that loads
  \<open>n\<close> nodes the table never holds more nodes than the capacity (or the \<open>n\<close> it started with), the
  quota table tracks at most 8192 sources, and every key is the normal form of an address.
\<close>

theorem community_tables_bounded:
  assumes "community_start C uni n s" "(community_step C uni cfg)\<^sup>*\<^sup>* s t"
    and "\<forall>u. (community_step C uni cfg)\<^sup>*\<^sup>* u (during u)"
    and "t' = snd (handle_community_node_submit_with_limits C uni cfg D P during T peer name address
           submitter t) \<or>
         t' = snd (sweep_community_nodes_with_limiter C uni cfg D Ps during now t)"
  shows "hm_len (cm_nodes t') \<le> max (community_node_capacity cfg) n \<and>
    hm_len (cm_quotas t') \<le> 8192 \<and>
    (\<forall>k \<in> set (hm_keys (cm_nodes t')). \<exists>a. normalize_community_node_address uni a = Inr k)"
proof -
  have "(community_step C uni cfg)\<^sup>*\<^sup>* t t'"
    using assms(3,4) submit_steps [of C uni cfg during t D P T peer name address submitter]
      sweep_steps [of C uni cfg during t D Ps now] by auto
  with assms(2) have "(community_step C uni cfg)\<^sup>*\<^sup>* s t'" by (rule rtranclp_trans)
  then have "tables_inv uni (max (community_node_capacity cfg) n) t'"
    using assms(1) community.reachable_inv by blast
  then show ?thesis by (auto simp: tables_inv_def normal_keys_def hm_keys_get config_simps)
qed

theorem community_tables_bounded_witness:
  "hm_len (cm_nodes (snd (handle_community_node_submit_with_limits demo_codec id demo_config demo_disk
      demo_prober id demo_clock (V4 1, 2) (str ''n'') (str ''tcp://b:1'') None
      (demo_community\<lparr>cm_nodes := []\<rparr>)))) = 1 \<and> (1 :: nat) \<le> max (community_node_capacity demo_config) 0"
proof -
  let ?s = "demo_community\<lparr>cm_nodes := []\<rparr>"
  let ?t = "snd (handle_community_node_submit_with_limits demo_codec id demo_config demo_disk
      demo_prober id demo_clock (V4 1, 2) (str ''n'') (str ''tcp://b:1'') None ?s)"
  have start: "community_start demo_codec id 0 ?s"
    by (simp add: community_start_def demo_community_def load_community_nodes_from_disk_def)
  have 1: "hm_len (cm_nodes ?t) = 1" by code_simp
  have "hm_len (cm_nodes ?t) \<le> max (community_node_capacity demo_config) 0"
    by (rule community_tables_bounded [OF start rtranclp.rtrancl_refl _ disjI1 [OF refl],
          THEN conjunct1]) simp
  with 1 show ?thesis by simp
qed

text \<open>
  C31. A submission is accepted only when a probe of the normalised address found the node alive;
  then exactly that node is entered under the normalised address, with a sanitised name, or
  refreshed there, keeping its address and first submission time. The result is stated against
  the table as other tasks leave it while the probe waits (\<open>during\<close>, any function): nothing
  they did is undone, a new node is entered only if their table still has room, and the new
  table is saved. A refusal changes neither the node table nor the files, beyond what the
  other tasks did if it comes after the probe. Until the probe only quotas and cooldowns change.
\<close>

theorem submit_lists_probed_node:
  assumes "handle_community_node_submit_with_limits C uni cfg D P during T peer name address submitter s =
      (answer, s')"
  shows "\<exists>ok text res q c. answer = CommunityNodeSubmitResult ok text res \<and>
    (let s2 = s\<lparr>cm_quotas := q, cm_cooldowns := c\<rparr>; s3 = during s2
     in if ok then
          \<exists>k node latency. normalize_community_node_address uni address = Inr k \<and> res = Some node \<and>
            fst (probe_community_node_limited uni P (community_node_allow_private_targets cfg) k) =
              Alive latency \<and>
            s' = persist_community_nodes C cfg D (s3\<lparr>cm_nodes := hm_insert k node (cm_nodes s3)\<rparr>) \<and>
            cn_online node \<and> cn_latency_ms node = Some latency \<and> cn_last_ok_at node = sc_unix T \<and>
            cn_name node = sanitize_community_text name 32 \<and> cn_name node \<noteq> [] \<and>
            (case hm_get (cm_nodes s3) k of
               None \<Rightarrow> hm_len (cm_nodes s3) < community_node_capacity cfg \<and>
                 cn_address node = k \<and> cn_submitted_at node = sc_unix T
             | Some old \<Rightarrow> cn_address node = cn_address old \<and> cn_submitted_at node = cn_submitted_at old)
        else res = None \<and> (s' = s2 \<or> s' = s3))"
  using assms
proof (cases rule: submit_cases)
  case (early reply q c)
  then show ?thesis by (intro exI [of _ False] exI [of _ reply] exI [of _ None] exI [of _ q] exI [of _ c])
      (simp add: reject_def)
next
  case (late reply q c k)
  then show ?thesis by (intro exI [of _ False] exI [of _ reply] exI [of _ None] exI [of _ q] exI [of _ c])
      (simp add: reject_def)
next
  case (stored reply q c k latency sb node nodes)
  then show ?thesis
    using store_node_entry [OF stored(4)]
    by (intro exI [of _ True] exI [of _ reply] exI [of _ "Some node"] exI [of _ q] exI [of _ c])
      (simp add: Let_def)
qed

text \<open>While the probe of \<open>b\<close> waits, another task enters \<open>c\<close>; both are in the table afterwards.\<close>

definition demo_during :: "Community \<Rightarrow> Community" where
  "demo_during s = s\<lparr>cm_nodes := hm_insert (str ''tcp://c:1'') demo_node (cm_nodes s)\<rparr>"

theorem submit_lists_probed_node_witness:
  "\<exists>s' node. handle_community_node_submit_with_limits demo_codec id demo_config demo_disk demo_prober
     demo_during demo_clock (V4 1, 2) (str '' Name '') (str ''TCP://b'') None demo_community =
       (CommunityNodeSubmitResult True msg_submitted (Some node), s') \<and>
     cn_name node = str ''Name'' \<and>
     cm_nodes s' = hm_insert (str ''tcp://b:11010'') node (cm_nodes (demo_during demo_community))"
proof -
  let ?run = "handle_community_node_submit_with_limits demo_codec id demo_config
      demo_disk demo_prober demo_during demo_clock (V4 1, 2) (str '' Name '') (str ''TCP://b'') None
      demo_community"
  obtain answer s' where run: "?run = (answer, s')" by fastforce
  have fst: "case fst ?run of CommunityNodeSubmitResult ok m _ \<Rightarrow> ok \<and> m = msg_submitted | _ \<Rightarrow> False"
    by code_simp
  have key: "normalize_community_node_address id (str ''TCP://b'') = Inr (str ''tcp://b:11010'')"
    "sanitize_community_text (str '' Name '') 32 = str ''Name''" by code_simp+
  have "cm_nodes (demo_during (demo_community\<lparr>cm_quotas := q, cm_cooldowns := c\<rparr>)) =
      cm_nodes (demo_during demo_community)" for q c
    by (simp add: demo_during_def)
  with submit_lists_probed_node [OF run] fst run key show ?thesis by (auto simp: Let_def)
qed

text \<open>
  C32. The cooldown holds: once a source has passed it at \<open>t1\<close>, whatever other submissions
  happen until \<open>t2\<close>, the source is refused up to and including thirty seconds later, and told
  how many seconds are left (at least one).
\<close>

theorem cooldown_spacing:
  assumes "hm_wf m" "fst (submit_cooldown_section t1 ip m) = None"
    and "\<forall>c \<in> set calls. fst c \<le> t2" "t1 \<le> t2" "unat t2 - unat t1 \<le> 30"
  shows "fst (submit_cooldown_section t2 ip
      (cooldown_after (snd (submit_cooldown_section t1 ip m)) calls)) =
    Some (msg_wait_before @ show_nat (max (30 - (unat t2 - unat t1)) 1) @ msg_wait_after)"
proof -
  let ?m = "cooldown_after (snd (submit_cooldown_section t1 ip m)) calls"
  have 1: "hm_get (snd (submit_cooldown_section t1 ip m)) ip = Some t1"
    using assms(1,2) by (auto simp: submit_cooldown_section_def Let_def hm_simps split: option.splits)
  have le: "saturating_sub t2 t1 \<le> COMMUNITY_NODE_SUBMIT_COOLDOWN_SECS"
    using assms(5) by (simp add: word_le_nat_alt config_simps)
  have m: "hm_wf ?m" "hm_get ?m ip = Some t1"
    using cooldown_after_keeps [OF cooldown_section_wf [OF assms(1)] 1 assms(3) le] by auto
  have "unat (max a b) = max (unat a) (unat b)" for a b :: u64
    by (simp add: max_def word_le_nat_alt)
  then show ?thesis
    using m le by (simp add: submit_cooldown_section_def Let_def hm_get_retain config_simps)
qed

theorem cooldown_spacing_witness:
  "fst (submit_cooldown_section 40 (V4 1) (cooldown_after (snd (submit_cooldown_section 10 (V4 1) []))
      [(20, V4 2)])) = Some (msg_wait_before @ show_nat 1 @ msg_wait_after)"
proof -
  have "fst (submit_cooldown_section 10 (V4 1) []) = None" by code_simp
  from cooldown_spacing [OF hm_wf_empty this, of "[(20, V4 2)]" 40] show ?thesis by simp
qed

text \<open>
  C33. One sweep, seen from each node, while other tasks change the table during the probes
  (\<open>during\<close>, any function that keeps the keys distinct): the table afterwards is the one they
  leave, in which a node whose key was probed is online with the new latency and time if it
  answered, offline if it did not (or may not be probed any more), unchanged if its probe found
  no free slot; a node that was submitted meanwhile is kept as it is; and exactly the nodes not
  seen for more than a day are removed. An empty table is not swept.
\<close>

theorem sweep_effect:
  assumes "hm_wf (cm_nodes s)" "hm_wf (cm_nodes (during s))" "cm_nodes s \<noteq> []"
  shows "hm_get (cm_nodes (snd (sweep_community_nodes_with_limiter C uni cfg D P during now s))) k =
    (case hm_get (cm_nodes (during s)) k of
       None \<Rightarrow> None
     | Some n \<Rightarrow>
         let n' = (if hm_contains (cm_nodes s) k
                   then probed_node now (fst (probe_community_node_limited uni (P k)
                          (community_node_allow_private_targets cfg) k)) n
                   else n)
         in if is_community_node_expired n' now then None else Some n')"
proof -
  have "distinct (hm_keys (cm_nodes s))" using assms(1) by (simp add: hm_wf_def hm_keys_def)
  from sweep_write [OF assms(2) this] show ?thesis
    unfolding sweep_table [OF assms(3)] hm_contains_iff by (simp only:)
qed

theorem sweep_effect_witness:
  "hm_get (cm_nodes (snd (sweep_community_nodes_with_limiter demo_codec id demo_config demo_disk
      (\<lambda>_. demo_prober\<lparr>pb_connect := (\<lambda>_ _. None)\<rparr>) demo_during 9 demo_community))) (str ''tcp://a:1'') =
    Some (demo_node\<lparr>cn_online := False, cn_latency_ms := None\<rparr>) \<and>
   hm_get (cm_nodes (snd (sweep_community_nodes_with_limiter demo_codec id demo_config demo_disk
      (\<lambda>_. demo_prober\<lparr>pb_connect := (\<lambda>_ _. None)\<rparr>) demo_during 9 demo_community))) (str ''tcp://c:1'') =
    Some demo_node"
proof -
  have probe: "fst (probe_community_node_limited id (demo_prober\<lparr>pb_connect := (\<lambda>_ _. None)\<rparr>)
      (community_node_allow_private_targets demo_config) (str ''tcp://a:1'')) = Dead" by code_simp
  have wf: "hm_wf (cm_nodes (demo_during demo_community))" "cm_nodes demo_community \<noteq> []"
    by (simp_all add: demo_during_def demo_wf hm.wf_ins) (simp add: demo_community_def)
  have a: "hm_get (cm_nodes (demo_during demo_community)) (str ''tcp://a:1'') = Some demo_node"
    "hm_contains (cm_nodes demo_community) (str ''tcp://a:1'')"
    and c: "hm_get (cm_nodes (demo_during demo_community)) (str ''tcp://c:1'') = Some demo_node"
    "\<not> hm_contains (cm_nodes demo_community) (str ''tcp://c:1'')"
    by code_simp+
  have fresh: "\<not> is_community_node_expired (demo_node\<lparr>cn_online := False, cn_latency_ms := None\<rparr>) 9"
    "\<not> is_community_node_expired demo_node 9"
    by code_simp+
  show ?thesis
    unfolding sweep_effect [where during = demo_during, OF demo_wf wf] a(1) c(1) option.case Let_def probe
    using a(2) c(2) fresh by (simp add: probed_node_def)
qed

text \<open>
  The list sent to clients is the table's nodes, each once, online nodes first, within them
  the smaller latency first (an unknown latency last), ties by name.
\<close>

lemma community_list_order:
  "mset (community_node_list nodes) = mset (hm_values nodes) \<and>
   (\<forall>i j. i < j \<and> j < length (community_node_list nodes) \<longrightarrow>
      (let a = community_node_list nodes ! i; b = community_node_list nodes ! j;
           latency = (\<lambda>n. case cn_latency_ms n of None \<Rightarrow> - 1 | Some ms \<Rightarrow> ms)
       in (cn_online b \<longrightarrow> cn_online a) \<and>
          (cn_online a = cn_online b \<longrightarrow> latency a \<le> latency b) \<and>
          (cn_online a = cn_online b \<and> latency a = latency b \<longrightarrow> cn_name a \<le> cn_name b)))"
proof -
  let ?L = "community_node_list nodes"
  have sorted: "sorted (map node_order_key ?L)" by (simp add: community_node_list_def)
  have "node_order_key (?L ! i) \<le> node_order_key (?L ! j)" if "i < j" "j < length ?L" for i j
    using sorted_nth_mono [OF sorted, of i j] that by simp
  then show ?thesis
    by (fastforce simp: node_order_key_def Let_def community_node_list_def less_eq_prod_def
        less_le)
qed

text \<open>
  A sweep that removes nothing writes nothing, so the times it refreshes are lost with the
  process: a node that answered its last probe a second ago is dropped as expired by a restart
  when the file is more than a day old.
\<close>

lemma sweep_refresh_unsaved:
  assumes "snd (fst (sweep_community_nodes_with_limiter C uni cfg D P id now s)) = 0"
  shows "cm_files (snd (sweep_community_nodes_with_limiter C uni cfg D P id now s)) = cm_files s"
  using assms
  by (auto simp: sweep_community_nodes_with_limiter_def Let_def split: prod.splits if_splits)

lemma refreshed_node_lost:
  defines "s \<equiv> snd (sweep_community_nodes_with_limiter demo_codec id demo_config demo_disk
      (\<lambda>_. demo_prober) id 90000 (persist_community_nodes demo_codec demo_config demo_disk demo_community))"
  shows "map cn_last_ok_at (hm_values (cm_nodes s)) = [90000]"
    and "load_community_nodes_from_disk demo_codec id (cm_files s) (community_nodes_file demo_config) 90001 = []"
  unfolding s_def by code_simp+

end
