(* ===== verification/Connection.thy ===== *)
theory Connection
  imports Routing Community_Nodes
begin

text \<open>
  The life of a connection (\<open>src/src/connection.rs\<close>): the admission of the handshake, the
  registration challenge, one turn of the message loop, the dispatch of a message to its branch,
  and the cleanup when the loop ends.

  The record \<open>site\<close> holds what does not change while the server runs: the host (JSON,
  cryptography, socket writes), the configuration, and three functions of packages that are not
  modelled: the printer and reader of the node file, the Unicode tables of \<open>to_lowercase\<close>, and
  \<open>serde_json::from_str::<SignalingMessage>\<close>, which returns the message or the text of its
  error. The record \<open>turn\<close> holds what one turn of the loop obtains from the environment.
\<close>

section \<open>Texts\<close>

definition msg_shape :: rstr where
  "msg_shape =
     [20449, 20196, 23383, 27573, 26080, 25928, 25110, 36229, 20986, 38271, 24230, 38480, 21046]"

definition msg_unknown_type :: rstr where
  "msg_unknown_type =
     [19981, 25903, 25345, 30340, 20449, 20196, 28040, 24687, 31867, 22411]"

definition msg_register_first :: rstr where
  "msg_register_first =
     [35831, 20808, 20351, 29992] @ str '' register-v3 '' @ [23436, 25104, 27880, 20876]"

definition msg_bad_format :: rstr where
  "msg_bad_format =
     [20449, 20196, 28040, 24687, 26684, 24335, 26080, 25928]"

section \<open>Server state and environment\<close>

record Server =
  sv_world :: World
  sv_community :: Community

record site =
  si_host :: host
  si_config :: ServerConfig
  si_codec :: node_codec
  si_uni :: "rstr \<Rightarrow> rstr"
  si_parse :: "rstr \<Rightarrow> rstr + SignalingMessage"

record turn =
  tu_now :: instant
  tu_restart :: instant
  tu_lock_time :: instant
  tu_entropy :: entropy
  tu_rotation :: bytes
  tu_submit_clock :: submit_clock
  tu_prober :: prober
  tu_disk :: disk
  tu_during :: "Community \<Rightarrow> Community"

section \<open>The handshake\<close>

text \<open>
  The callback of the WebSocket upgrade: the source is determined, the pending lease is charged
  to it, and an active lease is taken. \<open>None\<close> is the panic of a pool whose counters do not match
  its leases. On a refusal the state reached so far is returned.
\<close>

definition handshake ::
  "Admission \<Rightarrow> Lease option \<Rightarrow> ip_addr \<Rightarrow> header_map \<Rightarrow>
   ((guard_error + ip_addr \<times> Lease) \<times> Lease option \<times> Admission) option" where
  "handshake a pending addr headers =
     (case admission_source a addr headers of
        Inl reason \<Rightarrow> Some (Inl reason, pending, a)
      | Inr ip \<Rightarrow>
          Option.bind
            (case pending of
               None \<Rightarrow> Some (Inr (None, a))
             | Some lease \<Rightarrow>
                 map_option (\<lambda>r. case r of Inl reason \<Rightarrow> Inl reason
                     | Inr (lease', p) \<Rightarrow> Inr (Some lease', a\<lparr>pending_pool := p\<rparr>))
                   (resolve_source (pending_pool a) lease ip))
            (\<lambda>r. Some
              (case r of
                 Inl reason \<Rightarrow> (Inl reason, pending, a)
               | Inr (pending', a') \<Rightarrow>
                   (case admission_active a' ip of
                      Inl reason \<Rightarrow> (Inl reason, pending', a')
                    | Inr (lease, a'') \<Rightarrow> (Inr (ip, lease), pending', a'')))))"

text \<open>
  After the upgrade: the socket starts with a full outbound budget (opened at \<open>born\<close>) and a
  lowered disconnect flag, and a fresh challenge is sent; when that write fails the connection
  ends before its loop begins.
\<close>

definition open_connection ::
  "host \<Rightarrow> World \<Rightarrow> bytes \<Rightarrow> nat \<Rightarrow> nat \<Rightarrow> socket_addr \<Rightarrow> instant \<Rightarrow> instant \<Rightarrow> Conn option \<times> World" where
  "open_connection h w rnd sender disconnect source born now =
     (let w0 = w\<lparr>w_budget := (w_budget w)(sender := ob_new born),
                 w_disconnect := (w_disconnect w)(disconnect := False)\<rparr>;
          challenge = random_hex rnd;
          (ok, w1) = send_json h w0 sender (ServerChallenge challenge True SIGNALING_PROTOCOL_VERSION)
      in (if ok then
            Some \<lparr>co_sender = sender, co_disconnect = disconnect, co_source = source,
                  co_challenge = challenge, co_client_id = None, co_lobby_id = None,
                  co_generation = 0, co_is_registered = False, co_limiter = ml_new now\<rparr>
          else None, w1))"

section \<open>Dispatch\<close>

text \<open>A branch of the dispatch changes the server, and registration also the connection.\<close>

type_synonym outcome = "Flow \<times> Conn \<times> Server"

definition relayed :: "Conn \<Rightarrow> Server \<Rightarrow> Flow \<times> World \<Rightarrow> outcome" where
  "relayed c s r = (fst r, c, s\<lparr>sv_world := snd r\<rparr>)"

definition on_register :: "site \<Rightarrow> Server \<Rightarrow> Conn \<Rightarrow> rstr option \<Rightarrow> outcome" where
  "on_register S s c client_version =
     (let (_, w) = reject_legacy (si_host S) (si_config S) (sv_world s) (co_sender c) client_version
      in (Break, c, s\<lparr>sv_world := w\<rparr>))"

definition on_register_v3 ::
  "site \<Rightarrow> turn \<Rightarrow> Server \<Rightarrow> Conn \<Rightarrow> RegistrationRequest \<Rightarrow> outcome option" where
  "on_register_v3 S T s c req =
     (let ctx = \<lparr>rc_sender = co_sender c, rc_disconnect = co_disconnect c,
                 rc_challenge = co_challenge c, rc_source_ip = fst (co_source c),
                 rc_is_registered = co_is_registered c\<rparr>
      in map_option (\<lambda>(outcome, w). let s1 = s\<lparr>sv_world := w\<rparr> in
             case outcome of
               Retry \<Rightarrow> (Continue, c, s1)
             | Disconnect \<Rightarrow> (Break, c, s1)
             | Committed session disconnect \<Rightarrow>
                 (if disconnect then Break else Continue,
                  c\<lparr>co_client_id := Some (rs_client_id session),
                    co_lobby_id := Some (rs_lobby_id session),
                    co_generation := rs_generation session, co_is_registered := True\<rparr>, s1))
           (handle_v3 (si_host S) (si_config S) (tu_lock_time T) (tu_entropy T) ctx req (sv_world s)))"

definition on_community_node_list_request :: "site \<Rightarrow> Server \<Rightarrow> Conn \<Rightarrow> outcome" where
  "on_community_node_list_request S s c =
     relayed c s (Continue, snd (send_json (si_host S) (sv_world s) (co_sender c)
       (CommunityNodeListResponse (community_node_list (cm_nodes (sv_community s))))))"

definition on_community_node_submit ::
  "site \<Rightarrow> turn \<Rightarrow> Server \<Rightarrow> Conn \<Rightarrow> rstr \<Rightarrow> rstr \<Rightarrow> rstr option \<Rightarrow> outcome" where
  "on_community_node_submit S T s c name address submitter =
     (let (resp, m) = handle_community_node_submit_with_limits (si_codec S) (si_uni S) (si_config S)
            (tu_disk T) (tu_prober T) (tu_during T) (tu_submit_clock T) (co_source c) name address
            submitter (sv_community s)
      in relayed c (s\<lparr>sv_community := m\<rparr>)
           (Continue, snd (send_json (si_host S) (sv_world s) (co_sender c) resp)))"

definition dispatch :: "site \<Rightarrow> turn \<Rightarrow> Server \<Rightarrow> Conn \<Rightarrow> SignalingMessage \<Rightarrow> outcome option" where
  "dispatch S T s c m =
     (let h = si_host S; w = sv_world s; rel = (\<lambda>r. Some (relayed c s r))
      in case m of
           Register _ _ _ _ _ _ _ client_version _ \<Rightarrow> Some (on_register S s c client_version)
         | RegisterV3 entry_mode protocol_version identity_public_key challenge_signature player_name
               virtual_ip lobby_name lobby_password client_version _ use_domain \<Rightarrow>
             on_register_v3 S T s c
               \<lparr>rq_entry_mode = entry_mode, rq_protocol_version = protocol_version,
                rq_identity_public_key = identity_public_key,
                rq_challenge_signature = challenge_signature, rq_player_name = player_name,
                rq_virtual_ip = virtual_ip, rq_use_domain = use_domain, rq_lobby_name = lobby_name,
                rq_lobby_password = lobby_password, rq_client_version = client_version\<rparr>
         | Leave _ \<Rightarrow> Some (Break, c, s)
         | PlayersListRequest \<Rightarrow> rel (on_players_list_request h w c)
         | VoiceReconnect frm dst \<Rightarrow> rel (on_voice_reconnect h w c frm dst)
         | Offer frm dst offer _ \<Rightarrow> rel (on_offer h w c frm dst offer)
         | Answer frm dst answer \<Rightarrow> rel (on_answer h w c frm dst answer)
         | IceCandidate frm dst cand \<Rightarrow> rel (on_ice_candidate h w c frm dst cand)
         | StatusUpdate cid mic_enabled \<Rightarrow> rel (on_status_update h w c cid mic_enabled)
         | ScreenShareStart frm share_id player_name has_password \<Rightarrow>
             rel (on_screen_share_start h w c frm share_id player_name has_password)
         | ScreenShareStop frm share_id \<Rightarrow> rel (on_screen_share_stop h w c frm share_id)
         | ScreenShareRelay frm dst _ _ _ _ _ _ _ _ _ _ _ _ \<Rightarrow>
             rel (on_screen_share_relay h w c frm dst m)
         | ScreenShareOffer frm dst share_id player_name password route_version offer \<Rightarrow>
             rel (on_screen_share_offer h w c frm dst share_id player_name password route_version offer)
         | ScreenShareAnswer frm dst share_id route_version answer \<Rightarrow>
             rel (on_screen_share_answer h w c frm dst share_id route_version answer)
         | ScreenShareIceCandidate frm dst share_id connection_role route_version cand \<Rightarrow>
             rel (on_screen_share_ice_candidate h w c frm dst share_id connection_role route_version
                    cand)
         | ScreenShareError frm dst share_id err \<Rightarrow> rel (on_screen_share_error h w c frm dst share_id err)
         | ScreenShareListRequest frm \<Rightarrow> rel (on_screen_share_list_request h w c frm)
         | ScreenShareListResponse frm dst share_id player_name has_password \<Rightarrow>
             rel (on_screen_share_list_response h w c frm dst share_id player_name has_password)
         | ScreenShareViewerLeft frm share_id \<Rightarrow> rel (on_screen_share_viewer_left h w c frm share_id)
         | ScreenShareUpdate frm share_id viewer_id viewer_name viewer_count \<Rightarrow>
             rel (on_screen_share_update h w c frm share_id viewer_id viewer_name viewer_count)
         | FileShareAdded frm share_id share_name player_name has_password \<Rightarrow>
             rel (on_file_share_added h w c frm share_id share_name player_name has_password)
         | FileShareRemoved frm share_id \<Rightarrow> rel (on_file_share_removed h w c frm share_id)
         | FileShareListRequest frm \<Rightarrow> rel (on_file_share_list_request h w c frm)
         | FileShareListResponse frm dst shares \<Rightarrow> rel (on_file_share_list_response h w c frm dst shares)
         | ShareUpdated frm share_id share_name player_name has_password \<Rightarrow>
             rel (on_share_updated h w c frm share_id share_name player_name has_password)
         | RemoteControlRequest frm dst session_id from_name \<Rightarrow>
             rel (on_remote_control_request h w c frm dst session_id from_name)
         | RemoteControlAccept frm dst session_id \<Rightarrow>
             rel (on_remote_control_accept h w c frm dst session_id)
         | RemoteControlReject frm dst session_id reason \<Rightarrow>
             rel (on_remote_control_reject h w c frm dst session_id reason)
         | RemoteControlOffer frm dst session_id offer \<Rightarrow>
             rel (on_remote_control_offer h w c frm dst session_id offer)
         | RemoteControlAnswer frm dst session_id answer \<Rightarrow>
             rel (on_remote_control_answer h w c frm dst session_id answer)
         | RemoteControlIce frm dst session_id cand \<Rightarrow>
             rel (on_remote_control_ice h w c frm dst session_id cand)
         | RemoteControlStop frm dst session_id \<Rightarrow>
             rel (on_remote_control_stop h w c frm dst session_id)
         | Ping \<Rightarrow> rel (on_ping h w c)
         | PublicLobbyListRequest \<Rightarrow> rel (on_public_lobby_list_request h w c)
         | CommunityNodeListRequest \<Rightarrow> Some (on_community_node_list_request S s c)
         | CommunityNodeSubmit name address submitter \<Rightarrow>
             Some (on_community_node_submit S T s c name address submitter)
         | _ \<Rightarrow> Some (Continue, c, s))"

section \<open>One turn of the loop\<close>

definition contains_text :: "rstr \<Rightarrow> rstr \<Rightarrow> bool" where
  "contains_text needle hay \<longleftrightarrow> split_once needle hay \<noteq> None"

definition parse_error_reply :: "Conn \<Rightarrow> rstr \<Rightarrow> rstr" where
  "parse_error_reply c error_msg =
     (if contains_text (str ''unknown variant'') error_msg then msg_unknown_type
      else if \<not> co_is_registered c then msg_register_first
      else msg_bad_format)"

definition moderation_session :: "Conn \<Rightarrow> ModerationSession option" where
  "moderation_session c =
     (if co_is_registered c then
        (case (co_client_id c, co_lobby_id c) of
           (Some cid, Some lid) \<Rightarrow>
             Some \<lparr>ms_client_id = cid, ms_lobby_id = lid, ms_session_generation = co_generation c,
                   ms_sender = co_sender c\<rparr>
         | _ \<Rightarrow> None)
      else None)"

definition handle_text :: "site \<Rightarrow> turn \<Rightarrow> Server \<Rightarrow> Conn \<Rightarrow> rstr \<Rightarrow> outcome option" where
  "handle_text S T s c txt =
     (let h = si_host S; w = sv_world s
      in case si_parse S txt of
           Inl error_msg \<Rightarrow>
             Some (Break, c, s\<lparr>sv_world := snd (send_json h w (co_sender c)
               (RegisterError (parse_error_reply c error_msg)))\<rparr>)
         | Inr m \<Rightarrow>
             if \<not> validate_message_shape m then
               Some (Break, c, s\<lparr>sv_world := snd (send_json h w (co_sender c) (RegisterError msg_shape))\<rparr>)
             else if is_some_and (claimed_sender m) (\<lambda>claimed. co_client_id c \<noteq> Some claimed) then
               Some (Continue, c, s)
             else
               case handle_moderation_message h w (tu_rotation T) m (moderation_session c) of
                 (NotHandled, _) \<Rightarrow> dispatch S T s c m
               | (Handled, w1) \<Rightarrow> Some (Continue, c, s\<lparr>sv_world := w1\<rparr>)
               | (CloseConnection, w1) \<Rightarrow> Some (Break, c, s\<lparr>sv_world := w1\<rparr>))"

definition conn_is_current :: "World \<Rightarrow> Conn \<Rightarrow> bool" where
  "conn_is_current w c \<longleftrightarrow>
     (case (co_client_id c, co_lobby_id c) of
        (Some cid, Some lid) \<Rightarrow> is_current_session w lid cid (co_generation c) (co_sender c)
      | _ \<Rightarrow> False)"

definition handle_frame :: "site \<Rightarrow> turn \<Rightarrow> Server \<Rightarrow> Conn \<Rightarrow> WsMessage \<Rightarrow> outcome option" where
  "handle_frame S T s c msg =
     (let (ok, limiter) = ml_allow (co_limiter c) (tu_now T) (tu_restart T);
          c1 = c\<lparr>co_limiter := limiter\<rparr>;
          closed = s\<lparr>sv_world := snd (send_message (si_host S) (sv_world s) (co_sender c) Close)\<rparr>
      in if \<not> ok then Some (Break, c1, closed)
         else if co_is_registered c1 \<and> \<not> conn_is_current (sv_world s) c1 then Some (Break, c1, closed)
         else case msg of
                Text txt \<Rightarrow> handle_text S T s c1 txt
              | Close \<Rightarrow> Some (Break, c1, s)
              | _ \<Rightarrow> Some (Continue, c1, s))"

text \<open>
  What the wait at the top of the loop ends with: a frame, a read error, the end of the stream,
  the registration or idle deadline, or the disconnect signal, which only a registered
  connection listens to.
\<close>

datatype Incoming = Received WsMessage | ReadError | StreamEnd | TimedOut | Signalled

definition handle_incoming :: "site \<Rightarrow> turn \<Rightarrow> Server \<Rightarrow> Conn \<Rightarrow> Incoming \<Rightarrow> outcome option" where
  "handle_incoming S T s c i =
     (case i of
        Received msg \<Rightarrow> handle_frame S T s c msg
      | Signalled \<Rightarrow> Some (if co_is_registered c then Break else Continue, c, s)
      | _ \<Rightarrow> Some (Break, c, s))"

text \<open>The loop over what arrives; the flag tells whether it was left.\<close>

fun serve :: "site \<Rightarrow> Server \<Rightarrow> Conn \<Rightarrow> (turn \<times> Incoming) list \<Rightarrow> (bool \<times> Conn \<times> Server) option" where
  "serve S s c [] = Some (False, c, s)"
| "serve S s c ((T, i) # rest) =
     Option.bind (handle_incoming S T s c i) (\<lambda>(flow, c1, s1).
       if flow = Break then Some (True, c1, s1) else serve S s1 c1 rest)"

section \<open>Cleanup\<close>

text \<open>The locked section: what is left to announce, and the registry without the member.\<close>

record Departure =
  dp_new_host :: "rstr option"
  dp_rotation :: "((rstr \<times> nat) list \<times> rstr \<times> u64) option"

definition depart_locked ::
  "World \<Rightarrow> bytes \<Rightarrow> rstr \<Rightarrow> rstr \<Rightarrow> nat \<Rightarrow> (Departure \<times> World) option" where
  "depart_locked w rnd cid lid sender =
     (case hm_get (w_lobbies w) lid of
        None \<Rightarrow> None
      | Some lobby \<Rightarrow>
          if \<not> is_some_and (hm_get (lb_clients lobby) cid) (\<lambda>cl. ci_sender cl = sender) then None
          else
            let lobby1 = lobby\<lparr>lb_clients := hm_remove cid (lb_clients lobby),
                               lb_muted := set_remove cid (lb_muted lobby)\<rparr>
            in if hm_len (lb_clients lobby1) = 0 then
                 Some (\<lparr>dp_new_host = None, dp_rotation = None\<rparr>,
                       drop_mapping cid lid (w\<lparr>w_lobbies := hm_remove lid (w_lobbies w)\<rparr>))
               else
                 let next_host = hd (hm_keys (lb_clients lobby1));
                     moved = lb_host_id lobby1 = cid;
                     lobby2 = (if moved
                               then lobby1\<lparr>lb_host_id := next_host,
                                           lb_muted := set_remove next_host (lb_muted lobby1)\<rparr>
                               else lobby1);
                     lobby3 = rotate_chat_token rnd lobby2;
                     targets = map (\<lambda>(i, client). (i, ci_sender client)) (lb_clients lobby3)
                 in Some (\<lparr>dp_new_host = (if moved then Some next_host else None),
                           dp_rotation = Some (targets, lb_chat_token lobby3,
                                               lb_chat_token_epoch lobby3)\<rparr>,
                          drop_mapping cid lid (put_lobby lid lobby3 w)))"

definition cleanup :: "host \<Rightarrow> World \<Rightarrow> bytes \<Rightarrow> Conn \<Rightarrow> World" where
  "cleanup h w rnd c =
     (case (co_client_id c, co_lobby_id c) of
        (Some cid, Some lid) \<Rightarrow>
          (case depart_locked w rnd cid lid (co_sender c) of
             None \<Rightarrow> w
           | Some (d, w1) \<Rightarrow>
               let w2 = broadcast_to_lobby h w1 lid cid (PlayerLeft cid (co_generation c));
                   w3 = (case dp_rotation d of
                           None \<Rightarrow> w2
                         | Some (targets, token, epoch) \<Rightarrow>
                             send_chat_token_rotation h w2 targets lid token epoch)
               in case dp_new_host d of
                    None \<Rightarrow> w3
                  | Some host_id \<Rightarrow>
                      broadcast_to_lobby h
                        (broadcast_to_lobby h w3 lid [] (PlayerMuteChanged host_id False))
                        lid [] (HostChanged host_id))
      | _ \<Rightarrow> w)"

text \<open>A whole connection: the loop, then the cleanup with the random bytes \<open>rnd\<close>.\<close>

definition handle_connection ::
  "site \<Rightarrow> Server \<Rightarrow> Conn \<Rightarrow> (turn \<times> Incoming) list \<Rightarrow> bytes \<Rightarrow> (bool \<times> Conn \<times> Server) option" where
  "handle_connection S s c is rnd =
     map_option (\<lambda>(ended, c1, s1).
       (ended, c1, if ended then s1\<lparr>sv_world := cleanup (si_host S) (sv_world s1) rnd c1\<rparr> else s1))
       (serve S s c is)"

section \<open>Which sockets are written to\<close>

definition wire_only :: "nat set \<Rightarrow> World \<Rightarrow> World \<Rightarrow> bool" where
  "wire_only X w w' \<longleftrightarrow> (\<exists>log. w_wire w' = w_wire w @ log \<and> fst ` set log \<subseteq> X)"

lemma wire_only_refl [simp]: "wire_only X w w"
  by (simp add: wire_only_def)

lemma wire_only_trans: "wire_only X a b \<Longrightarrow> wire_only X b c \<Longrightarrow> wire_only X a c"
proof -
  assume "wire_only X a b" "wire_only X b c"
  then obtain k l where "w_wire b = w_wire a @ k" "w_wire c = w_wire b @ l" "fst ` set k \<subseteq> X"
    "fst ` set l \<subseteq> X" unfolding wire_only_def by blast
  then have "w_wire c = w_wire a @ (k @ l)" "fst ` set (k @ l) \<subseteq> X" by auto
  then show ?thesis unfolding wire_only_def by blast
qed

lemma wire_only_mono: "wire_only X a b \<Longrightarrow> X \<subseteq> Y \<Longrightarrow> wire_only Y a b"
  unfolding wire_only_def by blast

lemma wire_only_same: "w_wire b = w_wire a \<Longrightarrow> wire_only X a b"
  by (simp add: wire_only_def)

lemma only_sends_wire:
  assumes "only_sends F w w'" "fst ` F \<subseteq> X"
  shows "wire_only X w w'"
proof -
  obtain log where log: "w_wire w' = w_wire w @ log" "frame_of ` set log \<subseteq> F"
    using assms(1) unfolding only_sends_def by blast
  have "fst e \<in> X" if "e \<in> set log" for e
  proof -
    have "frame_of e \<in> F" using log(2) that by blast
    then have "fst (frame_of e) \<in> X" using assms(2) by blast
    then show ?thesis by (simp add: frame_of_def)
  qed
  with log(1) show ?thesis unfolding wire_only_def by blast
qed

lemma send_wire: "wire_only {sender} w (snd (send_message h w sender m))"
  by (rule only_sends_wire [OF send_message_only]) simp

lemma broadcast_wire: "wire_only (member_senders w lid) w (broadcast_to_lobby h w lid ex m)"
  by (rule only_sends_wire [OF broadcast_only]) auto

lemma rotation_wire: "wire_only (member_senders w lid) w (send_chat_token_rotation h w targets lid token epoch)"
  by (rule only_sends_wire [OF rotation_only])
     (auto simp: lobby_client_def intro!: lobby_client_sender)

lemma member_senders_same: "same_registry w w' \<Longrightarrow> member_senders w' = member_senders w"
  by (simp add: member_senders_def same_registry_def fun_eq_iff)

text \<open>Frames an action of the moderator of \<open>lid\<close> writes go to members of that lobby.\<close>

lemma notify_wire:
  assumes "member_senders w1 lid \<subseteq> X"
  shows "wire_only X w1 (broadcast_to_lobby h w1 lid ex m)"
    "wire_only X w1 (send_chat_token_rotation h w1 targets lid token epoch)"
  using wire_only_mono [OF broadcast_wire assms] wire_only_mono [OF rotation_wire assms] by auto

lemma member_senders_put:
  "member_senders (put_lobby lid l w) lid = ci_sender ` snd ` set (lb_clients l)"
  by (simp add: member_senders_def hm.get_ins)

lemma member_senders_drop [simp]: "member_senders (drop_mapping cid lid w) = member_senders w"
  by (simp add: member_senders_def fun_eq_iff)

lemma kick_wire: "wire_only (member_senders w (ms_lobby_id s)) w (snd (kick_player h w s rnd target))"
proof (cases "kick_locked w s rnd target")
  case (Inr r)
  let ?X = "member_senders w (ms_lobby_id s)"
  obtain removed targets token epoch w1
    where k: "kick_locked w s rnd target = Inr (removed, targets, token, epoch, w1)"
    using Inr by (cases r) auto
  obtain l where l: "authorized_lobby w s = Inr l" "hm_get (lb_clients l) target = Some removed"
    "w1 = drop_mapping target (ms_lobby_id s) (put_lobby (ms_lobby_id s)
       (rotate_chat_token rnd (l\<lparr>lb_clients := hm_remove target (lb_clients l),
          lb_muted := set_remove target (lb_muted l)\<rparr>)) w)"
    using kick_locked_Inr [OF k] by metis
  have members: "?X = ci_sender ` snd ` set (lb_clients l)"
    using authorized_lobby_Inr(1) [OF l(1)] by (simp add: member_senders_def)
  have removed: "ci_sender removed \<in> ?X" using l(2) unfolding members by (force dest: hm_get_in_set)
  have less: "member_senders w1 (ms_lobby_id s) \<subseteq> ?X"
    unfolding members l(3) by (auto simp: member_senders_put hm_remove_def AList.delete_eq)
  define w2 where "w2 = w1\<lparr>w_disconnect := (w_disconnect w1)(ci_disconnect removed := True)\<rparr>"
  define w3 where "w3 = snd (send_text h w2 (ci_sender removed) (message_text (h_serde h) (Kicked msg_kicked)))"
  define w4 where "w4 = snd (send_message h w3 (ci_sender removed) Close)"
  define w5 where "w5 = broadcast_to_lobby h w4 (ms_lobby_id s) target
      (PlayerLeft target (ci_session_generation removed))"
  have reg: "same_registry w1 w2" "same_registry w2 w3" "same_registry w3 w4" "same_registry w4 w5"
    unfolding w2_def w3_def w4_def w5_def by (rule keeps_registry)+
  then have m4: "member_senders w4 (ms_lobby_id s) \<subseteq> ?X" "member_senders w5 (ms_lobby_id s) \<subseteq> ?X"
    using less member_senders_same by (metis same_registry_trans)+
  have "wire_only ?X w w2" by (rule wire_only_same) (simp add: w2_def l(3))
  moreover have "wire_only ?X w2 w3" "wire_only ?X w3 w4"
    unfolding w3_def w4_def send_text_def using removed by (auto intro!: wire_only_mono [OF send_wire])
  moreover have "wire_only ?X w4 w5" "wire_only ?X w5
      (send_chat_token_rotation h w5 targets (ms_lobby_id s) token epoch)"
    unfolding w5_def by (rule notify_wire(1) [OF m4(1)], rule notify_wire(2) [OF m4(2) [unfolded w5_def]])
  ultimately have "wire_only ?X w (send_chat_token_rotation h w5 targets (ms_lobby_id s) token epoch)"
    by (meson wire_only_trans)
  then show ?thesis
    by (simp add: kick_player_def k Let_def w2_def w3_def w4_def w5_def)
qed (simp add: kick_player_def)


lemma edit_wire:
  assumes "hm_get (w_lobbies w) lid = Some l" "lb_clients l' = lb_clients l"
  shows "wire_only (member_senders w lid) w (broadcast_to_lobby h (put_lobby lid l' w) lid ex m)"
proof -
  have "member_senders (put_lobby lid l' w) lid = member_senders w lid"
    using assms by (simp add: member_senders_put) (simp add: member_senders_def)
  then have "wire_only (member_senders w lid) (put_lobby lid l' w)
      (broadcast_to_lobby h (put_lobby lid l' w) lid ex m)" using broadcast_wire by metis
  then show ?thesis by (simp add: wire_only_def)
qed

lemma mute_wire: "wire_only (member_senders w (ms_lobby_id s)) w (snd (mute_player h w s target muted))"
  using authorized_lobby_Inr(1) [of w s]
  by (auto simp: mute_player_def mute_locked_def intro!: edit_wire split: sum.splits)

lemma options_wire: "wire_only (member_senders w (ms_lobby_id s)) w (snd (set_lobby_options h w s mx p d n))"
  using authorized_lobby_Inr(1) [of w s]
  by (auto simp: set_lobby_options_def options_locked_def Let_def intro!: edit_wire split: sum.splits)

lemma transfer_wire: "wire_only (member_senders w (ms_lobby_id s)) w (snd (transfer_host h w s target))"
proof (cases "transfer_locked w s target")
  case (Inr w1)
  let ?w2 = "broadcast_to_lobby h w1 (ms_lobby_id s) [] (PlayerMuteChanged target False)"
  obtain l where l: "authorized_lobby w s = Inr l" "w1 = put_lobby (ms_lobby_id s)
      (l\<lparr>lb_host_id := target, lb_muted := set_remove target (lb_muted l)\<rparr>) w"
    using Inr by (auto simp: transfer_locked_def split: sum.splits if_splits)
  note a = authorized_lobby_Inr(1) [OF l(1)]
  have 1: "wire_only (member_senders w (ms_lobby_id s)) w ?w2"
    unfolding l(2) by (rule edit_wire [OF a]) simp
  have "member_senders ?w2 = member_senders w1"
    by (rule member_senders_same [OF send_keeps_registry(4)])
  moreover have "member_senders w1 (ms_lobby_id s) = member_senders w (ms_lobby_id s)"
    unfolding l(2) using a by (simp add: member_senders_put) (simp add: member_senders_def)
  ultimately have "wire_only (member_senders w (ms_lobby_id s)) ?w2
      (broadcast_to_lobby h ?w2 (ms_lobby_id s) [] (HostChanged target))"
    using broadcast_wire [of ?w2 "ms_lobby_id s" h "[]" "HostChanged target"] by simp
  with 1 show ?thesis by (simp add: transfer_host_def Inr Let_def wire_only_trans)
qed (simp add: transfer_host_def)

lemma moderation_wire:
  assumes "snd (handle_moderation_message h w rnd m session) \<noteq> w"
  obtains s where "session = Some s"
    "wire_only (member_senders w (ms_lobby_id s)) w (snd (handle_moderation_message h w rnd m session))"
proof -
  obtain s where s: "session = Some s" "moderation_from m = Some (ms_client_id s)"
    "hm_get (w_client_lobby_map w) (ms_client_id s) = Some (ms_lobby_id s)"
    using handle_moderation_refused [OF assms] by metis
  have "wire_only (member_senders w (ms_lobby_id s)) w (snd (handle_moderation_message h w rnd m (Some s)))"
    by (rule handle_moderation_cases [OF s(2) refl s(3), of h rnd])
      (simp_all add: kick_wire mute_wire transfer_wire options_wire)
  with s(1) that show thesis by blast
qed

section \<open>What a dispatched message may do\<close>

definition is_register_v3 :: "SignalingMessage \<Rightarrow> bool" where
  "is_register_v3 m = (case m of RegisterV3 _ _ _ _ _ _ _ _ _ _ _ \<Rightarrow> True | _ \<Rightarrow> False)"

text \<open>The sockets a message of this connection may reach.\<close>

definition audience :: "World \<Rightarrow> Conn \<Rightarrow> SignalingMessage \<Rightarrow> nat set" where
  "audience w c m =
     {x. x = co_sender c \<or> co_is_registered c \<and>
        (\<exists>lid. (co_lobby_id c = Some lid \<or>
            (\<exists>frm. claimed_sender m = Some frm \<and> hm_get (w_client_lobby_map w) frm = Some lid)) \<and>
          x \<in> member_senders w lid)}"

definition quiet :: "World \<Rightarrow> Conn \<Rightarrow> SignalingMessage \<Rightarrow> World \<Rightarrow> bool" where
  "quiet w c m w' \<longleftrightarrow> same_registry w w' \<and> wire_only (audience w c m) w w'"

lemma routed_quiet: "routed w c frm w' \<Longrightarrow> claimed_sender m = Some frm \<Longrightarrow> quiet w c m w'"
  unfolding routed_def quiet_def
  by (auto dest: only_sends_registry elim!: only_sends_wire simp: audience_def)

lemma quiet_own: "quiet w c m (snd (send_message h w (co_sender c) f))"
  unfolding quiet_def using send_keeps_registry(1)
  by (auto intro!: wire_only_mono [OF send_wire] simp: audience_def)

lemma quiet_json: "quiet w c m (snd (send_json h w (co_sender c) x))"
  by (simp add: send_json_def send_text_def quiet_own)

lemma quiet_refl [simp]: "quiet w c m w"
  by (simp add: quiet_def)

lemma quiet_players: "quiet w c m (snd (on_players_list_request h w c))"
  by (simp add: on_players_list_request_def quiet_json split: option.splits)

lemma quiet_voice: "quiet w c m (snd (on_voice_reconnect h w c frm dst))"
proof (cases "co_lobby_id c")
  case (Some lid)
  have "member_senders w lid \<subseteq> audience w c m" if "co_is_registered c"
    using Some that by (auto simp: audience_def)
  then show ?thesis
    using Some send_keeps_registry(3) [of w h lid dst]
    by (auto simp: on_voice_reconnect_def quiet_def intro!: only_sends_wire [OF send_to_member_only [of w lid]])
qed (simp add: on_voice_reconnect_def)

lemma reject_legacy_quiet: "quiet w c m (snd (reject_legacy h cfg w (co_sender c) v))"
  by (simp add: reject_legacy_def Let_def send_response_def send_text_def quiet_own)

lemma on_register_world:
  "on_register S s c v =
     (Break, c, s\<lparr>sv_world := snd (reject_legacy (si_host S) (si_config S) (sv_world s) (co_sender c) v)\<rparr>)"
  by (simp add: on_register_def split: prod.splits)

lemmas quiet_branches = quiet_json quiet_players quiet_voice reject_legacy_quiet

lemma dispatch_quiet:
  assumes "dispatch S T s c m = Some (flow, c', s')" "\<not> is_register_v3 m"
  shows "c' = c \<and> quiet (sv_world s) c m (sv_world s')"
proof -
  note q = routed_forward [THEN routed_quiet] routed_fan_out [THEN routed_quiet]
    routed_offer [THEN routed_quiet]
  show ?thesis
    using assms
    by (cases m)
      (auto simp: dispatch_def Let_def is_register_v3_def relayed_def forwarding_branches broadcasting_branches
        q claimed_sender_def quiet_branches on_ping_def on_public_lobby_list_request_def
        on_community_node_list_request_def on_community_node_submit_def on_register_world
        split: prod.splits)
qed


text \<open>A registered connection that sends a second registration is only dropped.\<close>

lemma dispatch_registered_v3:
  assumes "dispatch S T s c m = Some (flow, c', s')" "is_register_v3 m" "co_is_registered c"
  shows "c' = c \<and> s' = s"
  using assms
  by (cases m) (auto simp: dispatch_def Let_def is_register_v3_def on_register_v3_def handle_v3_def
      check_request_def)

text \<open>The sockets a frame on this connection may reach: its own and those of its own lobby.\<close>

definition own_audience :: "World \<Rightarrow> Conn \<Rightarrow> nat set" where
  "own_audience w c =
     {x. x = co_sender c \<or> co_is_registered c \<and>
        (\<exists>lid. (co_lobby_id c = Some lid \<or>
            (\<exists>cid. co_client_id c = Some cid \<and> hm_get (w_client_lobby_map w) cid = Some lid)) \<and>
          x \<in> member_senders w lid)}"

lemma audience_own:
  "\<not> is_some_and (claimed_sender m) (\<lambda>claimed. co_client_id c \<noteq> Some claimed) \<Longrightarrow>
   audience w c m \<subseteq> own_audience w c"
  by (auto simp: audience_def own_audience_def is_some_and_def)

lemma own_json_wire: "wire_only (own_audience w c) w (snd (send_json h w (co_sender c) m))"
  unfolding send_json_def send_text_def
  by (rule wire_only_mono [OF send_wire]) (simp add: own_audience_def)

lemma own_json_registry: "same_registry w (snd (send_json h w sender m))"
  by (simp add: send_json_def send_keeps_registry)

lemma moderation_own_wire:
  assumes "handle_moderation_message h w rnd m (moderation_session c) = (d, w1)"
  shows "wire_only (own_audience w c) w w1 \<and> (w1 \<noteq> w \<longrightarrow> co_is_registered c)"
proof (cases "w1 = w")
  case False
  then have "snd (handle_moderation_message h w rnd m (moderation_session c)) \<noteq> w"
    using assms by simp
  then obtain ms where ms: "moderation_session c = Some ms" "wire_only (member_senders w (ms_lobby_id ms)) w w1"
    by (rule moderation_wire [where thesis = thesis]) (use assms in simp)
  then have "co_is_registered c" "co_lobby_id c = Some (ms_lobby_id ms)"
    by (auto simp: moderation_session_def split: if_splits option.splits)
  moreover from this have "member_senders w (ms_lobby_id ms) \<subseteq> own_audience w c"
    by (auto simp: own_audience_def)
  ultimately show ?thesis using wire_only_mono [OF ms(2)] by simp
qed simp

lemma dispatch_effect:
  assumes "dispatch S T s c m = Some (flow, c', s')" "co_is_registered c \<or> \<not> is_register_v3 m"
    and "\<not> is_some_and (claimed_sender m) (\<lambda>claimed. co_client_id c \<noteq> Some claimed)"
  shows "c' = c \<and> wire_only (own_audience (sv_world s) c) (sv_world s) (sv_world s') \<and>
    (\<not> co_is_registered c \<longrightarrow> same_registry (sv_world s) (sv_world s'))"
proof (cases "is_register_v3 m")
  case True
  with assms have "c' = c \<and> s' = s" by (intro dispatch_registered_v3) auto
  then show ?thesis by simp
next
  case False
  from dispatch_quiet [OF assms(1) False] audience_own [OF assms(3), of "sv_world s"] show ?thesis
    by (auto simp: quiet_def intro: wire_only_mono)
qed

lemma handle_text_effect:
  assumes "handle_text S T s c txt = Some (flow, c', s')"
    and "co_is_registered c \<or> (\<forall>m. si_parse S txt = Inr m \<longrightarrow> \<not> is_register_v3 m)"
  shows "c' = c \<and> wire_only (own_audience (sv_world s) c) (sv_world s) (sv_world s') \<and>
    (\<not> co_is_registered c \<longrightarrow> same_registry (sv_world s) (sv_world s'))"
proof (cases "si_parse S txt")
  case (Inl e)
  with assms(1) show ?thesis by (auto simp: handle_text_def own_json_wire own_json_registry)
next
  case (Inr m)
  let ?w = "sv_world s"
  let ?forged = "is_some_and (claimed_sender m) (\<lambda>claimed. co_client_id c \<noteq> Some claimed)"
  obtain d w1 where mod: "handle_moderation_message (si_host S) ?w (tu_rotation T) m (moderation_session c) = (d, w1)"
    by fastforce
  consider "\<not> validate_message_shape m" | "validate_message_shape m" ?forged
    | (dispatched) "validate_message_shape m" "\<not> ?forged" "d = NotHandled"
    | (moderated) "validate_message_shape m" "\<not> ?forged" "d \<noteq> NotHandled"
    by blast
  then show ?thesis
  proof cases
    case dispatched
    with Inr mod assms(1) have "dispatch S T s c m = Some (flow, c', s')"
      by (simp add: handle_text_def)
    then show ?thesis by (rule dispatch_effect) (use assms(2) Inr dispatched in auto)
  next
    case moderated
    with Inr mod assms(1) have "c' = c" "sv_world s' = w1"
      by (auto simp: handle_text_def split: ModerationDispatch.splits)
    with moderation_own_wire [OF mod] show ?thesis by (cases "w1 = ?w") auto
  qed (use Inr assms(1) in \<open>auto simp: handle_text_def own_json_wire own_json_registry\<close>)
qed

lemma handle_frame_cases:
  assumes "handle_frame S T s c msg = Some (flow, c', s')"
  obtains (closed) "flow = Break" "s' = s\<lparr>sv_world := snd (send_message (si_host S) (sv_world s) (co_sender c) Close)\<rparr>"
      "\<exists>l. c' = c\<lparr>co_limiter := l\<rparr>"
    | (idle) "s' = s" "\<exists>l. c' = c\<lparr>co_limiter := l\<rparr>"
    | (parsed) l raw where "msg = Text raw" "co_is_registered c \<longrightarrow> conn_is_current (sv_world s) c"
        "handle_text S T s (c\<lparr>co_limiter := l\<rparr>) raw = Some (flow, c', s')"
proof -
  obtain ok l where l: "ml_allow (co_limiter c) (tu_now T) (tu_restart T) = (ok, l)" by fastforce
  have cur: "conn_is_current (sv_world s) (c\<lparr>co_limiter := l\<rparr>) = conn_is_current (sv_world s) c"
    by (simp add: conn_is_current_def split: option.splits)
  show thesis
    using assms that l
    by (auto simp: handle_frame_def Let_def cur split: if_splits WsMessage.splits)
qed

lemma own_audience_limiter [simp]: "own_audience w (c\<lparr>co_limiter := l\<rparr>) = own_audience w c"
  by (simp add: own_audience_def)


lemma closed_effect:
  "same_registry w (snd (send_message h w (co_sender c) Close))"
  "wire_only (own_audience w c) w (snd (send_message h w (co_sender c) Close))"
  by (rule send_keeps_registry) (rule wire_only_mono [OF send_wire], simp add: own_audience_def)

lemma handle_frame_effect:
  assumes "handle_frame S T s c msg = Some (flow, c', s')"
    and "co_is_registered c \<or> (\<forall>raw m. msg = Text raw \<and> si_parse S raw = Inr m \<longrightarrow> \<not> is_register_v3 m)"
  shows "(\<exists>l. c' = c\<lparr>co_limiter := l\<rparr>) \<and>
    wire_only (own_audience (sv_world s) c) (sv_world s) (sv_world s') \<and>
    (\<not> co_is_registered c \<longrightarrow> same_registry (sv_world s) (sv_world s'))"
  using assms(1)
proof (cases rule: handle_frame_cases)
  case closed
  then show ?thesis by (simp add: closed_effect)
next
  case idle
  then show ?thesis by simp
next
  case (parsed l raw)
  have "c' = c\<lparr>co_limiter := l\<rparr> \<and>
      wire_only (own_audience (sv_world s) (c\<lparr>co_limiter := l\<rparr>)) (sv_world s) (sv_world s') \<and>
      (\<not> co_is_registered (c\<lparr>co_limiter := l\<rparr>) \<longrightarrow> same_registry (sv_world s) (sv_world s'))"
    by (rule handle_text_effect [OF parsed(3)]) (use assms(2) parsed(1) in auto)
  then show ?thesis by auto
qed

text \<open>On a current session the reverse map and the connection agree on the lobby.\<close>

lemma current_lobby:
  assumes "registry_inv C w" "conn_is_current w c"
  obtains cid lid where "co_client_id c = Some cid" "co_lobby_id c = Some lid"
    "is_current_session w lid cid (co_generation c) (co_sender c)"
    "hm_get (w_client_lobby_map w) cid = Some lid"
proof -
  obtain cid lid where c: "co_client_id c = Some cid" "co_lobby_id c = Some lid"
    "is_current_session w lid cid (co_generation c) (co_sender c)"
    using assms(2) by (auto simp: conn_is_current_def split: option.splits)
  then have "lobby_client w lid cid \<noteq> None" by (auto simp: is_current_session_def split: option.splits)
  then have "hm_get (w_client_lobby_map w) cid = Some lid" using assms(1) by (simp add: registry_inv_def)
  with c that show thesis by blast
qed

section \<open>Leaving\<close>

definition spec_depart :: "rstr \<Rightarrow> rstr \<Rightarrow> rstr \<Rightarrow> lobby_view \<Rightarrow> lobby_view option" where
  "spec_depart token cid successor v =
     (if v_members v = {cid} then None
      else
        let v1 = v\<lparr>v_members := v_members v - {cid}, v_muted := v_muted v - {cid}\<rparr>
        in Some (spec_rotate token
             (if v_host v = cid
              then v1\<lparr>v_host := successor, v_muted := v_muted v1 - {successor}\<rparr> else v1)))"

lemma depart_locked_Some:
  assumes "depart_locked w rnd cid lid sender = Some (d, w1)"
  obtains lobby cl where "hm_get (w_lobbies w) lid = Some lobby" "hm_get (lb_clients lobby) cid = Some cl"
    "ci_sender cl = sender"
  using assms by (auto simp: depart_locked_def is_some_and_def split: option.splits if_splits)

definition left_lobby :: "bytes \<Rightarrow> rstr \<Rightarrow> LobbyInfo \<Rightarrow> LobbyInfo" where
  "left_lobby rnd cid lobby =
     (let lobby1 = lobby\<lparr>lb_clients := hm_remove cid (lb_clients lobby),
                         lb_muted := set_remove cid (lb_muted lobby)\<rparr>;
          next_host = hd (hm_keys (lb_clients lobby1))
      in rotate_chat_token rnd
           (if lb_host_id lobby = cid
            then lobby1\<lparr>lb_host_id := next_host, lb_muted := set_remove next_host (lb_muted lobby1)\<rparr>
            else lobby1))"

lemma depart_locked_world:
  assumes "depart_locked w rnd cid lid sender = Some (d, w1)" "hm_get (w_lobbies w) lid = Some lobby"
  shows "w1 = (if hm_len (hm_remove cid (lb_clients lobby)) = 0
     then drop_mapping cid lid (w\<lparr>w_lobbies := hm_remove lid (w_lobbies w)\<rparr>)
     else drop_mapping cid lid (put_lobby lid (left_lobby rnd cid lobby) w))"
  using assms by (auto simp: depart_locked_def left_lobby_def Let_def split: if_splits)

lemma left_lobby_inv:
  assumes "lobby_inv C lid l" "hm_contains (lb_clients l) cid" "hm_len (hm_remove cid (lb_clients l)) \<noteq> 0"
  shows "lobby_inv C lid (left_lobby rnd cid l)"
proof (rule lobby_inv_remove [OF assms(1,2)])
  let ?l = "left_lobby rnd cid l"
  have first: "hm_contains (hm_remove cid (lb_clients l)) (hd (hm_keys (hm_remove cid (lb_clients l))))"
    using hm_first_key [OF assms(3)] by (simp add: hm_contains_iff)
  show "hm_contains (lb_clients ?l) (lb_host_id ?l)"
    using first assms(1) by (auto simp: left_lobby_def Let_def lobby_inv_def contains_remove)
  show "lb_host_id ?l \<notin> set (lb_muted ?l)" "distinct (lb_muted ?l)"
    "set (lb_muted ?l) \<subseteq> set (lb_muted l) - {cid}"
    using assms(1) by (auto simp: left_lobby_def Let_def lobby_inv_def)
  show "1 \<le> unat (lb_chat_token_epoch ?l)"
    using assms(1) by (auto simp: left_lobby_def Let_def rotate_epoch lobby_inv_def)
qed (auto simp: left_lobby_def Let_def)

lemma depart_locked_inv:
  assumes "registry_inv C w" "depart_locked w rnd cid lid sender = Some (d, w1)"
  shows "registry_inv C w1"
proof -
  obtain lobby cl where l: "hm_get (w_lobbies w) lid = Some lobby" "hm_get (lb_clients lobby) cid = Some cl"
    using depart_locked_Some [OF assms(2)] by metis
  have c: "hm_contains (lb_clients lobby) cid" by (simp add: hm_contains_def l(2))
  show ?thesis
  proof (cases "hm_len (hm_remove cid (lb_clients lobby)) = 0")
    case True
    with registry_inv_close [OF assms(1) l(1) c] depart_locked_world [OF assms(2) l(1)] show ?thesis by simp
  next
    case False
    have "registry_inv C (drop_mapping cid lid (put_lobby lid (left_lobby rnd cid lobby) w))"
      by (rule registry_inv_remove [OF assms(1) l(1) c left_lobby_inv [OF registry_lobby [OF assms(1) l(1)] c False]])
        (auto simp: left_lobby_def Let_def)
    with False depart_locked_world [OF assms(2) l(1)] show ?thesis by simp
  qed
qed

lemma cleanup_registry:
  assumes "co_client_id c = Some cid" "co_lobby_id c = Some lid"
    and "depart_locked w rnd cid lid (co_sender c) = Some (d, w1)"
  shows "same_registry w1 (cleanup h w rnd c)"
proof -
  define w2 where "w2 = broadcast_to_lobby h w1 lid cid (PlayerLeft cid (co_generation c))"
  define w3 where "w3 = (case dp_rotation d of None \<Rightarrow> w2 | Some (targets, token, epoch) \<Rightarrow>
      send_chat_token_rotation h w2 targets lid token epoch)"
  have "same_registry w1 w2" unfolding w2_def by (rule send_keeps_registry)
  moreover have "same_registry w2 w3" unfolding w3_def by (auto intro: send_keeps_registry split: option.splits)
  ultimately have 3: "same_registry w1 w3" by (rule same_registry_trans)
  then have "same_registry w1 (broadcast_to_lobby h (broadcast_to_lobby h w3 lid [] a) lid [] b)" for a b
    by (blast intro: same_registry_trans send_keeps_registry)
  moreover have "cleanup h w rnd c = (case dp_new_host d of
      None \<Rightarrow> w3
    | Some host_id \<Rightarrow> broadcast_to_lobby h
        (broadcast_to_lobby h w3 lid [] (PlayerMuteChanged host_id False)) lid [] (HostChanged host_id))"
    unfolding w3_def w2_def using assms by (simp add: cleanup_def Let_def)
  ultimately show ?thesis using 3 by (simp split: option.splits)
qed

lemma cleanup_inv: "registry_inv C w \<Longrightarrow> registry_inv C (cleanup h w rnd c)"
proof (cases "co_client_id c"; cases "co_lobby_id c")
  fix cid lid
  assume inv: "registry_inv C w" and c: "co_client_id c = Some cid" "co_lobby_id c = Some lid"
  show ?thesis
  proof (cases "depart_locked w rnd cid lid (co_sender c)")
    case None
    with c inv show ?thesis by (simp add: cleanup_def)
  next
    case (Some dw)
    then have d: "depart_locked w rnd cid lid (co_sender c) = Some (fst dw, snd dw)" by simp
    show ?thesis
      using registry_inv_same [OF cleanup_registry [OF c d, of h]] depart_locked_inv [OF inv d] by blast
  qed
qed (simp_all add: cleanup_def)

section \<open>Progress\<close>

lemma dispatch_total: "\<not> is_register_v3 m \<Longrightarrow> dispatch S T s c m \<noteq> None"
  by (cases m) (simp_all add: dispatch_def Let_def is_register_v3_def)

lemma handle_text_total:
  assumes "\<forall>m. si_parse S raw = Inr m \<longrightarrow> \<not> is_register_v3 m"
  shows "handle_text S T s c raw \<noteq> None"
proof (cases "si_parse S raw")
  case (Inr m)
  with assms have "dispatch S T s c m \<noteq> None" by (intro dispatch_total) simp
  with Inr show ?thesis
    by (simp add: handle_text_def Let_def split: prod.splits ModerationDispatch.splits)
qed (simp add: handle_text_def Let_def)

lemma handle_frame_total:
  assumes "\<forall>raw m. msg = Text raw \<and> si_parse S raw = Inr m \<longrightarrow> \<not> is_register_v3 m"
  shows "\<exists>flow c' s'. handle_frame S T s c msg = Some (flow, c', s')"
proof -
  have "handle_text S T s x raw \<noteq> None" if "msg = Text raw" for raw x
    using assms that by (intro handle_text_total) simp
  then have "handle_frame S T s c msg \<noteq> None"
    by (auto simp: handle_frame_def Let_def split: prod.splits WsMessage.splits)
  then show ?thesis by auto
qed

section \<open>The session of a connection\<close>

definition same_session :: "Conn \<Rightarrow> Conn \<Rightarrow> bool" where
  "same_session c c' \<longleftrightarrow>
     co_client_id c' = co_client_id c \<and> co_lobby_id c' = co_lobby_id c \<and>
     co_generation c' = co_generation c \<and> co_is_registered c' = co_is_registered c"

definition same_socket :: "Conn \<Rightarrow> Conn \<Rightarrow> bool" where
  "same_socket c c' \<longleftrightarrow>
     co_sender c' = co_sender c \<and> co_disconnect c' = co_disconnect c \<and>
     co_source c' = co_source c \<and> co_challenge c' = co_challenge c"

lemma same_session_limiter: "same_session c (c\<lparr>co_limiter := l\<rparr>)" "same_socket c (c\<lparr>co_limiter := l\<rparr>)"
  by (simp_all add: same_session_def same_socket_def)

text \<open>An unregistered connection has no identity; a registered one has all of it.\<close>

definition conn_inv :: "Conn \<Rightarrow> bool" where
  "conn_inv c \<longleftrightarrow>
     (if co_is_registered c then co_client_id c \<noteq> None \<and> co_lobby_id c \<noteq> None
      else co_client_id c = None \<and> co_lobby_id c = None)"

definition register_context :: "Conn \<Rightarrow> RegistrationContext" where
  "register_context c =
     \<lparr>rc_sender = co_sender c, rc_disconnect = co_disconnect c, rc_challenge = co_challenge c,
      rc_source_ip = fst (co_source c), rc_is_registered = co_is_registered c\<rparr>"

definition enrolled :: "Conn \<Rightarrow> RegisteredSession \<Rightarrow> Conn" where
  "enrolled c session =
     c\<lparr>co_client_id := Some (rs_client_id session), co_lobby_id := Some (rs_lobby_id session),
       co_generation := rs_generation session, co_is_registered := True\<rparr>"

lemma on_register_v3_cases:
  assumes "on_register_v3 S T s c req = Some (flow, c', s')"
  obtains (refused) out w where "handle_v3 (si_host S) (si_config S) (tu_lock_time T) (tu_entropy T)
        (register_context c) req (sv_world s) = Some (out, w)" "out = Retry \<or> out = Disconnect"
      "c' = c" "s' = s\<lparr>sv_world := w\<rparr>"
    | (committed) session d w where "handle_v3 (si_host S) (si_config S) (tu_lock_time T) (tu_entropy T)
        (register_context c) req (sv_world s) = Some (Committed session d, w)"
      "c' = enrolled c session" "s' = s\<lparr>sv_world := w\<rparr>"
proof -
  obtain out w where run: "handle_v3 (si_host S) (si_config S) (tu_lock_time T) (tu_entropy T)
      (register_context c) req (sv_world s) = Some (out, w)"
    using assms by (auto simp: on_register_v3_def register_context_def Let_def)
  note res = assms [unfolded on_register_v3_def register_context_def [symmetric] Let_def run]
  show thesis
  proof (cases out)
    case (Committed session d)
    with res have "c' = enrolled c session" "s' = s\<lparr>sv_world := w\<rparr>" by (auto simp: enrolled_def)
    with run Committed show thesis by (intro committed) simp_all
  qed (rule refused [OF run], use res in auto)+
qed

lemma dispatch_v3:
  assumes "dispatch S T s c m = Some r" "is_register_v3 m"
  obtains req where "on_register_v3 S T s c req = Some r"
  using assms by (cases m) (auto simp: dispatch_def Let_def is_register_v3_def)

lemma dispatch_session:
  assumes "dispatch S T s c m = Some (flow, c', s')"
  shows "same_socket c c' \<and> (co_is_registered c \<longrightarrow> c' = c) \<and> (conn_inv c \<longrightarrow> conn_inv c')"
proof (cases "is_register_v3 m")
  case True
  obtain req where "on_register_v3 S T s c req = Some (flow, c', s')"
    using dispatch_v3 [OF assms True] .
  then have "same_socket c c' \<and> (conn_inv c \<longrightarrow> conn_inv c')"
    by (cases rule: on_register_v3_cases) (auto simp: same_socket_def conn_inv_def enrolled_def)
  with dispatch_registered_v3 [OF assms True] show ?thesis by blast
next
  case False
  with dispatch_quiet [OF assms] show ?thesis by (simp add: same_socket_def)
qed

lemma handle_text_session:
  assumes "handle_text S T s c raw = Some (flow, c', s')"
  shows "same_socket c c' \<and> (co_is_registered c \<longrightarrow> c' = c) \<and> (conn_inv c \<longrightarrow> conn_inv c')"
  using assms dispatch_session [of S T s c _ flow c' s']
  by (auto simp: handle_text_def Let_def same_socket_def
      split: sum.splits if_splits prod.splits ModerationDispatch.splits)

lemma handle_incoming_session:
  assumes "handle_incoming S T s c i = Some (flow, c', s')"
  shows "same_socket c c' \<and> (co_is_registered c \<longrightarrow> same_session c c') \<and> (conn_inv c \<longrightarrow> conn_inv c')"
proof (cases i)
  case (Received msg)
  then have "handle_frame S T s c msg = Some (flow, c', s')" using assms by (simp add: handle_incoming_def)
  then show ?thesis
  proof (cases rule: handle_frame_cases)
    case (parsed l raw)
    from handle_text_session [OF parsed(3)] show ?thesis
      by (auto simp: same_socket_def same_session_def conn_inv_def)
  qed (auto simp: same_session_limiter conn_inv_def)
qed (use assms in \<open>auto simp: handle_incoming_def same_session_def same_socket_def\<close>)

lemma serve_session:
  "serve S s c is = Some (ended, c', s') \<Longrightarrow>
   same_socket c c' \<and> (co_is_registered c \<longrightarrow> same_session c c') \<and> (conn_inv c \<longrightarrow> conn_inv c')"
proof (induction S s c "is" rule: serve.induct)
  case (2 S s c T i rest)
  obtain flow c1 s1 where step: "handle_incoming S T s c i = Some (flow, c1, s1)"
    and rest: "flow = Break \<and> c' = c1 \<or> flow \<noteq> Break \<and> serve S s1 c1 rest = Some (ended, c', s')"
    using "2.prems" by (auto simp: Option.bind_eq_Some_conv split: if_splits)
  note h = handle_incoming_session [OF step]
  from rest show ?case
  proof
    assume "flow \<noteq> Break \<and> serve S s1 c1 rest = Some (ended, c', s')"
    with "2.IH" [of "(flow, c1, s1)" flow "(c1, s1)" c1 s1] step h show ?thesis
      by (auto simp: same_socket_def same_session_def)
  qed (use h in auto)
qed (auto simp: same_socket_def same_session_def)

section \<open>Departure, abstractly\<close>

lemma distinct_map_fun: "distinct (map (\<lambda>x. f (g x)) xs) \<Longrightarrow> distinct (map g xs)"
  by (induction xs) auto

lemma first_remaining:
  "hm_len m \<noteq> 0 \<Longrightarrow> hm_contains m (hd (hm_keys m))"
  using hm_first_key [of m] by (simp add: hm_contains_iff)

lemma remaining_members:
  assumes "hm_contains m cid"
  shows "hm_len (hm_remove cid m) = 0 \<longleftrightarrow> {i. hm_contains m i} = {cid}"
proof
  assume "hm_len (hm_remove cid m) = 0"
  then have "hm_get (hm_remove cid m) i = None" for i by (simp add: hm_len_zero_iff)
  then have "hm_contains m i \<longrightarrow> i = cid" for i
    using contains_remove [of cid m i] by (auto simp: hm_contains_def)
  then show "{i. hm_contains m i} = {cid}" using assms by blast
next
  assume only: "{i. hm_contains m i} = {cid}"
  show "hm_len (hm_remove cid m) = 0"
  proof (rule ccontr)
    assume "hm_len (hm_remove cid m) \<noteq> 0"
    from first_remaining [OF this] show False using only unfolding contains_remove by blast
  qed
qed

lemma depart_successor:
  assumes "hm_contains (lb_clients l) cid"
  shows "v_members (lobby_abs l) = {cid} \<or>
    hd (hm_keys (hm_remove cid (lb_clients l))) \<in> v_members (lobby_abs l) - {cid}"
proof (cases "hm_len (hm_remove cid (lb_clients l)) = 0")
  case True
  then show ?thesis using remaining_members [OF assms] by (simp add: lobby_abs_def)
next
  case False
  then have "hm_contains (hm_remove cid (lb_clients l)) (hd (hm_keys (hm_remove cid (lb_clients l))))"
    by (rule first_remaining)
  then show ?thesis by (simp add: lobby_abs_def contains_remove)
qed

lemma left_lobby_abs:
  "lobby_abs (left_lobby rnd cid l) =
     (let v = lobby_abs l;
          v1 = v\<lparr>v_members := v_members v - {cid}, v_muted := v_muted v - {cid}\<rparr>;
          successor = hd (hm_keys (hm_remove cid (lb_clients l)))
      in spec_rotate (generate_chat_token rnd) (if v_host v = cid
           then v1\<lparr>v_host := successor, v_muted := v_muted v1 - {successor}\<rparr> else v1))"
proof -
  define k where "k = l\<lparr>lb_clients := hm_remove cid (lb_clients l), lb_muted := set_remove cid (lb_muted l)\<rparr>"
  have k: "lobby_abs k = (lobby_abs l)\<lparr>v_members := v_members (lobby_abs l) - {cid},
      v_muted := v_muted (lobby_abs l) - {cid}\<rparr>" unfolding k_def by (rule lobby_abs_remove)
  have moved: "lobby_abs (k\<lparr>lb_host_id := x, lb_muted := set_remove x (lb_muted k)\<rparr>) =
      (lobby_abs k)\<lparr>v_host := x, v_muted := v_muted (lobby_abs k) - {x}\<rparr>" for x
    by (simp add: lobby_abs_def)
  have "v_host (lobby_abs l) = lb_host_id l" "lb_clients k = hm_remove cid (lb_clients l)"
    by (simp_all add: lobby_abs_def k_def)
  then show ?thesis
    unfolding left_lobby_def Let_def k_def [symmetric] lobby_abs_rotate
    by (simp only: if_distrib [of lobby_abs] moved k)
qed

lemma depart_view:
  assumes "depart_locked w rnd cid lid sender = Some (d, w1)" "hm_get (w_lobbies w) lid = Some l"
    and "hm_contains (lb_clients l) cid"
  shows "view w1 = (view w)(lid :=
    spec_depart (generate_chat_token rnd) cid (hd (hm_keys (hm_remove cid (lb_clients l)))) (lobby_abs l))"
proof (cases "hm_len (hm_remove cid (lb_clients l)) = 0")
  case True
  then have "spec_depart token cid x (lobby_abs l) = None" for token x
    using remaining_members [OF assms(3)] by (simp add: spec_depart_def lobby_abs_def)
  with True show ?thesis
    unfolding depart_locked_world [OF assms(1,2)] by (auto simp: view_def fun_eq_iff hm.get_del)
next
  case False
  then have "v_members (lobby_abs l) \<noteq> {cid}"
    using remaining_members [OF assms(3)] by (simp add: lobby_abs_def)
  then have "spec_depart (generate_chat_token rnd) cid (hd (hm_keys (hm_remove cid (lb_clients l)))) (lobby_abs l) =
      Some (lobby_abs (left_lobby rnd cid l))"
    by (simp add: spec_depart_def Let_def left_lobby_abs)
  with False show ?thesis
    unfolding depart_locked_world [OF assms(1,2)] by (simp add: view_put)
qed

section \<open>Properties\<close>

text \<open>
  C35. A registered connection talks only inside its own lobby: whatever frame arrives on it,
  everything the server writes in reaction goes to the connection's own socket or to sockets of
  members of the lobby it registered in, and the latter only while its session is the current
  one of its client there.
\<close>

theorem routing_isolated:
  assumes "registry_inv C (sv_world s)" "co_is_registered c"
    and "handle_frame S T s c frame = Some (flow, c', s')"
  shows "\<exists>log. w_wire (sv_world s') = w_wire (sv_world s) @ log \<and>
    (\<forall>e \<in> set log. fst e = co_sender c \<or>
       (\<exists>cid lid. co_client_id c = Some cid \<and> co_lobby_id c = Some lid \<and>
          is_current_session (sv_world s) lid cid (co_generation c) (co_sender c) \<and>
          fst e \<in> member_senders (sv_world s) lid))"
proof (cases "conn_is_current (sv_world s) c")
  case True
  then obtain cid lid where cl: "co_client_id c = Some cid" "co_lobby_id c = Some lid"
    "is_current_session (sv_world s) lid cid (co_generation c) (co_sender c)"
    "hm_get (w_client_lobby_map (sv_world s)) cid = Some lid"
    using current_lobby [OF assms(1)] by blast
  have "wire_only (own_audience (sv_world s) c) (sv_world s) (sv_world s')"
    using handle_frame_effect [OF assms(3)] assms(2) by blast
  moreover have "own_audience (sv_world s) c \<subseteq> {x. x = co_sender c \<or> x \<in> member_senders (sv_world s) lid}"
    using cl by (auto simp: own_audience_def)
  ultimately have "wire_only {x. x = co_sender c \<or> x \<in> member_senders (sv_world s) lid}
      (sv_world s) (sv_world s')" by (rule wire_only_mono)
  then show ?thesis unfolding wire_only_def using cl by fastforce
next
  case False
  from assms(3) have "wire_only {co_sender c} (sv_world s) (sv_world s')"
    by (cases rule: handle_frame_cases) (use False assms(2) in \<open>simp_all add: send_wire\<close>)
  then show ?thesis unfolding wire_only_def by fastforce
qed

text \<open>
  C36. Before it has registered a connection is powerless: any frame but a registration leaves
  the registry and the failure table as they were, is answered on the connection's own socket at
  most, and does not register it.
\<close>

theorem unregistered_powerless:
  assumes "\<not> co_is_registered c"
    and "\<forall>raw m. frame = Text raw \<and> si_parse S raw = Inr m \<longrightarrow> \<not> is_register_v3 m"
  shows "\<exists>flow c' s' log. handle_frame S T s c frame = Some (flow, c', s') \<and>
    same_registry (sv_world s) (sv_world s') \<and> \<not> co_is_registered c' \<and>
    w_wire (sv_world s') = w_wire (sv_world s) @ log \<and> (\<forall>e \<in> set log. fst e = co_sender c)"
proof -
  obtain flow c' s' where run: "handle_frame S T s c frame = Some (flow, c', s')"
    using handle_frame_total [OF assms(2)] by blast
  have eff: "\<exists>l. c' = c\<lparr>co_limiter := l\<rparr>" "same_registry (sv_world s) (sv_world s')"
    "wire_only (own_audience (sv_world s) c) (sv_world s) (sv_world s')"
    using handle_frame_effect [OF run disjI2 [OF assms(2)]] assms(1) by blast+
  then have "\<not> co_is_registered c'" using assms(1) by auto
  moreover have "own_audience (sv_world s) c = {co_sender c}" using assms(1) by (auto simp: own_audience_def)
  ultimately show ?thesis using run eff(2,3) unfolding wire_only_def by fastforce
qed

text \<open>
  C37. A superseded session is powerless: when the registry no longer holds the client under
  this connection's socket (it was kicked, or has registered again elsewhere), every frame closes
  the connection and changes no registry entry, and its cleanup changes nothing at all, so that
  the late end of an old connection never removes the new session.
\<close>

theorem stale_session_powerless:
  assumes "co_is_registered c" "co_client_id c = Some cid" "co_lobby_id c = Some lid"
    and "\<forall>cl. lobby_client (sv_world s) lid cid = Some cl \<longrightarrow> ci_sender cl \<noteq> co_sender c"
  shows "(\<exists>c' s'. handle_frame S T s c frame = Some (Break, c', s') \<and>
      same_registry (sv_world s) (sv_world s') \<and> sv_community s' = sv_community s \<and>
      wire_only {co_sender c} (sv_world s) (sv_world s')) \<and>
    cleanup h (sv_world s) rnd c = sv_world s"
proof
  have stale: "\<not> conn_is_current (sv_world s) (c\<lparr>co_limiter := l\<rparr>)" for l
    using assms by (auto simp: conn_is_current_def is_current_session_def split: option.splits)
  show "\<exists>c' s'. handle_frame S T s c frame = Some (Break, c', s') \<and>
      same_registry (sv_world s) (sv_world s') \<and> sv_community s' = sv_community s \<and>
      wire_only {co_sender c} (sv_world s) (sv_world s')"
    using assms(1) stale
    by (auto simp: handle_frame_def Let_def send_keeps_registry send_wire split: prod.splits)
  have "depart_locked (sv_world s) rnd cid lid (co_sender c) = None"
    using assms(4) by (auto simp: depart_locked_def lobby_client_def is_some_and_def split: option.splits)
  then show "cleanup h (sv_world s) rnd c = sv_world s" using assms(2,3) by (simp add: cleanup_def)
qed


text \<open>
  C38. Leaving refines its abstract meaning: when the connection that holds the member ends, the
  member and its mute are gone from its lobby, a lobby left empty is gone too; otherwise its
  credential is replaced by the hex form of the random bytes drawn for the departure, with the
  next number, and, if the host left, some remaining member is the host and unmuted. No
  other lobby changes, the reverse map forgets the client and the registry invariant holds.
\<close>

theorem departure_refines_spec:
  assumes "registry_inv C w" "co_client_id c = Some cid" "co_lobby_id c = Some lid"
    and "hm_get (w_lobbies w) lid = Some l" "hm_get (lb_clients l) cid = Some cl"
    and "ci_sender cl = co_sender c"
  shows "\<exists>successor.
    (v_members (lobby_abs l) = {cid} \<or> successor \<in> v_members (lobby_abs l) - {cid}) \<and>
    view (cleanup h w rnd c) = (view w)(lid :=
      spec_depart (generate_chat_token rnd) cid successor (lobby_abs l)) \<and>
    hm_get (w_client_lobby_map (cleanup h w rnd c)) cid = None \<and>
    registry_inv C (cleanup h w rnd c)"
proof -
  obtain d w1 where d: "depart_locked w rnd cid lid (co_sender c) = Some (d, w1)"
  proof -
    have "depart_locked w rnd cid lid (co_sender c) \<noteq> None"
      using assms(4-6) by (simp add: depart_locked_def is_some_and_def Let_def)
    then show thesis using that by auto
  qed
  have same: "same_registry w1 (cleanup h w rnd c)" by (rule cleanup_registry [OF assms(2,3) d])
  have inv: "registry_inv C (cleanup h w rnd c)" by (rule cleanup_inv [OF assms(1)])
  have "hm_get (w_client_lobby_map w) cid = Some lid"
    using assms(1,4,5) by (simp add: registry_inv_def lobby_client_Some)
  then have "hm_get (w_client_lobby_map w1) cid = None"
    unfolding depart_locked_world [OF d assms(4)] by (simp add: drop_mapping_def hm.get_del)
  then have map: "hm_get (w_client_lobby_map (cleanup h w rnd c)) cid = None"
    using same by (simp add: same_registry_def)
  have "v_members (lobby_abs l) = {cid} \<or>
      hd (hm_keys (hm_remove cid (lb_clients l))) \<in> v_members (lobby_abs l) - {cid}"
    by (rule depart_successor) (simp add: hm_contains_def assms(5))
  moreover have "view (cleanup h w rnd c) = (view w)(lid :=
      spec_depart (generate_chat_token rnd) cid (hd (hm_keys (hm_remove cid (lb_clients l)))) (lobby_abs l))"
    unfolding view_same [OF same] by (rule depart_view [OF d assms(4)]) (simp add: hm_contains_def assms(5))
  ultimately show ?thesis using map inv by blast
qed

text \<open>
  C39. The public list is sound and complete: it shows each listed lobby once and no other; a
  shown lobby has no password, its count is the number of its members (1 to 64) and its host
  name the name of the member that hosts it.
\<close>

theorem public_list_exact:
  assumes "registry_inv C w"
  shows "distinct (map pl_lobby_name (public_lobbies w)) \<and>
    set (public_lobbies w) =
      {public_lobby_info l |lid l. hm_get (w_lobbies w) lid = Some l \<and> lb_is_public l} \<and>
    (\<forall>lid l. hm_get (w_lobbies w) lid = Some l \<and> lb_is_public l \<longrightarrow>
       lb_password_hash l = hash_lobby_password C (lb_password_salt l) [] \<and>
       unat (pl_player_count (public_lobby_info l)) = hm_len (lb_clients l) \<and>
       1 \<le> hm_len (lb_clients l) \<and> hm_len (lb_clients l) \<le> 64 \<and>
       (\<exists>host. hm_get (lb_clients l) (lb_host_id l) = Some host \<and>
          pl_host_name (public_lobby_info l) = ci_player_name host))"
proof (intro conjI)
  have wf: "hm_wf (w_lobbies w)" by (rule registry_wf [OF assms])
  have name: "lid = generate_lobby_id C (lb_lobby_name l)" if "(lid, l) \<in> set (w_lobbies w)" for lid l
    using registry_lobby [OF assms] that hm_get_Some_iff [OF wf] by (simp add: lobby_inv_def)
  have "distinct (map (\<lambda>kv. generate_lobby_id C (lb_lobby_name (snd kv))) (w_lobbies w))"
  proof -
    have "map (\<lambda>kv. generate_lobby_id C (lb_lobby_name (snd kv))) (w_lobbies w) = map fst (w_lobbies w)"
      using name by (intro map_cong) auto
    then show ?thesis using wf by (simp only: hm_wf_def)
  qed
  then have "distinct (map lb_lobby_name (hm_values (w_lobbies w)))"
    unfolding hm_values_def map_map comp_def by (rule distinct_map_fun)
  then show "distinct (map pl_lobby_name (public_lobbies w))"
    by (simp add: public_lobbies_def comp_def public_lobby_info_def distinct_map_filter)
  show "set (public_lobbies w) =
      {public_lobby_info l |lid l. hm_get (w_lobbies w) lid = Some l \<and> lb_is_public l}"
    using hm_values_get [OF wf] by (auto simp: public_lobbies_def)
  have "lb_password_hash l = hash_lobby_password C (lb_password_salt l) [] \<and>
       unat (pl_player_count (public_lobby_info l)) = hm_len (lb_clients l) \<and>
       1 \<le> hm_len (lb_clients l) \<and> hm_len (lb_clients l) \<le> 64 \<and>
       (\<exists>host. hm_get (lb_clients l) (lb_host_id l) = Some host \<and>
          pl_host_name (public_lobby_info l) = ci_player_name host)"
    if "hm_get (w_lobbies w) lid = Some l" "lb_is_public l" for lid l
    using registry_lobby [OF assms that(1)] that(2)
    by (auto simp: lobby_inv_def password_inv_def public_lobby_info_def hm_contains_def config_simps
        unat_of_nat)
  then show "\<forall>lid l. hm_get (w_lobbies w) lid = Some l \<and> lb_is_public l \<longrightarrow>
       lb_password_hash l = hash_lobby_password C (lb_password_salt l) [] \<and>
       unat (pl_player_count (public_lobby_info l)) = hm_len (lb_clients l) \<and>
       1 \<le> hm_len (lb_clients l) \<and> hm_len (lb_clients l) \<le> 64 \<and>
       (\<exists>host. hm_get (lb_clients l) (lb_host_id l) = Some host \<and>
          pl_host_name (public_lobby_info l) = ci_player_name host)" by blast
qed

text \<open>
  C40. A connection has one identity: its socket, source and challenge are fixed when it is
  opened, it has no client or lobby until it registers, and once it has registered its client,
  lobby and session generation never change, whatever arrives and whatever the rest of the
  server does in between.
\<close>

theorem session_identity_fixed:
  assumes "open_connection h w rnd sender disconnect source born now = (Some c0, w0)"
    and "serve S s c0 is1 = Some (ended, c, s1)" "serve S s2 c is2 = Some (ended', c', s3)"
  shows "co_sender c' = sender \<and> co_source c' = source \<and> co_challenge c' = random_hex rnd \<and>
    (co_is_registered c \<longrightarrow>
       co_is_registered c' \<and> co_client_id c' = co_client_id c \<and> co_lobby_id c' = co_lobby_id c \<and>
       co_generation c' = co_generation c) \<and>
    (co_is_registered c' \<longleftrightarrow> co_client_id c' \<noteq> None) \<and>
    (co_is_registered c' \<longleftrightarrow> co_lobby_id c' \<noteq> None)"
proof -
  have c0: "co_sender c0 = sender" "co_source c0 = source" "co_challenge c0 = random_hex rnd" "conn_inv c0"
    using assms(1) by (auto simp: open_connection_def Let_def conn_inv_def split: prod.splits if_splits)
  from serve_session [OF assms(2)] serve_session [OF assms(3)] c0 show ?thesis
    by (auto simp: same_socket_def same_session_def conn_inv_def split: if_splits)
qed


section \<open>Concrete runs\<close>

text \<open>
  The demonstration lobby with its two members \<open>k1\<close> (socket 1) and \<open>k2\<close> (socket 2), and a reader
  of messages that knows two texts.
\<close>

definition demo_site :: site where
  "demo_site =
     \<lparr>si_host = demo_host, si_config = demo_cfg, si_codec = demo_codec, si_uni = id,
      si_parse = (\<lambda>t. if t = str ''ping'' then Inr Ping
                      else if t = str ''voice'' then Inr (VoiceReconnect (str ''k2'') (str ''k1''))
                      else Inl (str ''unknown variant''))\<rparr>"

definition demo_turn :: turn where
  "demo_turn =
     \<lparr>tu_now = 0, tu_restart = 0, tu_lock_time = 0, tu_entropy = demo_entropy, tu_rotation = [9],
      tu_submit_clock = demo_clock, tu_prober = demo_prober, tu_disk = demo_disk, tu_during = id\<rparr>"

definition demo_server :: "World \<Rightarrow> Server" where
  "demo_server w = \<lparr>sv_world = w, sv_community = demo_community\<rparr>"

definition demo_conn :: "string \<Rightarrow> nat \<Rightarrow> Conn" where
  "demo_conn cid sender =
     \<lparr>co_sender = sender, co_disconnect = sender, co_source = (V4 1, 2), co_challenge = str ''c'',
      co_client_id = Some (str cid), co_lobby_id = Some (generate_lobby_id demo_crypto (str ''L'')),
      co_generation = 1000000000000001, co_is_registered = True, co_limiter = ml_new 0\<rparr>"

lemma demo_not_v3: "si_parse demo_site raw = Inr m \<Longrightarrow> \<not> is_register_v3 m"
  by (auto simp: demo_site_def is_register_v3_def split: if_splits)

theorem routing_isolated_witness:
  "\<exists>flow c' s' log. handle_frame demo_site demo_turn (demo_server demo_two) (demo_conn ''k2'' 2)
      (Text (str ''voice'')) = Some (flow, c', s') \<and>
    w_wire (sv_world s') = w_wire demo_two @ log \<and>
    (\<forall>e \<in> set log. fst e = 2 \<or> fst e \<in> member_senders demo_two (generate_lobby_id demo_crypto (str ''L'')))"
proof -
  obtain flow c' s' where run: "handle_frame demo_site demo_turn (demo_server demo_two)
      (demo_conn ''k2'' 2) (Text (str ''voice'')) = Some (flow, c', s')"
    using handle_frame_total [of "Text (str ''voice'')" demo_site] demo_not_v3 by blast
  have "registry_inv demo_crypto (sv_world (demo_server demo_two))" "co_is_registered (demo_conn ''k2'' 2)"
    using demo_inv(2) by (simp_all add: demo_server_def demo_conn_def)
  from routing_isolated [OF this run] run show ?thesis
    by (fastforce simp: demo_server_def demo_conn_def)
qed

theorem unregistered_powerless_witness:
  "\<exists>flow c' s'. handle_frame demo_site demo_turn (demo_server demo_two)
      (demo_conn ''k2'' 2\<lparr>co_is_registered := False\<rparr>) (Text (str ''voice'')) = Some (flow, c', s') \<and>
    w_lobbies (sv_world s') = w_lobbies demo_two"
  using unregistered_powerless [of "demo_conn ''k2'' 2\<lparr>co_is_registered := False\<rparr>" "Text (str ''voice'')"
      demo_site demo_turn "demo_server demo_two"] demo_not_v3
  by (fastforce simp: demo_server_def same_registry_def)

lemma demo_k2_sender:
  "\<exists>l cl. hm_get (w_lobbies demo_two) (generate_lobby_id demo_crypto (str ''L'')) = Some l \<and>
     hm_get (lb_clients l) (str ''k2'') = Some cl \<and> ci_sender cl = 2"
proof -
  have "is_some_and (hm_get (w_lobbies demo_two) (generate_lobby_id demo_crypto (str ''L'')))
      (\<lambda>l. is_some_and (hm_get (lb_clients l) (str ''k2'')) (\<lambda>cl. ci_sender cl = 2))" by code_simp
  then show ?thesis by (auto simp: is_some_and_def split: option.splits)
qed

theorem stale_session_powerless_witness:
  "cleanup demo_host demo_two [9] (demo_conn ''k2'' 7) = demo_two"
proof -
  have "\<forall>cl. lobby_client (sv_world (demo_server demo_two)) (generate_lobby_id demo_crypto (str ''L''))
      (str ''k2'') = Some cl \<longrightarrow> ci_sender cl \<noteq> co_sender (demo_conn ''k2'' 7)"
    using demo_k2_sender by (auto simp: lobby_client_def demo_server_def demo_conn_def)
  then have "cleanup demo_host (sv_world (demo_server demo_two)) [9] (demo_conn ''k2'' 7) =
      sv_world (demo_server demo_two)"
    by (intro stale_session_powerless [THEN conjunct2]) (simp_all add: demo_conn_def)
  then show ?thesis by (simp add: demo_server_def)
qed

theorem departure_refines_spec_witness:
  "\<exists>l successor. view (cleanup demo_host demo_two [9] (demo_conn ''k2'' 2)) =
     (view demo_two)(generate_lobby_id demo_crypto (str ''L'') :=
       spec_depart (generate_chat_token [9]) (str ''k2'') successor (lobby_abs l))"
proof -
  obtain l cl where l: "hm_get (w_lobbies demo_two) (generate_lobby_id demo_crypto (str ''L'')) = Some l"
    "hm_get (lb_clients l) (str ''k2'') = Some cl" "ci_sender cl = co_sender (demo_conn ''k2'' 2)"
    using demo_k2_sender by (auto simp: demo_conn_def)
  from departure_refines_spec [OF demo_inv(2) _ _ l, of demo_host "[9]"] show ?thesis
    by (auto simp: demo_conn_def)
qed

lemma demo_listed_inv: "registry_inv demo_crypto demo_listed"
proof -
  have "is_some_and (demo_admit ''k1'' 1 [] 1 demo_empty) (\<lambda>(r, _). \<not> isl r)" by code_simp
  then have "registry_inv demo_crypto (snd (the (demo_admit ''k1'' 1 [] 1 demo_empty)))"
    using demo_admit_Some demo_admit_inv [OF demo_empty_inv] by blast
  then show ?thesis unfolding demo_listed_def by (rule handle_moderation_inv)
qed

theorem public_list_exact_witness:
  "\<exists>info. public_lobbies demo_listed = [info] \<and> distinct (map pl_lobby_name (public_lobbies demo_listed)) \<and>
     pl_lobby_name info = str ''L''"
proof -
  have "map pl_lobby_name (public_lobbies demo_listed) = [str ''L'']" by code_simp
  then obtain info where "public_lobbies demo_listed = [info]" "pl_lobby_name info = str ''L''" by auto
  then show ?thesis using public_list_exact [OF demo_listed_inv] by simp
qed

theorem session_identity_fixed_witness:
  "\<exists>c0 w0 c' s'. open_connection demo_host demo_two [5] 8 8 (V4 1, 2) 0 0 = (Some c0, w0) \<and>
     serve demo_site (demo_server demo_two) c0 [(demo_turn, StreamEnd)] = Some (True, c', s') \<and>
     co_challenge c' = random_hex [5] \<and> co_client_id c' = None"
proof -
  let ?w = "demo_two\<lparr>w_budget := (w_budget demo_two)(8 := ob_new 0),
      w_disconnect := (w_disconnect demo_two)(8 := False)\<rparr>"
  have "fst (send_json demo_host ?w 8 (ServerChallenge (random_hex [5]) True SIGNALING_PROTOCOL_VERSION))"
    by code_simp
  then obtain w0 where send: "send_json demo_host ?w 8
      (ServerChallenge (random_hex [5]) True SIGNALING_PROTOCOL_VERSION) = (True, w0)"
    by (metis prod.collapse)
  obtain c0 where o: "open_connection demo_host demo_two [5] 8 8 (V4 1, 2) 0 0 = (Some c0, w0)"
    "\<not> co_is_registered c0"
    by (simp add: open_connection_def send)
  have a: "serve demo_site (demo_server demo_two) c0 [] = Some (False, c0, demo_server demo_two)" by simp
  have b: "serve demo_site (demo_server demo_two) c0 [(demo_turn, StreamEnd)] = Some (True, c0, demo_server demo_two)"
    by (simp add: handle_incoming_def)
  from session_identity_fixed [OF o(1) a b] o b show ?thesis by auto
qed

end
