(* ===== verification/Server.thy ===== *)
theory Server
  imports Connection
begin

text \<open>
  The server as a whole: the shared state, the admission limits, the handshakes in progress and
  the connections that are being served, with the operations of a connection's life from accept
  (\<open>main\<close> of \<open>src/src/main.rs\<close>) over upgrade and service to its end (\<open>src/src/connection.rs\<close>).

  \<open>admission_inv\<close> ties the two pools of leases to the tasks that hold them; no operation panics
  on a lease counter. The steps of all tasks together are in the next theory.
\<close>

section \<open>State\<close>

text \<open>
  A task per connection: while the WebSocket upgrade runs it holds a pending lease; then it
  serves the connection and holds an active lease until its cleanup has run. Within a turn a
  registration that was admitted has a session before the connection records it (\<open>Enrolling\<close>); a
  loop that has ended is \<open>Closing\<close>, and \<open>Departed\<close> once its member is taken out.
\<close>

datatype Phase = Running | Enrolling RegisteredSession | Closing | Departed

record Task =
  tk_conn :: Conn
  tk_lease :: Lease
  tk_phase :: Phase

text \<open>
  A handshake between its request and the loop: \<open>Classified\<close> when the callback has charged the
  pending lease to the source, \<open>Admitted\<close> with an active lease too, \<open>Failed\<close> when it only gives
  back what it holds (with the reason of a refusal; none after a time-out or a broken transport).
\<close>

datatype HandshakePhase = Classified | Admitted | Failed "guard_error option"

record Handshake =
  hs_phase :: HandshakePhase
  hs_pending :: "Lease option"
  hs_active :: "Lease option"
  hs_source :: socket_addr

text \<open>\<open>sy_pending\<close> are the connections whose request has not arrived.\<close>

record System =
  sy_server :: Server
  sy_admission :: Admission
  sy_pending :: "(Lease \<times> socket_addr) list"
  sy_handshakes :: "Handshake list"
  sy_tasks :: "Task list"

text \<open>The admission limits of the process; \<open>None\<close> is the panic on an address that does not parse.\<close>

definition admission :: "ServerConfig \<Rightarrow> Admission option" where
  "admission cfg =
     admission_new (max_connections cfg) (max_connections_per_source cfg) (cfg_trusted_proxies cfg)"

text \<open>The shared state \<open>main\<close> creates before it listens.\<close>

definition start_server :: "site \<Rightarrow> (rstr, rstr) hashmap \<Rightarrow> u64 \<Rightarrow> Server" where
  "start_server S files now =
     \<lparr>sv_world =
        \<lparr>w_lobbies = [], w_client_lobby_map = [], w_failures = no_failures,
         w_budget = (\<lambda>_. ob_new 0), w_disconnect = (\<lambda>_. False), w_wire = [], w_sends = 0\<rparr>,
      sv_community =
        \<lparr>cm_nodes = load_community_nodes_from_disk (si_codec S) (si_uni S) files
                      (community_nodes_file (si_config S)) now,
         cm_cooldowns = [], cm_quotas = [], cm_files = files, cm_generation = 0\<rparr>\<rparr>"

definition start_system :: "site \<Rightarrow> (rstr, rstr) hashmap \<Rightarrow> u64 \<Rightarrow> System option" where
  "start_system S files now =
     map_option (\<lambda>a. \<lparr>sy_server = start_server S files now, sy_admission = a, sy_pending = [],
                      sy_handshakes = [], sy_tasks = []\<rparr>) (admission (si_config S))"

section \<open>The life of a connection\<close>

definition without :: "nat \<Rightarrow> 'a list \<Rightarrow> 'a list" where
  "without k xs = take k xs @ drop (Suc k) xs"

text \<open>The accept loop: an address over its pending limit is dropped at once.\<close>

definition accept_connection :: "socket_addr \<Rightarrow> System \<Rightarrow> System" where
  "accept_connection addr y =
     (case admission_pending (sy_admission y) (fst addr) of
        Inl reason \<Rightarrow> y
      | Inr (lease, a) \<Rightarrow>
          y\<lparr>sy_admission := a, sy_pending := sy_pending y @ [(lease, addr)]\<rparr>)"

definition drop_pending :: "Lease option \<Rightarrow> Admission \<Rightarrow> Admission option" where
  "drop_pending pending a =
     (case pending of
        None \<Rightarrow> Some a
      | Some lease \<Rightarrow> map_option (\<lambda>p. a\<lparr>pending_pool := p\<rparr>) (lease_drop (pending_pool a) lease))"

definition drop_active :: "Lease \<Rightarrow> Admission \<Rightarrow> Admission option" where
  "drop_active lease a = map_option (\<lambda>p. a\<lparr>active_pool := p\<rparr>) (lease_drop (active_pool a) lease)"

text \<open>
  The WebSocket upgrade of the \<open>k\<close>-th pending connection. \<open>request\<close> is \<open>None\<close> when no request
  arrives in time or it is malformed; otherwise it carries the headers and whether the response
  could be written. \<open>None\<close> as a result is a panic of a lease counter.
\<close>

definition upgrade_connection ::
  "host \<Rightarrow> nat \<Rightarrow> (header_map \<times> bool) option \<Rightarrow> bytes \<Rightarrow> nat \<Rightarrow> nat \<Rightarrow> instant \<Rightarrow> instant \<Rightarrow> System \<Rightarrow>
   System option" where
  "upgrade_connection h k request rnd sender disconnect born now y =
     (let (lease, addr) = sy_pending y ! k;
          y0 = y\<lparr>sy_pending := without k (sy_pending y)\<rparr>
      in case request of
           None \<Rightarrow> map_option (\<lambda>a. y0\<lparr>sy_admission := a\<rparr>) (drop_pending (Some lease) (sy_admission y))
         | Some (headers, written) \<Rightarrow>
             Option.bind (handshake (sy_admission y) (Some lease) (fst addr) headers)
               (\<lambda>(r, pending, a). Option.bind (drop_pending pending a)
                 (\<lambda>a1. case r of
                    Inl reason \<Rightarrow> Some (y0\<lparr>sy_admission := a1\<rparr>)
                  | Inr (ip, active) \<Rightarrow>
                      if \<not> written then map_option (\<lambda>a2. y0\<lparr>sy_admission := a2\<rparr>) (drop_active active a1)
                      else
                        let (c, w) = open_connection h (sv_world (sy_server y)) rnd sender disconnect
                              (ip, snd addr) born now;
                            y1 = y0\<lparr>sy_server := (sy_server y)\<lparr>sv_world := w\<rparr>\<rparr>
                        in case c of
                             None \<Rightarrow> map_option (\<lambda>a2. y1\<lparr>sy_admission := a2\<rparr>) (drop_active active a1)
                           | Some c \<Rightarrow>
                               Some (y1\<lparr>sy_admission := a1,
                                        sy_tasks := sy_tasks y @
                                          [\<lparr>tk_conn = c, tk_lease = active, tk_phase = Running\<rparr>]\<rparr>))))"

text \<open>
  The pieces of an upgrade, each under one lock of the pools. The callback determines the source
  and charges the pending lease to it (\<open>classify\<close>), then takes an active lease (\<open>acquire_slot\<close>).
  A handshake that has failed gives back its pending lease, then its active one.
\<close>

definition classify ::
  "Admission \<Rightarrow> Lease \<Rightarrow> socket_addr \<Rightarrow> header_map \<Rightarrow> (Handshake \<times> Admission) option" where
  "classify a lease addr headers =
     (case admission_source a (fst addr) headers of
        Inl reason \<Rightarrow>
          Some (\<lparr>hs_phase = Failed (Some reason), hs_pending = Some lease, hs_active = None,
                 hs_source = addr\<rparr>, a)
      | Inr ip \<Rightarrow>
          map_option (\<lambda>r. case r of
              Inl reason \<Rightarrow>
                (\<lparr>hs_phase = Failed (Some reason), hs_pending = Some lease, hs_active = None,
                  hs_source = (ip, snd addr)\<rparr>, a)
            | Inr (lease', p) \<Rightarrow>
                (\<lparr>hs_phase = Classified, hs_pending = Some lease', hs_active = None,
                  hs_source = (ip, snd addr)\<rparr>, a\<lparr>pending_pool := p\<rparr>))
            (resolve_source (pending_pool a) lease ip))"

definition acquire_slot :: "Handshake \<Rightarrow> Admission \<Rightarrow> Handshake \<times> Admission" where
  "acquire_slot hs a =
     (case admission_active a (fst (hs_source hs)) of
        Inl reason \<Rightarrow> (hs\<lparr>hs_phase := Failed (Some reason)\<rparr>, a)
      | Inr (lease, a') \<Rightarrow> (hs\<lparr>hs_phase := Admitted, hs_active := Some lease\<rparr>, a'))"

definition handshake_callback ::
  "Admission \<Rightarrow> Lease \<Rightarrow> socket_addr \<Rightarrow> header_map \<Rightarrow> (Handshake \<times> Admission) option" where
  "handshake_callback a lease addr headers =
     map_option (\<lambda>(hs, a1). if hs_phase hs = Classified then acquire_slot hs a1 else (hs, a1))
       (classify a lease addr headers)"

definition drop_slot :: "Lease option \<Rightarrow> Admission \<Rightarrow> Admission option" where
  "drop_slot active a = (case active of None \<Rightarrow> Some a | Some lease \<Rightarrow> drop_active lease a)"

text \<open>A handshake given up before its request has arrived.\<close>

definition given_up :: "Lease \<Rightarrow> socket_addr \<Rightarrow> Handshake" where
  "given_up lease addr =
     \<lparr>hs_phase = Failed None, hs_pending = Some lease, hs_active = None, hs_source = addr\<rparr>"

text \<open>One turn of the loop of the \<open>k\<close>-th task, and its end: the cleanup, then the active lease.\<close>

definition serve_turn :: "site \<Rightarrow> turn \<Rightarrow> Incoming \<Rightarrow> nat \<Rightarrow> System \<Rightarrow> System option" where
  "serve_turn S T i k y =
     map_option (\<lambda>(flow, c, s).
         y\<lparr>sy_server := s,
           sy_tasks := (sy_tasks y)[k := (sy_tasks y ! k)\<lparr>tk_conn := c, tk_phase := if flow = Break then Closing else Running\<rparr>]\<rparr>)
       (handle_incoming S T (sy_server y) (tk_conn (sy_tasks y ! k)) i)"

definition finish_connection :: "host \<Rightarrow> bytes \<Rightarrow> nat \<Rightarrow> System \<Rightarrow> System option" where
  "finish_connection h rnd k y =
     (let t = sy_tasks y ! k
      in map_option (\<lambda>a.
           y\<lparr>sy_server := (sy_server y)\<lparr>sv_world := cleanup h (sv_world (sy_server y)) rnd (tk_conn t)\<rparr>,
             sy_admission := a, sy_tasks := without k (sy_tasks y)\<rparr>)
         (drop_active (tk_lease t) (sy_admission y)))"

text \<open>One tick of the sweeper's timer (\<open>spawn_community_node_sweeper\<close>).\<close>

definition sweeper_tick ::
  "site \<Rightarrow> disk \<Rightarrow> (rstr \<Rightarrow> prober) \<Rightarrow> (Community \<Rightarrow> Community) \<Rightarrow> u64 \<Rightarrow> System \<Rightarrow> System" where
  "sweeper_tick S D P during now y =
     (let m = sv_community (sy_server y)
      in if hm_len (cm_nodes m) = 0 then y
         else y\<lparr>sy_server := (sy_server y)\<lparr>sv_community :=
                snd (sweep_community_nodes_with_limiter (si_codec S) (si_uni S) (si_config S) D P
                  during now m)\<rparr>\<rparr>)"

section \<open>The pools behind the tasks\<close>

lemma mset_without: "k < length xs \<Longrightarrow> mset (without k xs) = mset xs - {#xs ! k#}"
  using arg_cong [OF id_take_nth_drop [of k xs], of mset] by (simp add: without_def)

lemma without_simps:
  "map f (without k xs) = without k (map f xs)" "set (without k xs) \<subseteq> set xs"
  by (auto simp: without_def take_map drop_map dest: in_set_takeD in_set_dropD)

lemma pool_inv_mset:
  assumes "mset h = mset h'"
  shows "pool_inv p h = pool_inv p h'"
proof -
  have "held_count h ip = held_count h' ip" for ip
    using assms unfolding held_count_def by (metis mset_filter size_mset)
  then show ?thesis using assms mset_eq_length [OF assms] by (simp add: pool_inv_def)
qed

lemma drop_held:
  assumes "pool_inv p h" "mset h = add_mset l (mset h')"
  shows "\<exists>p'. lease_drop p l = Some p' \<and> pool_inv p' h'"
proof -
  have "l \<in># mset h" using assms(2) by simp
  then have "l \<in> set h" by simp
  moreover have "mset (remove1 l h) = mset h'" using assms(2) by simp
  ultimately show ?thesis using drop_total [OF assms(1)] pool_inv_mset by blast
qed

lemma resolve_held:
  assumes "pool_inv p h" "mset h = add_mset l (mset h')"
  shows "\<exists>r. resolve_source p l src = Some r \<and> (\<forall>l' p'. r = Inr (l', p') \<longrightarrow> pool_inv p' (l' # h'))"
proof -
  have "l \<in># mset h" using assms(2) by simp
  then have "l \<in> set h" by simp
  moreover have "mset (l' # remove1 l h) = mset (l' # h')" for l' using assms(2) by simp
  ultimately show ?thesis using resolve_total [OF assms(1)] pool_inv_mset by metis
qed

lemma without_update [simp]: "without k (xs[k := x]) = without k xs"
  by (simp add: without_def)

text \<open>The configured limits, and the source an active lease is charged to.\<close>

definition same_limits :: "Admission \<Rightarrow> Admission \<Rightarrow> bool" where
  "same_limits a a' \<longleftrightarrow>
     pool_limit (pending_pool a') = pool_limit (pending_pool a) \<and>
     pool_limit (active_pool a') = pool_limit (active_pool a) \<and>
     pool_source_limit (active_pool a') = pool_source_limit (active_pool a)"

definition charged :: "Admission \<Rightarrow> Lease \<Rightarrow> ip_addr \<Rightarrow> bool" where
  "charged a lease ip \<longleftrightarrow>
     (pool_source_limit (active_pool a) \<noteq> None \<longrightarrow> lease_source lease = Some (quota_source ip))"

lemma pool_limits:
  "acquire p src = Inr (l, p') \<Longrightarrow> pool_limit p' = pool_limit p \<and> pool_source_limit p' = pool_source_limit p"
  "lease_drop p l = Some p' \<Longrightarrow> pool_limit p' = pool_limit p \<and> pool_source_limit p' = pool_source_limit p"
  "resolve_source p l ip = Some (Inr (l', p')) \<Longrightarrow>
   pool_limit p' = pool_limit p \<and> pool_source_limit p' = pool_source_limit p"
  by (auto simp: acquire_def lease_drop_def resolve_source_def Let_def
      split: if_splits option.splits)

lemma acquire_charged:
  "acquire p (Some ip) = Inr (l, p') \<Longrightarrow> pool_source_limit p \<noteq> None \<Longrightarrow> lease_source l = Some ip"
  by (auto simp: acquire_def split: if_splits)

text \<open>The leases that handshakes hold; a handshake that is admitted holds an active one.\<close>

definition opt_list :: "'a option \<Rightarrow> 'a list" where
  "opt_list x = (case x of None \<Rightarrow> [] | Some l \<Rightarrow> [l])"

definition held_by :: "('a \<Rightarrow> 'b option) \<Rightarrow> 'a list \<Rightarrow> 'b list" where
  "held_by f xs = List.map_filter f xs"

definition handshake_inv :: "Admission \<Rightarrow> Handshake \<Rightarrow> bool" where
  "handshake_inv a0 hs \<longleftrightarrow>
     (hs_phase hs = Classified \<longrightarrow> hs_active hs = None) \<and>
     (hs_phase hs = Admitted \<longrightarrow> hs_active hs \<noteq> None) \<and>
     (\<forall>lease. hs_active hs = Some lease \<longrightarrow> charged a0 lease (fst (hs_source hs)))"

definition admission_inv :: "Admission \<Rightarrow> System \<Rightarrow> bool" where
  "admission_inv a0 y \<longleftrightarrow>
     pool_inv (pending_pool (sy_admission y))
       (map fst (sy_pending y) @ held_by hs_pending (sy_handshakes y)) \<and>
     pool_inv (active_pool (sy_admission y))
       (map tk_lease (sy_tasks y) @ held_by hs_active (sy_handshakes y)) \<and>
     same_limits a0 (sy_admission y) \<and>
     (\<forall>t \<in> set (sy_tasks y). charged a0 (tk_lease t) (fst (co_source (tk_conn t)))) \<and>
     (\<forall>hs \<in> set (sy_handshakes y). handshake_inv a0 hs)"

lemma held_by_simps [simp]:
  "held_by f [] = []" "held_by f (x # xs) = opt_list (f x) @ held_by f xs"
  "held_by f (xs @ ys) = held_by f xs @ held_by f ys"
  by (simp_all add: held_by_def opt_list_def List.map_filter_def split: option.split)

lemma opt_list_simps [simp]: "opt_list None = []" "opt_list (Some l) = [l]"
  by (simp_all add: opt_list_def)

lemma split_at: "k < length xs \<Longrightarrow> xs = take k xs @ xs ! k # drop (Suc k) xs"
  by (rule id_take_nth_drop)

lemma mset_held_by:
  assumes "k < length xs"
  shows "mset (held_by f xs) = mset (opt_list (f (xs ! k))) + mset (held_by f (without k xs))"
    "mset (held_by f (xs[k := x])) = mset (opt_list (f x)) + mset (held_by f (without k xs))"
proof -
  have "mset (held_by f (xs[k := x])) = mset (opt_list (f x)) + mset (held_by f (without k xs))"
    if "k < length xs" for xs x
    using that arg_cong [OF upd_conv_take_nth_drop [OF that, of x], of "held_by f"]
    by (simp add: without_def split: option.split)
  from this [OF assms, of x] this [OF assms, of "xs ! k"]
  show "mset (held_by f xs) = mset (opt_list (f (xs ! k))) + mset (held_by f (without k xs))"
    "mset (held_by f (xs[k := x])) = mset (opt_list (f x)) + mset (held_by f (without k xs))"
    by simp_all
qed

lemma mset_map_without:
  "k < length xs \<Longrightarrow> mset (map f xs) = add_mset (f (xs ! k)) (mset (map f (without k xs)))"
  using arg_cong [OF split_at [of k xs], of "\<lambda>xs. mset (map f xs)"] by (simp add: without_def)

lemma same_limits_refl [simp]: "same_limits a a"
  by (simp add: same_limits_def)

lemma same_limits_trans: "same_limits a b \<Longrightarrow> same_limits b c \<Longrightarrow> same_limits a c"
  by (simp add: same_limits_def)

lemma same_limits_charged: "same_limits a b \<Longrightarrow> charged b l ip = charged a l ip"
  by (simp add: same_limits_def charged_def)

lemma drop_pending_inv:
  assumes "pool_inv (pending_pool a) h" "mset h = mset (opt_list pending) + mset h'"
  shows "\<exists>a'. drop_pending pending a = Some a' \<and> pool_inv (pending_pool a') h' \<and>
    active_pool a' = active_pool a \<and> same_limits a a'"
proof (cases pending)
  case None
  with assms pool_inv_mset [of h h'] show ?thesis by (simp add: drop_pending_def)
next
  case (Some l)
  with assms(2) have "mset h = add_mset l (mset h')" by simp
  from drop_held [OF assms(1) this] Some pool_limits(2) show ?thesis
    by (fastforce simp: drop_pending_def same_limits_def)
qed

lemma drop_slot_inv:
  assumes "pool_inv (active_pool a) h" "mset h = mset (opt_list active) + mset h'"
  shows "\<exists>a'. drop_slot active a = Some a' \<and> pool_inv (active_pool a') h' \<and>
    pending_pool a' = pending_pool a \<and> same_limits a a'"
proof (cases active)
  case None
  with assms pool_inv_mset [of h h'] show ?thesis by (simp add: drop_slot_def)
next
  case (Some l)
  with assms(2) have "mset h = add_mset l (mset h')" by simp
  from drop_held [OF assms(1) this] Some pool_limits(2) show ?thesis
    by (fastforce simp: drop_slot_def drop_active_def same_limits_def)
qed

lemma classify_inv:
  assumes "pool_inv (pending_pool a) h" "mset h = add_mset lease (mset h')"
  shows "\<exists>hs a'. classify a lease addr headers = Some (hs, a') \<and>
    pool_inv (pending_pool a') (opt_list (hs_pending hs) @ h') \<and> active_pool a' = active_pool a \<and>
    same_limits a a' \<and> hs_phase hs \<noteq> Admitted \<and> hs_active hs = None"
proof (cases "admission_source a (fst addr) headers")
  case (Inl reason)
  with pool_inv_mset [of h "lease # h'"] assms show ?thesis by (simp add: classify_def)
next
  case (Inr ip)
  have h: "pool_inv (pending_pool a) (lease # h')" using pool_inv_mset [of h "lease # h'"] assms by simp
  obtain r where r: "resolve_source (pending_pool a) lease ip = Some r"
    "\<forall>l' p'. r = Inr (l', p') \<longrightarrow> pool_inv p' (l' # h')"
    using resolve_held [OF assms] by blast
  show ?thesis
  proof (cases r)
    case (Inl reason)
    with \<open>admission_source _ _ _ = Inr ip\<close> h r(1) show ?thesis by (simp add: classify_def)
  next
    case (Inr lp)
    then obtain l p where lp: "r = Inr (l, p)" by (cases lp) auto
    with \<open>admission_source _ _ _ = Inr ip\<close> r pool_limits(3) [OF r(1) [unfolded lp]] show ?thesis
      by (simp add: classify_def same_limits_def)
  qed
qed

lemma acquire_slot_inv:
  assumes "pool_inv (active_pool a) g" "hs_active hs = None" "acquire_slot hs a = (hs', a')"
  shows "pool_inv (active_pool a') (opt_list (hs_active hs') @ g)" "pending_pool a' = pending_pool a"
    "same_limits a a'" "hs_pending hs' = hs_pending hs" "hs_source hs' = hs_source hs" "handshake_inv a hs'"
    "hs_phase hs' \<noteq> Classified"
proof -
  have "pool_inv (active_pool a') (opt_list (hs_active hs') @ g) \<and> pending_pool a' = pending_pool a \<and>
    same_limits a a' \<and> hs_pending hs' = hs_pending hs \<and> hs_source hs' = hs_source hs \<and>
    handshake_inv a hs' \<and> hs_phase hs' \<noteq> Classified"
  proof (cases "acquire (active_pool a) (Some (quota_source (fst (hs_source hs))))")
    case (Inl reason)
    then have "hs' = hs\<lparr>hs_phase := Failed (Some reason)\<rparr>" "a' = a"
      using assms(3) by (simp_all add: acquire_slot_def admission_active_def)
    with assms show ?thesis by (simp add: handshake_inv_def)
  next
    case (Inr lp)
    then obtain lease p where lp: "acquire (active_pool a) (Some (quota_source (fst (hs_source hs)))) = Inr (lease, p)"
      by (cases lp) auto
    then have "hs' = hs\<lparr>hs_phase := Admitted, hs_active := Some lease\<rparr>" "a' = a\<lparr>active_pool := p\<rparr>"
      using assms(3) by (simp_all add: acquire_slot_def admission_active_def)
    with acquire_inv [OF assms(1) lp] pool_limits(1) [OF lp] acquire_charged [OF lp] show ?thesis
      by (auto simp: handshake_inv_def charged_def same_limits_def)
  qed
  then show "pool_inv (active_pool a') (opt_list (hs_active hs') @ g)" "pending_pool a' = pending_pool a"
    "same_limits a a'" "hs_pending hs' = hs_pending hs" "hs_source hs' = hs_source hs" "handshake_inv a hs'"
    "hs_phase hs' \<noteq> Classified" by simp_all
qed

lemma callback_inv:
  assumes "pool_inv (pending_pool a) h" "mset h = add_mset lease (mset h')" "pool_inv (active_pool a) g"
  shows "\<exists>hs a'. handshake_callback a lease addr headers = Some (hs, a') \<and>
    pool_inv (pending_pool a') (opt_list (hs_pending hs) @ h') \<and>
    pool_inv (active_pool a') (opt_list (hs_active hs) @ g) \<and> same_limits a a' \<and>
    handshake_inv a hs \<and> hs_phase hs \<noteq> Classified"
proof -
  obtain hs a1 where c: "classify a lease addr headers = Some (hs, a1)"
    "pool_inv (pending_pool a1) (opt_list (hs_pending hs) @ h')" "active_pool a1 = active_pool a"
    "same_limits a a1" "hs_phase hs \<noteq> Admitted" "hs_active hs = None"
    using classify_inv [OF assms(1,2), of addr headers] by blast
  show ?thesis
  proof (cases "hs_phase hs = Classified")
    case True
    obtain hs' a' where acq: "acquire_slot hs a1 = (hs', a')" by fastforce
    note inv = acquire_slot_inv [OF assms(3) [folded c(3)] c(6) acq]
    have "handshake_inv a hs'" using inv(6) same_limits_charged [OF c(4)] by (simp add: handshake_inv_def)
    moreover have "same_limits a a'" by (rule same_limits_trans [OF c(4) inv(3)])
    ultimately show ?thesis using inv c(1,2) True acq by (simp add: handshake_callback_def)
  next
    case False
    with c assms(3) show ?thesis by (auto simp: handshake_callback_def handshake_inv_def)
  qed
qed

text \<open>The whole callback is its pieces.\<close>

lemma handshake_pieces:
  "handshake a (Some lease) (fst addr) headers =
     map_option (\<lambda>(hs, a').
         (case hs_phase hs of
            Failed reason \<Rightarrow> Inl (the reason)
          | _ \<Rightarrow> Inr (fst (hs_source hs), the (hs_active hs)), hs_pending hs, a'))
       (handshake_callback a lease addr headers)"
proof (cases "admission_source a (fst addr) headers")
  case (Inr ip)
  show ?thesis
  proof (cases "resolve_source (pending_pool a) lease ip")
    case (Some r)
    with Inr show ?thesis
      by (cases r) (auto simp: handshake_def handshake_callback_def classify_def acquire_slot_def
          admission_active_def split: sum.splits)
  qed (simp add: handshake_def handshake_callback_def classify_def Inr)
qed (simp add: handshake_def handshake_callback_def classify_def)

lemma accept_admission:
  assumes "admission_inv a0 y"
  shows "admission_inv a0 (accept_connection addr y)"
proof (cases "admission_pending (sy_admission y) (fst addr)")
  case (Inr la)
  let ?h = "map fst (sy_pending y) @ held_by hs_pending (sy_handshakes y)"
  obtain lease p src where acq: "acquire (pending_pool (sy_admission y)) src = Inr (lease, p)"
    "la = (lease, (sy_admission y)\<lparr>pending_pool := p\<rparr>)"
    using Inr by (auto simp: admission_pending_def Let_def split: sum.splits)
  have "pool_inv p (lease # ?h)" using assms acquire_inv [OF _ acq(1)] by (simp add: admission_inv_def)
  then have "pool_inv p (map fst (sy_pending y @ [(lease, addr)]) @ held_by hs_pending (sy_handshakes y))"
    using pool_inv_mset [of "lease # ?h" "map fst (sy_pending y @ [(lease, addr)]) @ held_by hs_pending (sy_handshakes y)"]
    by simp
  with assms Inr acq pool_limits(1) [OF acq(1)] show ?thesis
    by (simp add: accept_connection_def admission_inv_def same_limits_def)
qed (use assms in \<open>simp add: accept_connection_def\<close>)

text \<open>No upgrade and no end of a connection panics on a lease counter.\<close>

lemma upgrade_total:
  assumes "admission_inv a0 y" "k < length (sy_pending y)"
  shows "upgrade_connection h k request rnd sender disconnect born now y \<noteq> None"
proof -
  let ?a = "sy_admission y" and ?h = "map fst (sy_pending y) @ held_by hs_pending (sy_handshakes y)"
  let ?h' = "map fst (without k (sy_pending y)) @ held_by hs_pending (sy_handshakes y)"
  obtain lease addr where k: "sy_pending y ! k = (lease, addr)" by (rule prod.exhaust)
  have inv: "pool_inv (pending_pool ?a) ?h" "mset ?h = add_mset lease (mset ?h')"
    "pool_inv (active_pool ?a) (map tk_lease (sy_tasks y) @ held_by hs_active (sy_handshakes y))"
    using assms mset_map_without [OF assms(2), of fst] k by (simp_all add: admission_inv_def)
  show ?thesis
  proof (cases request)
    case None
    have "mset ?h = mset (opt_list (Some lease)) + mset ?h'" using inv(2) by simp
    from drop_pending_inv [OF inv(1) this] None k show ?thesis
      by (auto simp: upgrade_connection_def)
  next
    case (Some rq)
    then obtain headers written where rq: "request = Some (headers, written)" by (cases rq) auto
    obtain hs a where cb: "handshake_callback ?a lease addr headers = Some (hs, a)"
      "pool_inv (pending_pool a) (opt_list (hs_pending hs) @ ?h')"
      "pool_inv (active_pool a) (opt_list (hs_active hs) @ map tk_lease (sy_tasks y) @ held_by hs_active (sy_handshakes y))"
      "handshake_inv ?a hs" "hs_phase hs \<noteq> Classified"
      using callback_inv [OF inv, of addr headers] by blast
    obtain a1 where a1: "drop_pending (hs_pending hs) a = Some a1" "active_pool a1 = active_pool a"
      using drop_pending_inv [OF cb(2), of "hs_pending hs" ?h'] by auto
    have "drop_slot (hs_active hs) a1 \<noteq> None"
      using drop_slot_inv [OF cb(3) [folded a1(2)], of "hs_active hs"
          "map tk_lease (sy_tasks y) @ held_by hs_active (sy_handshakes y)"] by auto
    then have "hs_phase hs = Admitted \<Longrightarrow> drop_active (the (hs_active hs)) a1 \<noteq> None"
      using cb(4) by (auto simp: handshake_inv_def drop_slot_def)
    then show ?thesis
      using rq k cb(1,5) a1(1) handshake_pieces [of ?a lease addr headers]
      by (cases "hs_phase hs") (auto simp: upgrade_connection_def Let_def split: prod.splits option.splits)
  qed
qed

lemma finish_admission:
  assumes "admission_inv a0 y" "k < length (sy_tasks y)"
  shows "\<exists>y'. finish_connection h rnd k y = Some y' \<and> admission_inv a0 y'"
proof -
  let ?g = "\<lambda>ts. map tk_lease ts @ held_by hs_active (sy_handshakes y)"
  obtain a where "drop_slot (Some (tk_lease (sy_tasks y ! k))) (sy_admission y) = Some a"
    "pool_inv (active_pool a) (?g (without k (sy_tasks y)))"
    "pending_pool a = pending_pool (sy_admission y)" "same_limits (sy_admission y) a"
    using drop_slot_inv [of "sy_admission y" "?g (sy_tasks y)" "Some (tk_lease (sy_tasks y ! k))"
        "?g (without k (sy_tasks y))"] assms mset_map_without [OF assms(2), of tk_lease]
    by (auto simp: admission_inv_def)
  with assms without_simps(2) [of k "sy_tasks y"] show ?thesis
    by (auto simp: finish_connection_def admission_inv_def Let_def drop_slot_def intro: same_limits_trans)
qed

lemma open_connection_source:
  "open_connection h w rnd sender disconnect source born now = (Some c, w') \<Longrightarrow> co_source c = source"
  by (auto simp: open_connection_def Let_def split: prod.splits if_splits)

subsection \<open>Steps of a single handshake\<close>

lemma admission_inv_handshake:
  assumes "admission_inv a0 y" "k < length (sy_handshakes y)" "same_limits (sy_admission y) a" "handshake_inv a0 hs"
    and "pool_inv (pending_pool a)
      (opt_list (hs_pending hs) @ map fst (sy_pending y) @ held_by hs_pending (without k (sy_handshakes y)))"
    and "pool_inv (active_pool a)
      (opt_list (hs_active hs) @ map tk_lease (sy_tasks y) @ held_by hs_active (without k (sy_handshakes y)))"
  shows "admission_inv a0 (y\<lparr>sy_admission := a, sy_handshakes := (sy_handshakes y)[k := hs]\<rparr>)"
proof -
  let ?hs = "(sy_handshakes y)[k := hs]"
  note m = mset_held_by(2) [OF assms(2)]
  have "pool_inv (pending_pool a) (map fst (sy_pending y) @ held_by hs_pending ?hs)"
    using assms(5) by (rule pool_inv_mset [THEN iffD1, rotated]) (simp add: m)
  moreover have "pool_inv (active_pool a) (map tk_lease (sy_tasks y) @ held_by hs_active ?hs)"
    using assms(6) by (rule pool_inv_mset [THEN iffD1, rotated]) (simp add: m)
  moreover have "\<forall>x \<in> set ?hs. handshake_inv a0 x"
    using assms(1,4) by (auto simp: admission_inv_def dest!: set_update_subset_insert [THEN subsetD])
  ultimately show ?thesis
    using assms(1,3) same_limits_trans by (auto simp: admission_inv_def)
qed

text \<open>The two pools with the leases of the \<open>k\<close>-th handshake in front.\<close>

lemma handshake_leases:
  assumes "admission_inv a0 y" "k < length (sy_handshakes y)"
  defines "hs \<equiv> sy_handshakes y ! k"
  shows "pool_inv (pending_pool (sy_admission y))
      (opt_list (hs_pending hs) @ map fst (sy_pending y) @ held_by hs_pending (without k (sy_handshakes y)))"
    "pool_inv (active_pool (sy_admission y))
      (opt_list (hs_active hs) @ map tk_lease (sy_tasks y) @ held_by hs_active (without k (sy_handshakes y)))"
    "same_limits a0 (sy_admission y)" "handshake_inv a0 hs"
proof -
  note m = mset_held_by(1) [OF assms(2)]
  have inv: "pool_inv (pending_pool (sy_admission y)) (map fst (sy_pending y) @ held_by hs_pending (sy_handshakes y))"
    "pool_inv (active_pool (sy_admission y)) (map tk_lease (sy_tasks y) @ held_by hs_active (sy_handshakes y))"
    using assms(1) by (simp_all add: admission_inv_def)
  show "pool_inv (pending_pool (sy_admission y))
      (opt_list (hs_pending hs) @ map fst (sy_pending y) @ held_by hs_pending (without k (sy_handshakes y)))"
    using inv(1) by (rule pool_inv_mset [THEN iffD1, rotated]) (simp add: m hs_def)
  show "pool_inv (active_pool (sy_admission y))
      (opt_list (hs_active hs) @ map tk_lease (sy_tasks y) @ held_by hs_active (without k (sy_handshakes y)))"
    using inv(2) by (rule pool_inv_mset [THEN iffD1, rotated]) (simp add: m hs_def)
  show "same_limits a0 (sy_admission y)" "handshake_inv a0 hs"
    using assms(1,2) by (simp_all add: admission_inv_def hs_def)
qed

lemma admission_inv_acquire:
  assumes "admission_inv a0 y" "k < length (sy_handshakes y)" "hs_phase (sy_handshakes y ! k) = Classified"
    and "acquire_slot (sy_handshakes y ! k) (sy_admission y) = (hs, a)"
  shows "admission_inv a0 (y\<lparr>sy_admission := a, sy_handshakes := (sy_handshakes y)[k := hs]\<rparr>)"
proof -
  note l = handshake_leases [OF assms(1,2)]
  have none: "hs_active (sy_handshakes y ! k) = None" using l(4) assms(3) by (simp add: handshake_inv_def)
  note acq = acquire_slot_inv [OF _ none assms(4)]
  have g: "pool_inv (active_pool (sy_admission y))
      (map tk_lease (sy_tasks y) @ held_by hs_active (without k (sy_handshakes y)))"
    using l(2) none by simp
  have "handshake_inv a0 hs"
    using acq(6) [OF g] same_limits_charged [OF l(3)] by (simp add: handshake_inv_def)
  then show ?thesis
    using admission_inv_handshake [OF assms(1,2) acq(3) [OF g]] acq(1,2,4) [OF g] l(1) by simp
qed

lemma admission_inv_give_up:
  assumes "admission_inv a0 y" "k < length (sy_handshakes y)"
  shows "admission_inv a0 (y\<lparr>sy_handshakes := (sy_handshakes y)[k := (sy_handshakes y ! k)\<lparr>hs_phase := Failed r\<rparr>]\<rparr>)"
  using admission_inv_handshake [OF assms same_limits_refl, of "(sy_handshakes y ! k)\<lparr>hs_phase := Failed r\<rparr>"]
    handshake_leases [OF assms] by (simp add: handshake_inv_def)

lemma admission_inv_drop_pending:
  assumes "admission_inv a0 y" "k < length (sy_handshakes y)"
    and "drop_pending (hs_pending (sy_handshakes y ! k)) (sy_admission y) = Some a"
  shows "admission_inv a0 (y\<lparr>sy_admission := a,
    sy_handshakes := (sy_handshakes y)[k := (sy_handshakes y ! k)\<lparr>hs_pending := None\<rparr>]\<rparr>)"
proof -
  note l = handshake_leases [OF assms(1,2)]
  have "pool_inv (pending_pool a) (map fst (sy_pending y) @ held_by hs_pending (without k (sy_handshakes y))) \<and>
      active_pool a = active_pool (sy_admission y) \<and> same_limits (sy_admission y) a"
    using drop_pending_inv [OF l(1), of "hs_pending (sy_handshakes y ! k)"
        "map fst (sy_pending y) @ held_by hs_pending (without k (sy_handshakes y))"] assms(3) by simp
  then show ?thesis
    using admission_inv_handshake [OF assms(1,2), of a "(sy_handshakes y ! k)\<lparr>hs_pending := None\<rparr>"] l(2,4)
    by (simp add: handshake_inv_def)
qed

lemma admission_inv_drop_active:
  assumes "admission_inv a0 y" "k < length (sy_handshakes y)" "hs_pending (sy_handshakes y ! k) = None"
    and "drop_slot (hs_active (sy_handshakes y ! k)) (sy_admission y) = Some a"
  shows "admission_inv a0 (y\<lparr>sy_admission := a, sy_handshakes := without k (sy_handshakes y)\<rparr>)"
proof -
  note l = handshake_leases [OF assms(1,2)]
  have "pool_inv (active_pool a) (map tk_lease (sy_tasks y) @ held_by hs_active (without k (sy_handshakes y))) \<and>
      pending_pool a = pending_pool (sy_admission y) \<and> same_limits (sy_admission y) a"
    using drop_slot_inv [OF l(2), of "hs_active (sy_handshakes y ! k)"
        "map tk_lease (sy_tasks y) @ held_by hs_active (without k (sy_handshakes y))"] assms(4) by simp
  then show ?thesis
    using assms(1) l(1,3) assms(3) same_limits_trans without_simps(2) [of k "sy_handshakes y"]
    by (auto simp: admission_inv_def)
qed

lemma admission_inv_request:
  assumes "admission_inv a0 y" "k < length (sy_pending y)" "sy_pending y ! k = (lease, addr)"
    and "classify (sy_admission y) lease addr headers = Some (hs, a)"
  shows "admission_inv a0 (y\<lparr>sy_admission := a, sy_pending := without k (sy_pending y),
    sy_handshakes := sy_handshakes y @ [hs]\<rparr>)"
proof -
  let ?h = "map fst (sy_pending y) @ held_by hs_pending (sy_handshakes y)"
  let ?h' = "map fst (without k (sy_pending y)) @ held_by hs_pending (sy_handshakes y)"
  have "pool_inv (pending_pool (sy_admission y)) ?h" "mset ?h = add_mset lease (mset ?h')"
    using assms(1,3) mset_map_without [OF assms(2), of fst] by (simp_all add: admission_inv_def)
  then have c: "pool_inv (pending_pool a) (opt_list (hs_pending hs) @ ?h')"
    "active_pool a = active_pool (sy_admission y)" "same_limits (sy_admission y) a"
    "hs_phase hs \<noteq> Admitted" "hs_active hs = None"
    using classify_inv [of "sy_admission y" ?h lease ?h' addr headers] assms(4) by auto
  have "pool_inv (pending_pool a) (map fst (without k (sy_pending y)) @ held_by hs_pending (sy_handshakes y @ [hs]))"
    using c(1) by (rule pool_inv_mset [THEN iffD1, rotated]) simp
  with assms(1) c(2-5) same_limits_trans show ?thesis
    by (auto simp: admission_inv_def handshake_inv_def)
qed

lemma admission_inv_no_request:
  assumes "admission_inv a0 y" "k < length (sy_pending y)" "sy_pending y ! k = (lease, addr)"
  shows "admission_inv a0 (y\<lparr>sy_pending := without k (sy_pending y),
    sy_handshakes := sy_handshakes y @ [given_up lease addr]\<rparr>)"
proof -
  have given: "hs_pending (given_up lease addr) = Some lease" "hs_active (given_up lease addr) = None"
    "handshake_inv a0 (given_up lease addr)"
    by (simp_all add: given_up_def handshake_inv_def)
  have "pool_inv (pending_pool (sy_admission y))
      (map fst (sy_pending y) @ held_by hs_pending (sy_handshakes y))"
    using assms(1) by (simp add: admission_inv_def)
  then have "pool_inv (pending_pool (sy_admission y))
      (map fst (without k (sy_pending y)) @ held_by hs_pending (sy_handshakes y @ [given_up lease addr]))"
    by (rule pool_inv_mset [THEN iffD1, rotated])
      (use mset_map_without [OF assms(2), of fst] assms(3) in \<open>simp add: given(1)\<close>)
  with assms(1) given show ?thesis by (simp add: admission_inv_def)
qed

lemma admission_inv_challenge:
  assumes "admission_inv a0 y" "k < length (sy_handshakes y)"
    and "hs_pending (sy_handshakes y ! k) = None" "hs_active (sy_handshakes y ! k) = Some lease"
    and "co_source c = hs_source (sy_handshakes y ! k)"
  shows "admission_inv a0 (y\<lparr>sy_handshakes := without k (sy_handshakes y),
    sy_tasks := sy_tasks y @ [\<lparr>tk_conn = c, tk_lease = lease, tk_phase = Running\<rparr>]\<rparr>)"
proof -
  note l = handshake_leases [OF assms(1,2)]
  have "pool_inv (active_pool (sy_admission y)) (map tk_lease (sy_tasks y @ [\<lparr>tk_conn = c, tk_lease = lease,
      tk_phase = Running\<rparr>]) @ held_by hs_active (without k (sy_handshakes y)))"
    using l(2) by (rule pool_inv_mset [THEN iffD1, rotated]) (simp add: assms(4))
  with assms l(1,4) without_simps(2) [of k "sy_handshakes y"] show ?thesis
    by (auto simp: admission_inv_def handshake_inv_def)
qed

subsection \<open>What the accounting bounds\<close>

lemma length_held_by: "length (held_by f xs) = length (filter (\<lambda>x. f x \<noteq> None) xs)"
  by (induction xs) (auto simp: opt_list_def split: option.split)

lemma capacity_bound:
  assumes "admission_inv a0 y"
  shows "length (sy_tasks y) + length (filter (\<lambda>hs. hs_active hs \<noteq> None) (sy_handshakes y)) \<le>
      pool_limit (active_pool a0)"
    "length (sy_pending y) + length (filter (\<lambda>hs. hs_pending hs \<noteq> None) (sy_handshakes y)) \<le>
      pool_limit (pending_pool a0)"
  using assms by (simp_all add: admission_inv_def pool_inv_def same_limits_def length_held_by)

lemma held_count_append: "held_count (xs @ ys) ip = held_count xs ip + held_count ys ip"
  by (simp add: held_count_def)

lemma source_bound:
  assumes "admission_inv a0 y" "pool_source_limit (active_pool a0) = Some limit"
  shows "length (filter (\<lambda>t. quota_source (fst (co_source (tk_conn t))) = ip) (sy_tasks y)) +
    length (filter (\<lambda>hs. hs_active hs \<noteq> None \<and> quota_source (fst (hs_source hs)) = ip) (sy_handshakes y)) \<le> limit"
proof -
  have "lease_source (tk_lease t) = Some (quota_source (fst (co_source (tk_conn t))))"
    if "t \<in> set (sy_tasks y)" for t
    using assms that by (simp add: admission_inv_def charged_def)
  then have "held_count (map tk_lease (sy_tasks y)) ip =
      length (filter (\<lambda>t. quota_source (fst (co_source (tk_conn t))) = ip) (sy_tasks y))"
    by (auto simp: held_count_def filter_map comp_def intro!: arg_cong [where f = length] filter_cong)
  moreover have "held_count (held_by hs_active hss) ip =
      length (filter (\<lambda>hs. hs_active hs \<noteq> None \<and> quota_source (fst (hs_source hs)) = ip) hss)"
    if "\<forall>hs \<in> set hss. handshake_inv a0 hs" for hss
    using that assms(2)
    by (induction hss) (auto simp: held_count_def handshake_inv_def charged_def opt_list_def split: option.split)
  moreover have "held_count (map tk_lease (sy_tasks y) @ held_by hs_active (sy_handshakes y)) ip \<le> limit"
    using assms by (simp add: admission_inv_def pool_inv_def same_limits_def)
  ultimately show ?thesis using assms(1) by (simp add: admission_inv_def held_count_append)
qed

lemma handshake_total:
  assumes "admission_inv a0 y"
  shows "k < length (sy_pending y) \<Longrightarrow>
      classify (sy_admission y) (fst (sy_pending y ! k)) (snd (sy_pending y ! k)) headers \<noteq> None"
    "k < length (sy_handshakes y) \<Longrightarrow> drop_pending (hs_pending (sy_handshakes y ! k)) (sy_admission y) \<noteq> None"
    "k < length (sy_handshakes y) \<Longrightarrow> drop_slot (hs_active (sy_handshakes y ! k)) (sy_admission y) \<noteq> None"
proof -
  let ?h = "map fst (sy_pending y) @ held_by hs_pending (sy_handshakes y)"
  show "classify (sy_admission y) (fst (sy_pending y ! k)) (snd (sy_pending y ! k)) headers \<noteq> None"
    if "k < length (sy_pending y)"
    using classify_inv [of "sy_admission y" ?h "fst (sy_pending y ! k)"
        "map fst (without k (sy_pending y)) @ held_by hs_pending (sy_handshakes y)" "snd (sy_pending y ! k)" headers]
      assms mset_map_without [OF that, of fst] by (auto simp: admission_inv_def)
  show "drop_pending (hs_pending (sy_handshakes y ! k)) (sy_admission y) \<noteq> None" if "k < length (sy_handshakes y)"
    using drop_pending_inv [OF handshake_leases(1) [OF assms that] mset_append] by auto
  show "drop_slot (hs_active (sy_handshakes y ! k)) (sy_admission y) \<noteq> None" if "k < length (sy_handshakes y)"
    using drop_slot_inv [OF handshake_leases(2) [OF assms that] mset_append] by auto
qed

lemma admission_new_inv:
  "admission cfg = Some a \<Longrightarrow> pool_inv (pending_pool a) [] \<and> pool_inv (active_pool a) []"
  by (auto simp: admission_def admission_new_def new_pool_inv)

end
