(* ===== verification/Interleaving.thy ===== *)
theory Interleaving
  imports Server
begin

text \<open>
  All tasks of the server together. \<open>system_step\<close> takes whole turns: a frame is handled to its
  end before another task moves. \<open>atomic_step\<close> is the granularity of the code: what is done under
  one lock is a step, everything between two locks (the pieces of an upgrade, the notifications
  after a locked section, the writes of a relay, the recording of a new session in the
  connection, the end of the loop) is a step of its own, and other tasks may move in between.

  The invariant of lobbies, tasks and leases is proved for \<open>atomic_step\<close>.
\<close>

section \<open>Steps\<close>

text \<open>
  The hash tables may be iterated in another order at any time: the same registry with the
  lists behind its tables permuted.
\<close>

definition reordered_lobby :: "LobbyInfo \<Rightarrow> LobbyInfo \<Rightarrow> bool" where
  "reordered_lobby l l' \<longleftrightarrow>
     l' = l\<lparr>lb_clients := lb_clients l', lb_muted := lb_muted l'\<rparr> \<and>
     mset (lb_clients l') = mset (lb_clients l) \<and> mset (lb_muted l') = mset (lb_muted l)"

definition reordered :: "World \<Rightarrow> World \<Rightarrow> bool" where
  "reordered w w' \<longleftrightarrow>
     mset (w_client_lobby_map w') = mset (w_client_lobby_map w) \<and> hm_wf (w_lobbies w') \<and>
     (\<forall>lid. rel_option reordered_lobby (hm_get (w_lobbies w) lid) (hm_get (w_lobbies w') lid))"

text \<open>A socket handed to a new connection is not one of those in use.\<close>

inductive system_step :: "site \<Rightarrow> System \<Rightarrow> System \<Rightarrow> bool" for S where
  Accept: "system_step S y (accept_connection addr y)"
| Upgrade: "k < length (sy_pending y) \<Longrightarrow> sender \<notin> (co_sender \<circ> tk_conn) ` set (sy_tasks y) \<Longrightarrow>
    upgrade_connection (si_host S) k request rnd sender disconnect born now y = Some y' \<Longrightarrow>
    system_step S y y'"
| Turn: "k < length (sy_tasks y) \<Longrightarrow> tk_phase (sy_tasks y ! k) = Running \<Longrightarrow>
    serve_turn S T i k y = Some y' \<Longrightarrow> system_step S y y'"
| Finish: "k < length (sy_tasks y) \<Longrightarrow> tk_phase (sy_tasks y ! k) = Closing \<Longrightarrow>
    finish_connection (si_host S) rnd k y = Some y' \<Longrightarrow> system_step S y y'"
| Sweep: "system_step S y (sweeper_tick S D P during now y)"
| Reorder: "reordered (sv_world (sy_server y)) w \<Longrightarrow>
    system_step S y (y\<lparr>sy_server := (sy_server y)\<lparr>sv_world := w\<rparr>\<rparr>)"

subsection \<open>Atomic steps\<close>

text \<open>The registry after the locked section of a moderation message.\<close>

definition moderation_locked ::
  "SignalingMessage \<Rightarrow> World \<Rightarrow> ModerationSession \<Rightarrow> bytes \<Rightarrow> ModerationDispatch + World" where
  "moderation_locked m w session rnd =
     (case m of
        KickPlayer _ target \<Rightarrow>
          (case kick_locked w session rnd target of Inl r \<Rightarrow> Inl r | Inr (_, _, _, _, w1) \<Rightarrow> Inr w1)
      | MutePlayer _ target muted \<Rightarrow> mute_locked w session target muted
      | TransferHost _ target \<Rightarrow> transfer_locked w session target
      | SetLobbyOptions _ mx p d n \<Rightarrow>
          (case options_locked w session mx p d n of Inl r \<Rightarrow> Inl r | Inr (_, _, w1) \<Rightarrow> Inr w1)
      | _ \<Rightarrow> Inl NotHandled)"

text \<open>The registry after the locked section of a cleanup.\<close>

definition departed :: "World \<Rightarrow> bytes \<Rightarrow> Conn \<Rightarrow> World" where
  "departed w rnd c =
     (case (co_client_id c, co_lobby_id c) of
        (Some cid, Some lid) \<Rightarrow>
          (case depart_locked w rnd cid lid (co_sender c) of None \<Rightarrow> w | Some (_, w1) \<Rightarrow> w1)
      | _ \<Rightarrow> w)"

text \<open>The state with another registry, and with another task at position \<open>k\<close>.\<close>

definition with_world :: "World \<Rightarrow> System \<Rightarrow> System" where
  "with_world w y = y\<lparr>sy_server := (sy_server y)\<lparr>sv_world := w\<rparr>\<rparr>"

definition with_task :: "nat \<Rightarrow> Task \<Rightarrow> System \<Rightarrow> System" where
  "with_task k t y = y\<lparr>sy_tasks := (sy_tasks y)[k := t]\<rparr>"

definition the_world :: "System \<Rightarrow> World" where
  "the_world y = sv_world (sy_server y)"

lemma view_simps [simp]:
  "the_world (with_world w y) = w" "the_world (with_task k t y) = the_world y"
  "sy_tasks (with_world w y) = sy_tasks y" "sy_tasks (with_task k t y) = (sy_tasks y)[k := t]"
  "sy_admission (with_world w y) = sy_admission y" "sy_admission (with_task k t y) = sy_admission y"
  "sy_pending (with_world w y) = sy_pending y" "sy_pending (with_task k t y) = sy_pending y"
  "sy_handshakes (with_world w y) = sy_handshakes y" "sy_handshakes (with_task k t y) = sy_handshakes y"
  by (simp_all add: the_world_def with_world_def with_task_def)

inductive atomic_step :: "site \<Rightarrow> System \<Rightarrow> System \<Rightarrow> bool" for S where
  Accept: "atomic_step S y (accept_connection addr y)"
| Request: "k < length (sy_pending y) \<Longrightarrow> sy_pending y ! k = (lease, addr) \<Longrightarrow>
    classify (sy_admission y) lease addr headers = Some (hs, a) \<Longrightarrow>
    atomic_step S y (y\<lparr>sy_admission := a, sy_pending := without k (sy_pending y),
                       sy_handshakes := sy_handshakes y @ [hs]\<rparr>)"
| NoRequest: "k < length (sy_pending y) \<Longrightarrow> sy_pending y ! k = (lease, addr) \<Longrightarrow>
    atomic_step S y (y\<lparr>sy_pending := without k (sy_pending y),
                       sy_handshakes := sy_handshakes y @ [given_up lease addr]\<rparr>)"
| Acquire: "k < length (sy_handshakes y) \<Longrightarrow> hs_phase (sy_handshakes y ! k) = Classified \<Longrightarrow>
    acquire_slot (sy_handshakes y ! k) (sy_admission y) = (hs, a) \<Longrightarrow>
    atomic_step S y (y\<lparr>sy_admission := a, sy_handshakes := (sy_handshakes y)[k := hs]\<rparr>)"
| GiveUp: "k < length (sy_handshakes y) \<Longrightarrow> hs = sy_handshakes y ! k \<Longrightarrow> hs_phase hs = Admitted \<Longrightarrow>
    atomic_step S y (y\<lparr>sy_handshakes := (sy_handshakes y)[k := hs\<lparr>hs_phase := Failed None\<rparr>]\<rparr>)"
| DropPending: "k < length (sy_handshakes y) \<Longrightarrow> hs = sy_handshakes y ! k \<Longrightarrow> hs_phase hs \<noteq> Classified \<Longrightarrow>
    drop_pending (hs_pending hs) (sy_admission y) = Some a \<Longrightarrow>
    atomic_step S y (y\<lparr>sy_admission := a, sy_handshakes := (sy_handshakes y)[k := hs\<lparr>hs_pending := None\<rparr>]\<rparr>)"
| Challenge: "k < length (sy_handshakes y) \<Longrightarrow> hs = sy_handshakes y ! k \<Longrightarrow> hs_phase hs = Admitted \<Longrightarrow>
    hs_pending hs = None \<Longrightarrow> hs_active hs = Some lease \<Longrightarrow>
    sender \<notin> (co_sender \<circ> tk_conn) ` set (sy_tasks y) \<Longrightarrow>
    open_connection (si_host S) (the_world y) rnd sender disconnect (hs_source hs) born now = (Some c, w) \<Longrightarrow>
    atomic_step S y ((with_world w y)\<lparr>sy_handshakes := without k (sy_handshakes y),
      sy_tasks := sy_tasks y @ [\<lparr>tk_conn = c, tk_lease = lease, tk_phase = Running\<rparr>]\<rparr>)"
| DropActive: "k < length (sy_handshakes y) \<Longrightarrow> hs = sy_handshakes y ! k \<Longrightarrow> hs_phase hs = Failed r \<Longrightarrow>
    hs_pending hs = None \<Longrightarrow> drop_slot (hs_active hs) (sy_admission y) = Some a \<Longrightarrow>
    atomic_step S y (y\<lparr>sy_admission := a, sy_handshakes := without k (sy_handshakes y)\<rparr>)"
| Receive: "k < length (sy_tasks y) \<Longrightarrow> t = sy_tasks y ! k \<Longrightarrow> tk_phase t = Running \<Longrightarrow>
    atomic_step S y (with_task k (t\<lparr>tk_conn := (tk_conn t)\<lparr>co_limiter := l\<rparr>\<rparr>) y)"
| Admit: "k < length (sy_tasks y) \<Longrightarrow> t = sy_tasks y ! k \<Longrightarrow> tk_phase t = Running \<Longrightarrow>
    check_request (h_crypto (si_host S)) (si_config S) (register_context (tk_conn t)) req = Inr cd \<Longrightarrow>
    admit (h_crypto (si_host S)) now en (register_context (tk_conn t)) req cd (the_world y) = Some (r, w) \<Longrightarrow>
    atomic_step S y (with_task k (t\<lparr>tk_phase := case r of Inl _ \<Rightarrow> Running
                                               | Inr cm \<Rightarrow> Enrolling (cm_session cm)\<rparr>) (with_world w y))"
| Enroll: "k < length (sy_tasks y) \<Longrightarrow> t = sy_tasks y ! k \<Longrightarrow> tk_phase t = Enrolling session \<Longrightarrow>
    atomic_step S y (with_task k (t\<lparr>tk_conn := enrolled (tk_conn t) session, tk_phase := Running\<rparr>) y)"
| Moderate: "k < length (sy_tasks y) \<Longrightarrow> t = sy_tasks y ! k \<Longrightarrow> tk_phase t = Running \<Longrightarrow>
    moderation_session (tk_conn t) = Some session \<Longrightarrow>
    moderation_locked m (the_world y) session rnd = Inr w \<Longrightarrow> atomic_step S y (with_world w y)"
| Close: "k < length (sy_tasks y) \<Longrightarrow> t = sy_tasks y ! k \<Longrightarrow> tk_phase t = Running \<Longrightarrow>
    atomic_step S y (with_task k (t\<lparr>tk_phase := Closing\<rparr>) y)"
| Depart: "k < length (sy_tasks y) \<Longrightarrow> t = sy_tasks y ! k \<Longrightarrow> tk_phase t = Closing \<Longrightarrow>
    atomic_step S y (with_task k (t\<lparr>tk_phase := Departed\<rparr>)
                       (with_world (departed (the_world y) rnd (tk_conn t)) y))"
| Release: "k < length (sy_tasks y) \<Longrightarrow> tk_phase (sy_tasks y ! k) = Departed \<Longrightarrow>
    drop_active (tk_lease (sy_tasks y ! k)) (sy_admission y) = Some a \<Longrightarrow>
    atomic_step S y (y\<lparr>sy_admission := a, sy_tasks := without k (sy_tasks y)\<rparr>)"
| Send: "same_registry (the_world y) w \<Longrightarrow> atomic_step S y (with_world w y)"
| Nodes: "atomic_step S y (y\<lparr>sy_server := (sy_server y)\<lparr>sv_community := m\<rparr>\<rparr>)"
| Reorder: "reordered (the_world y) w \<Longrightarrow> atomic_step S y (with_world w y)"

section \<open>How each locked section changes the membership\<close>

lemma same_members: "same_registry w w' \<Longrightarrow> lobby_client w' = lobby_client w"
  by (simp add: same_registry_def lobby_client_def fun_eq_iff)

lemma moderation_locked_members:
  assumes "moderation_locked m w s rnd = Inr w'" "lobby_client w' lid cid = Some cl"
  shows "lobby_client w lid cid = Some cl"
proof -
  obtain l where l: "authorized_lobby w s = Inr l"
    using assms(1)
    by (cases m) (auto simp: moderation_locked_def kick_locked_def mute_locked_def transfer_locked_def
        options_locked_def split: sum.splits)
  have keep: "lobby_client (put_lobby (ms_lobby_id s) l' w) i j = lobby_client w i j"
    if "lb_clients l' = lb_clients l" for l' i j
    using that authorized_lobby_Inr(1) [OF l]
    by (simp add: lobby_client_def put_lobby_def hm.get_ins)
  show ?thesis
  proof (cases "\<exists>frm t. m = KickPlayer frm t")
    case True
    then obtain frm t where m: "m = KickPlayer frm t" by blast
    then obtain a b d e where k: "kick_locked w s rnd t = Inr (a, b, d, e, w')"
      using assms(1) by (auto simp: moderation_locked_def split: sum.splits)
    obtain l' where l': "authorized_lobby w s = Inr l'"
      "w' = drop_mapping t (ms_lobby_id s) (put_lobby (ms_lobby_id s)
         (rotate_chat_token rnd (l'\<lparr>lb_clients := hm_remove t (lb_clients l'),
            lb_muted := set_remove t (lb_muted l')\<rparr>)) w)"
      using kick_locked_Inr [OF k] by metis
    show ?thesis
      using assms(2) authorized_lobby_Inr(1) [OF l'(1)]
      by (auto simp: l'(2) lobby_client_put lobby_client_Some hm.get_del split: if_splits)
  next
    case False
    with assms l show ?thesis
      by (cases m) (auto simp: moderation_locked_def mute_locked_def transfer_locked_def options_locked_def
          Let_def keep split: if_splits)
  qed
qed

lemma moderation_locked_inv:
  assumes "moderation_locked m w s rnd = Inr w'" "registry_inv C w"
  shows "registry_inv C w'"
  using assms
  by (cases m) (auto simp: moderation_locked_def split: sum.splits
      intro: kick_locked_inv mute_locked_inv transfer_locked_inv options_locked_inv)

text \<open>
  The contract of a locked section that takes nobody in: it keeps the registry's invariant, and
  whoever is a member afterwards was the same member before. Whatever holds of every member then
  goes on to hold.
\<close>

locale shrinking_section =
  fixes sect :: "'a \<Rightarrow> World \<Rightarrow> World option"
  assumes keeps_inv: "sect a w = Some w' \<Longrightarrow> registry_inv C w \<Longrightarrow> registry_inv C w'"
    and old_member: "sect a w = Some w' \<Longrightarrow> lobby_client w' lid cid = Some cl \<Longrightarrow>
      lobby_client w lid cid = Some cl"
begin

lemma members_property:
  "sect a w = Some w' \<Longrightarrow> (\<And>lid cid cl. lobby_client w lid cid = Some cl \<Longrightarrow> P lid cid cl) \<Longrightarrow>
   lobby_client w' lid cid = Some cl \<Longrightarrow> P lid cid cl"
  using old_member by blast

lemma no_second_lobby:
  "sect a w = Some w' \<Longrightarrow> registry_inv C w \<Longrightarrow> lobby_client w' lid cid \<noteq> None \<Longrightarrow>
   lobby_client w lid' cid \<noteq> None \<Longrightarrow> lid' = lid"
  using old_member registry_unique by (metis option.exhaust option.distinct(1))

end

definition moderation_section :: "SignalingMessage \<times> ModerationSession \<times> bytes \<Rightarrow> World \<Rightarrow> World option" where
  "moderation_section = (\<lambda>(m, session, rnd) w.
     case moderation_locked m w session rnd of Inl _ \<Rightarrow> None | Inr w1 \<Rightarrow> Some w1)"

interpretation moderation: shrinking_section moderation_section
  by unfold_locales
    (auto simp: moderation_section_def split: sum.splits
      intro: moderation_locked_inv moderation_locked_members)

lemma admit_others:
  assumes "admit C now en ctx req cd w = Some (Inr cm, w')"
    and "\<not> (lid = cd_lobby_id cd \<and> cid = cd_client_id cd)" "lobby_client w' lid cid = Some cl"
  shows "lobby_client w lid cid = Some cl"
proof -
  obtain g w1 where a: "check_password C now (quota_source (rc_source_ip ctx), cd_lobby_id cd)
       (cd_lobby_id cd) (rq_lobby_password req) w = (None, w1)"
    "(cm, w') = enter_lobby en ctx req cd g (joined_lobby C en req cd w)
       (put_lobby (cd_lobby_id cd) (joined_lobby C en req cd w) w1)"
    using admit_committed [OF assms(1)] by metis
  have "w_lobbies w1 = w_lobbies w" by (rule check_password_registry(1) [OF a(1)])
  then show ?thesis
    using assms(2,3) enter_lobby_registry(1) [OF a(2) [symmetric]]
    by (auto simp: lobby_client_def hm.get_ins joined_lobby_def new_lobby_def Let_def
        split: if_splits option.splits)
qed

lemma admit_refused_members: "admit C now en ctx req cd w = Some (Inl r, w') \<Longrightarrow> lobby_client w' = lobby_client w"
  using admit_refused(1) by (fastforce simp: lobby_client_def fun_eq_iff)

lemma departed_Some:
  assumes "co_client_id c = Some i" "co_lobby_id c = Some j"
    and "depart_locked w rnd i j (co_sender c) = Some (d, w1)"
  shows "departed w rnd c = w1"
  using assms by (simp add: departed_def)

text \<open>A departure takes out the member the connection holds, if it still holds it, and no other.\<close>

lemma departed_members:
  assumes "lobby_client (departed w rnd c) lid cid = Some cl"
  shows "lobby_client w lid cid = Some cl \<and>
    \<not> (co_client_id c = Some cid \<and> co_lobby_id c = Some lid \<and> ci_sender cl = co_sender c)"
proof (cases "\<exists>i j d w1. co_client_id c = Some i \<and> co_lobby_id c = Some j \<and>
    depart_locked w rnd i j (co_sender c) = Some (d, w1)")
  case True
  then obtain i j d w1 where c: "co_client_id c = Some i" "co_lobby_id c = Some j"
    and d: "depart_locked w rnd i j (co_sender c) = Some (d, w1)" by blast
  obtain l x where l: "hm_get (w_lobbies w) j = Some l" "hm_get (lb_clients l) i = Some x"
    using depart_locked_Some [OF d] by metis
  have m: "lobby_client w1 lid cid = Some cl" using assms departed_Some [OF c d] by simp
  have "lobby_client w lid cid = Some cl \<and> \<not> (cid = i \<and> lid = j)"
  proof (cases "hm_len (hm_remove i (lb_clients l)) = 0")
    case True
    with m show ?thesis unfolding depart_locked_world [OF d l(1)]
      by (auto simp: lobby_client_def hm.get_del split: if_splits)
  next
    case False
    have "lb_clients (left_lobby rnd i l) = hm_remove i (lb_clients l)" by (simp add: left_lobby_def Let_def)
    with False m l(1) show ?thesis unfolding depart_locked_world [OF d l(1)]
      by (auto simp: lobby_client_put lobby_client_Some hm.get_del split: if_splits)
  qed
  with c show ?thesis by auto
next
  case False
  then have none: "departed w rnd c = w"
    by (auto simp: departed_def split: option.splits prod.splits)
  have "\<not> (co_client_id c = Some cid \<and> co_lobby_id c = Some lid \<and> ci_sender cl = co_sender c)"
  proof
    assume a: "co_client_id c = Some cid \<and> co_lobby_id c = Some lid \<and> ci_sender cl = co_sender c"
    obtain l where "hm_get (w_lobbies w) lid = Some l" "hm_get (lb_clients l) cid = Some cl"
      using assms unfolding none by (auto simp: lobby_client_def Option.bind_eq_Some_conv)
    then have "depart_locked w rnd cid lid (co_sender c) \<noteq> None"
      using a by (simp add: depart_locked_def is_some_and_def Let_def)
    with False a show False by auto
  qed
  with assms none show ?thesis by simp
qed

lemma departed_inv: "registry_inv C w \<Longrightarrow> registry_inv C (departed w rnd c)"
  by (auto simp: departed_def split: option.splits prod.splits intro: depart_locked_inv)

interpretation departure: shrinking_section "\<lambda>(rnd, c) w. Some (departed w rnd c)"
  by unfold_locales (auto intro: departed_inv dest: departed_members)

section \<open>Reordering\<close>

lemma hm_reordered:
  assumes "hm_wf m" "mset m' = mset m"
  shows "hm_wf m'" "hm_get m' = hm_get m" "hm_len m' = hm_len m"
proof -
  have "mset (map fst m') = mset (map fst m)" using assms(2) by simp
  then show wf: "hm_wf m'" using assms(1) unfolding hm_wf_def by (metis mset_eq_imp_distinct_iff)
  show "hm_get m' = hm_get m"
    using assms wf unfolding hm_wf_def hm_get_def by (metis map_of_inject_set set_mset_mset)
  show "hm_len m' = hm_len m" using assms(2) unfolding hm_len_def by (metis size_mset)
qed

lemma reordered_lobby_inv:
  assumes "reordered_lobby l l'" "lobby_inv C lid l"
  shows "lobby_inv C lid l'" "hm_get (lb_clients l') = hm_get (lb_clients l)"
proof -
  obtain cs ms where l': "l' = l\<lparr>lb_clients := cs, lb_muted := ms\<rparr>"
    and m: "mset cs = mset (lb_clients l)" "mset ms = mset (lb_muted l)"
    using assms(1) unfolding reordered_lobby_def by metis
  have "hm_wf (lb_clients l)" using assms(2) by (simp add: lobby_inv_def clients_inv_def)
  note c = hm_reordered [OF this m(1)]
  have mm: "set ms = set (lb_muted l)" "distinct ms = distinct (lb_muted l)"
    using m(2) by (metis set_mset_mset, metis mset_eq_imp_distinct_iff)
  show "hm_get (lb_clients l') = hm_get (lb_clients l)" using c l' by simp
  show "lobby_inv C lid l'"
    using assms(2) c mm unfolding l' by (simp add: lobby_inv_def clients_inv_def hm_contains_def password_inv_def)
qed

lemma reordered_registry:
  assumes "reordered w w'" "registry_inv C w"
  shows "registry_inv C w'" "lobby_client w' = lobby_client w"
proof -
  note w = registry_wf [OF assms(2)]
  have rel: "rel_option reordered_lobby (hm_get (w_lobbies w) lid) (hm_get (w_lobbies w') lid)" for lid
    using assms(1) by (simp add: reordered_def)
  have lobby: "lobby_inv C lid l'" if "hm_get (w_lobbies w') lid = Some l'" for lid l'
    using rel [of lid] that reordered_lobby_inv(1) registry_lobby [OF assms(2)]
    by (auto simp: option_rel_Some2)
  show mem: "lobby_client w' = lobby_client w"
  proof (intro ext)
    fix lid cid
    show "lobby_client w' lid cid = lobby_client w lid cid"
    proof (cases "hm_get (w_lobbies w) lid")
      case None
      then show ?thesis using rel [of lid] by (simp add: lobby_client_def)
    next
      case (Some l)
      then obtain l' where l': "hm_get (w_lobbies w') lid = Some l'" "reordered_lobby l l'"
        using rel [of lid] by (auto simp: option_rel_Some1)
      show ?thesis
        using Some l'(1) reordered_lobby_inv(2) [OF l'(2) registry_lobby [OF assms(2) Some]]
        by (simp add: lobby_client_def)
    qed
  qed
  have "mset (w_client_lobby_map w') = mset (w_client_lobby_map w)"
    using assms(1) by (simp add: reordered_def)
  note hm_reordered [OF w(2) this]
  moreover have "hm_wf (w_lobbies w')" using assms(1) by (simp add: reordered_def)
  moreover have "hm_get (w_client_lobby_map w) cid = Some lid \<longleftrightarrow> lobby_client w lid cid \<noteq> None" for cid lid
    using assms(2) unfolding registry_inv_def by blast
  ultimately show "registry_inv C w'" using lobby unfolding registry_inv_def mem by metis
qed

section \<open>The tasks behind the members\<close>

text \<open>The connection that holds a member: registered as that client, in that lobby, same session.\<close>

definition serves :: "Conn \<Rightarrow> rstr \<Rightarrow> rstr \<Rightarrow> ClientInfo \<Rightarrow> bool" where
  "serves c lid cid cl \<longleftrightarrow>
     co_is_registered c \<and> co_client_id c = Some cid \<and> co_lobby_id c = Some lid \<and>
     co_generation c = ci_session_generation cl \<and> co_sender c = ci_sender cl"

text \<open>The connection of a task with the session it has been admitted with, recorded or not.\<close>

definition session_of :: "Task \<Rightarrow> Conn" where
  "session_of t = (case tk_phase t of Enrolling s \<Rightarrow> enrolled (tk_conn t) s | _ \<Rightarrow> tk_conn t)"

definition holds :: "Task \<Rightarrow> rstr \<Rightarrow> rstr \<Rightarrow> ClientInfo \<Rightarrow> bool" where
  "holds t lid cid cl \<longleftrightarrow> tk_phase t \<noteq> Departed \<and> serves (session_of t) lid cid cl"

text \<open>
  Sockets are distinct, an unregistered connection has no identity, and every member of every
  lobby is held by a task: the registry has no ghosts.
\<close>

definition tasks_inv :: "System \<Rightarrow> bool" where
  "tasks_inv y \<longleftrightarrow>
     distinct (map (co_sender \<circ> tk_conn) (sy_tasks y)) \<and>
     (\<forall>t \<in> set (sy_tasks y). conn_inv (tk_conn t)) \<and>
     (\<forall>lid cid cl. lobby_client (the_world y) lid cid = Some cl \<longrightarrow>
        (\<exists>t \<in> set (sy_tasks y). holds t lid cid cl))"

lemma tasks_inv_same:
  "tasks_inv y \<Longrightarrow> lobby_client (the_world y') = lobby_client (the_world y) \<Longrightarrow>
   sy_tasks y' = sy_tasks y \<Longrightarrow> tasks_inv y'"
  by (simp add: tasks_inv_def)

text \<open>A step of one task that keeps its socket and does not let go of a member.\<close>

lemma tasks_inv_update:
  assumes "tasks_inv y" "k < length (sy_tasks y)" "sy_tasks y' = (sy_tasks y)[k := t]"
    and "co_sender (tk_conn t) = co_sender (tk_conn (sy_tasks y ! k))" "conn_inv (tk_conn t)"
    and members: "\<And>lid cid cl. lobby_client (the_world y') lid cid = Some cl \<Longrightarrow>
      holds t lid cid cl \<or>
      lobby_client (the_world y) lid cid = Some cl \<and> \<not> holds (sy_tasks y ! k) lid cid cl"
  shows "tasks_inv y'"
proof -
  have in_new: "t \<in> set (sy_tasks y')" using assms(2) by (simp add: assms(3) set_update_memI)
  have "map (co_sender \<circ> tk_conn) (sy_tasks y') = map (co_sender \<circ> tk_conn) (sy_tasks y)"
    using assms(2,4) by (simp add: assms(3) map_update list_update_same_conv)
  moreover have "\<forall>t \<in> set (sy_tasks y'). conn_inv (tk_conn t)"
    using assms(1,5) by (auto simp: assms(3) tasks_inv_def dest: set_update_subset_insert [THEN subsetD])
  moreover have "\<exists>t \<in> set (sy_tasks y'). holds t lid cid cl"
    if "lobby_client (the_world y') lid cid = Some cl" for lid cid cl
  proof (cases "holds t lid cid cl")
    case True
    with in_new show ?thesis by blast
  next
    case False
    with members [OF that] obtain t' where t': "t' \<in> set (sy_tasks y)" "holds t' lid cid cl"
      "\<not> holds (sy_tasks y ! k) lid cid cl"
      using assms(1) unfolding tasks_inv_def by blast
    then obtain j where "j < length (sy_tasks y)" "t' = sy_tasks y ! j" "j \<noteq> k"
      by (metis in_set_conv_nth)
    then have "t' \<in> set (sy_tasks y')" unfolding assms(3) by (auto simp: in_set_conv_nth intro!: exI [of _ j])
    with t'(2) show ?thesis by blast
  qed
  ultimately show ?thesis using assms(1) by (simp add: tasks_inv_def)
qed

lemma open_connection_new:
  assumes "open_connection h w rnd sender disconnect source born now = (r, w')"
  shows "same_registry w w'" "r = Some c \<Longrightarrow> co_sender c = sender \<and> conn_inv c"
proof -
  show "r = Some c \<Longrightarrow> co_sender c = sender \<and> conn_inv c"
    using assms by (auto simp: open_connection_def Let_def conn_inv_def split: prod.splits if_splits)
  let ?w = "w\<lparr>w_budget := (w_budget w)(sender := ob_new born),
              w_disconnect := (w_disconnect w)(disconnect := False)\<rparr>"
  have "same_registry w ?w" by (simp add: same_registry_def)
  moreover have "w' = snd (send_json h ?w sender (ServerChallenge (random_hex rnd) True SIGNALING_PROTOCOL_VERSION))"
    using assms by (auto simp: open_connection_def Let_def split: prod.splits)
  ultimately show "same_registry w w'"
    using same_registry_trans [OF _ send_keeps_registry(2)] by (simp add: send_json_def)
qed

text \<open>What an upgrade changes: nothing in the registry, and at most one fresh task is added.\<close>

lemma upgrade_tasks:
  assumes "upgrade_connection h k request rnd sender disconnect born now y = Some y'"
  shows "same_registry (sv_world (sy_server y)) (sv_world (sy_server y')) \<and>
    (sy_tasks y' = sy_tasks y \<or>
     (\<exists>t. sy_tasks y' = sy_tasks y @ [t] \<and> co_sender (tk_conn t) = sender \<and> conn_inv (tk_conn t)))"
proof -
  obtain lease addr where k: "sy_pending y ! k = (lease, addr)" by (rule prod.exhaust)
  show ?thesis
  proof (cases request)
    case None
    with assms k show ?thesis by (auto simp: upgrade_connection_def)
  next
    case (Some rq)
    then obtain headers written where rq: "request = Some (headers, written)" by (cases rq) auto
    obtain r pend a a1 where hs: "handshake (sy_admission y) (Some lease) (fst addr) headers = Some (r, pend, a)"
      "drop_pending pend a = Some a1"
      using assms k rq by (auto simp: upgrade_connection_def Let_def Option.bind_eq_Some_conv)
    show ?thesis
    proof (cases r)
      case (Inl reason)
      with assms k rq hs show ?thesis by (auto simp: upgrade_connection_def)
    next
      case (Inr ia)
      then obtain ip act where ia: "r = Inr (ip, act)" by (cases ia) auto
      obtain c w where c: "open_connection h (sv_world (sy_server y)) rnd sender disconnect
          (ip, snd addr) born now = (c, w)" by fastforce
      note n = open_connection_new [OF c]
      show ?thesis
        using assms k rq hs ia c n(1)
        by (cases c) (auto simp: upgrade_connection_def Let_def n(2) split: if_splits)
    qed
  qed
qed

lemma in_without: "x \<in> set xs \<Longrightarrow> x \<noteq> xs ! k \<Longrightarrow> x \<in> set (without k xs)"
proof (cases "k < length xs")
  case True
  assume "x \<in> set xs" "x \<noteq> xs ! k"
  with arg_cong [OF id_take_nth_drop [OF True], of set] show ?thesis by (auto simp: without_def)
qed (auto simp: without_def)

lemma distinct_without: "distinct xs \<Longrightarrow> distinct (without k xs)"
  using set_take_disj_set_drop_if_distinct [of xs k "Suc k"] by (simp add: without_def)

lemma holding_task_unique:
  assumes "tasks_inv y" "t \<in> set (sy_tasks y)" "t' \<in> set (sy_tasks y)"
    and "holds t lid cid cl" "holds t' lid cid cl"
  shows "t = t'"
proof -
  have "inj_on (co_sender \<circ> tk_conn) (set (sy_tasks y))"
    using assms(1) by (simp add: tasks_inv_def distinct_map)
  moreover have "co_sender (session_of t) = co_sender (tk_conn t)" for t
    by (simp add: session_of_def enrolled_def split: Phase.split)
  then have "(co_sender \<circ> tk_conn) t = (co_sender \<circ> tk_conn) t'"
    using assms(4,5) by (simp add: holds_def serves_def)
  ultimately show ?thesis using assms(2,3) by (rule inj_onD)
qed

section \<open>The invariant of the system\<close>

definition system_inv :: "site \<Rightarrow> Admission \<Rightarrow> System \<Rightarrow> bool" where
  "system_inv S a0 y \<longleftrightarrow>
     registry_inv (h_crypto (si_host S)) (the_world y) \<and> tasks_inv y \<and> admission_inv a0 y"

lemma tasks_inv_open:
  assumes "tasks_inv y" "sender \<notin> (co_sender \<circ> tk_conn) ` set (sy_tasks y)"
    and "open_connection h (the_world y) rnd sender disconnect source born now = (Some (tk_conn t), w)"
  shows "tasks_inv ((with_world w y)\<lparr>sy_handshakes := hss, sy_tasks := sy_tasks y @ [t]\<rparr>)"
proof -
  note new = open_connection_new(1) [OF assms(3)] open_connection_new(2) [OF assms(3) refl]
  have "lobby_client w = lobby_client (the_world y)" by (rule same_members [OF new(1)])
  then show ?thesis using assms(1,2) new(2) by (fastforce simp: tasks_inv_def the_world_def with_world_def)
qed

lemma tasks_inv_conn: "tasks_inv y \<Longrightarrow> k < length (sy_tasks y) \<Longrightarrow> conn_inv (tk_conn (sy_tasks y ! k))"
  by (simp add: tasks_inv_def)

lemma tasks_inv_same_holds:
  assumes "tasks_inv y" "k < length (sy_tasks y)" "conn_inv (tk_conn t)"
    and "co_sender (tk_conn t) = co_sender (tk_conn (sy_tasks y ! k))" "holds t = holds (sy_tasks y ! k)"
  shows "tasks_inv (with_task k t y)"
  by (rule tasks_inv_update [OF assms(1,2), of _ t]) (use assms(3-) in auto)

lemma holds_phases:
  "tk_phase t = Running \<Longrightarrow> holds t lid cid cl = serves (tk_conn t) lid cid cl"
  "tk_phase t = Closing \<Longrightarrow> holds t lid cid cl = serves (tk_conn t) lid cid cl"
  "tk_phase t = Departed \<Longrightarrow> \<not> holds t lid cid cl"
  "tk_phase t = Enrolling s \<Longrightarrow> holds t lid cid cl = serves (enrolled (tk_conn t) s) lid cid cl"
  by (simp_all add: holds_def session_of_def)

lemma tasks_inv_depart:
  assumes "tasks_inv y" "k < length (sy_tasks y)" "t = sy_tasks y ! k" "tk_phase t = Closing"
  shows "tasks_inv (with_task k (t\<lparr>tk_phase := Departed\<rparr>) (with_world (departed (the_world y) rnd (tk_conn t)) y))"
proof (rule tasks_inv_update [OF assms(1,2)])
  show "holds (t\<lparr>tk_phase := Departed\<rparr>) lid cid cl \<or>
      lobby_client (the_world y) lid cid = Some cl \<and> \<not> holds (sy_tasks y ! k) lid cid cl"
    if "lobby_client (the_world (with_task k (t\<lparr>tk_phase := Departed\<rparr>)
      (with_world (departed (the_world y) rnd (tk_conn t)) y))) lid cid = Some cl" for lid cid cl
    using departed_members [of "the_world y" rnd "tk_conn t" lid cid cl] that assms(3,4)
    by (auto simp: holds_phases serves_def)
qed (use assms tasks_inv_conn [OF assms(1,2)] in auto)

lemma admission_inv_task:
  assumes "admission_inv a0 y" "k < length (sy_tasks y)"
    and "tk_lease t = tk_lease (sy_tasks y ! k)" "co_source (tk_conn t) = co_source (tk_conn (sy_tasks y ! k))"
  shows "admission_inv a0 (with_task k t y)"
proof -
  have "map tk_lease ((sy_tasks y)[k := t]) = map tk_lease (sy_tasks y)"
    using assms(2,3) by (simp add: map_update list_update_same_conv)
  moreover have "charged a0 (tk_lease t') (fst (co_source (tk_conn t')))" if "t' \<in> set ((sy_tasks y)[k := t])" for t'
    using that assms by (auto simp: admission_inv_def dest!: set_update_subset_insert [THEN subsetD])
  ultimately show ?thesis using assms(1) by (simp add: admission_inv_def)
qed

lemma admission_inv_world [simp]: "admission_inv a0 (with_world w y) = admission_inv a0 y"
  by (simp add: admission_inv_def)

lemma admission_inv_release:
  assumes "admission_inv a0 y" "k < length (sy_tasks y)"
    and "drop_active (tk_lease (sy_tasks y ! k)) (sy_admission y) = Some a"
  shows "admission_inv a0 (y\<lparr>sy_admission := a, sy_tasks := without k (sy_tasks y)\<rparr>)"
  using finish_admission [OF assms(1,2)] assms(3)
  by (auto simp: finish_connection_def Let_def admission_inv_def)

lemma tasks_inv_release:
  assumes "tasks_inv y" "k < length (sy_tasks y)" "tk_phase (sy_tasks y ! k) = Departed"
  shows "tasks_inv (y\<lparr>sy_admission := a, sy_tasks := without k (sy_tasks y)\<rparr>)"
proof -
  have "\<exists>t \<in> set (without k (sy_tasks y)). holds t lid cid cl"
    if member: "lobby_client (the_world y) lid cid = Some cl" for lid cid cl
  proof -
    obtain t where t: "t \<in> set (sy_tasks y)" "holds t lid cid cl"
      using assms(1) member unfolding tasks_inv_def by blast
    with assms(3) have "t \<noteq> sy_tasks y ! k" by (auto simp: holds_def)
    then have "t \<in> set (without k (sy_tasks y))" by (rule in_without [OF t(1)])
    with t(2) show ?thesis by blast
  qed
  moreover have "the_world (y\<lparr>sy_admission := a, sy_tasks := without k (sy_tasks y)\<rparr>) = the_world y"
    by (simp add: the_world_def)
  ultimately show ?thesis
    using assms(1) without_simps(2) [of k "sy_tasks y"]
    by (auto simp: tasks_inv_def without_simps(1) distinct_without)
qed

lemma tasks_inv_admit:
  assumes "tasks_inv y" "k < length (sy_tasks y)" "t = sy_tasks y ! k" "tk_phase t = Running"
    and "check_request C cfg (register_context (tk_conn t)) req = Inr cd"
    and "admit C now en (register_context (tk_conn t)) req cd (the_world y) = Some (r, w)"
  shows "tasks_inv (with_task k (t\<lparr>tk_phase := case r of Inl _ \<Rightarrow> Running
           | Inr cm \<Rightarrow> Enrolling (cm_session cm)\<rparr>) (with_world w y))" (is "tasks_inv (with_task k ?t ?y)")
proof (rule tasks_inv_update [OF assms(1,2), of _ ?t])
  have unreg: "\<not> co_is_registered (tk_conn t)"
    using check_request_ok(1) [OF assms(5)] by (simp add: register_context_def)
  then have none: "\<not> holds (sy_tasks y ! k) lid cid cl" for lid cid cl
    using assms(3,4) by (simp add: holds_def session_of_def serves_def)
  show "holds ?t lid cid cl \<or> lobby_client (the_world y) lid cid = Some cl \<and> \<not> holds (sy_tasks y ! k) lid cid cl"
    if "lobby_client (the_world (with_task k ?t ?y)) lid cid = Some cl" for lid cid cl
  proof (cases r)
    case (Inl a)
    with that admit_refused_members assms(6) none show ?thesis by auto
  next
    case (Inr cm)
    show ?thesis
    proof (cases "lid = cd_lobby_id cd \<and> cid = cd_client_id cd")
      case True
      with that Inr admit_session [OF assms(6) [unfolded Inr]] show ?thesis
        by (auto simp: holds_def session_of_def serves_def enrolled_def client_info_def register_context_def)
    next
      case False
      with that none admit_others [OF assms(6) [unfolded Inr]] show ?thesis by auto
    qed
  qed
qed (use assms in \<open>auto simp: tasks_inv_def\<close>)

lemma tasks_inv_receive:
  assumes "tasks_inv y" "k < length (sy_tasks y)" "t = sy_tasks y ! k"
  shows "tasks_inv (with_task k (t\<lparr>tk_conn := (tk_conn t)\<lparr>co_limiter := l\<rparr>\<rparr>) y)"
proof (rule tasks_inv_same_holds [OF assms(1,2)])
  show "conn_inv (tk_conn (t\<lparr>tk_conn := (tk_conn t)\<lparr>co_limiter := l\<rparr>\<rparr>))"
    using tasks_inv_conn [OF assms(1,2)] assms(3) by (simp add: conn_inv_def)
qed (use assms(3) in \<open>auto simp: fun_eq_iff holds_def session_of_def serves_def enrolled_def split: Phase.splits\<close>)

lemma tasks_inv_enroll:
  assumes "tasks_inv y" "k < length (sy_tasks y)" "t = sy_tasks y ! k" "tk_phase t = Enrolling session"
  shows "tasks_inv (with_task k (t\<lparr>tk_conn := enrolled (tk_conn t) session, tk_phase := Running\<rparr>) y)"
  by (rule tasks_inv_same_holds [OF assms(1,2)])
    (use assms(3,4) in \<open>auto simp: fun_eq_iff holds_phases enrolled_def conn_inv_def\<close>)

lemma tasks_inv_close:
  assumes "tasks_inv y" "k < length (sy_tasks y)" "t = sy_tasks y ! k" "tk_phase t = Running"
  shows "tasks_inv (with_task k (t\<lparr>tk_phase := Closing\<rparr>) y)"
  by (rule tasks_inv_same_holds [OF assms(1,2)])
    (use assms(3,4) tasks_inv_conn [OF assms(1,2)] in \<open>auto simp: fun_eq_iff holds_phases\<close>)

lemma tasks_inv_moderate:
  "tasks_inv y \<Longrightarrow> moderation_section a (the_world y) = Some w \<Longrightarrow> tasks_inv (with_world w y)"
  using moderation.members_property [of a "the_world y" w "\<lambda>lid cid cl. \<exists>t \<in> set (sy_tasks y). holds t lid cid cl"]
  by (simp add: tasks_inv_def)

lemma system_inv_challenge:
  assumes "system_inv S a0 y" "k < length (sy_handshakes y)" "hs_pending (sy_handshakes y ! k) = None"
    and "hs_active (sy_handshakes y ! k) = Some lease" "sender \<notin> (co_sender \<circ> tk_conn) ` set (sy_tasks y)"
    and "open_connection (si_host S) (the_world y) rnd sender disconnect (hs_source (sy_handshakes y ! k)) born now = (Some c, w)"
  shows "system_inv S a0 ((with_world w y)\<lparr>sy_handshakes := without k (sy_handshakes y),
    sy_tasks := sy_tasks y @ [\<lparr>tk_conn = c, tk_lease = lease, tk_phase = Running\<rparr>]\<rparr>)"
proof -
  have "registry_inv (h_crypto (si_host S)) w"
    using open_connection_new(1) [OF assms(6)] registry_inv_same assms(1) unfolding system_inv_def by blast
  moreover have "admission_inv a0 ((with_world w y)\<lparr>sy_handshakes := without k (sy_handshakes y),
      sy_tasks := sy_tasks y @ [\<lparr>tk_conn = c, tk_lease = lease, tk_phase = Running\<rparr>]\<rparr>)"
    using admission_inv_challenge [of a0 "with_world w y" k lease c] assms(1-4)
      open_connection_source [OF assms(6)] by (simp add: system_inv_def)
  ultimately show ?thesis
    using tasks_inv_open [of y sender, where t = "\<lparr>tk_conn = c, tk_lease = lease, tk_phase = Running\<rparr>"] assms
    by (simp add: system_inv_def the_world_def with_world_def)
qed

text \<open>A step on the leases leaves members and tasks alone.\<close>

lemma system_inv_leases:
  "system_inv S a0 y \<Longrightarrow> (admission_inv a0 y \<Longrightarrow> admission_inv a0 y') \<Longrightarrow> sy_server y' = sy_server y \<Longrightarrow>
   sy_tasks y' = sy_tasks y \<Longrightarrow> system_inv S a0 y'"
  by (simp add: system_inv_def tasks_inv_def the_world_def)

lemma system_inv_admit:
  assumes "system_inv S a0 y" "k < length (sy_tasks y)" "t = sy_tasks y ! k" "tk_phase t = Running"
    and "check_request (h_crypto (si_host S)) (si_config S) (register_context (tk_conn t)) req = Inr cd"
    and "admit (h_crypto (si_host S)) now en (register_context (tk_conn t)) req cd (the_world y) = Some (r, w)"
  shows "system_inv S a0 (with_task k (t\<lparr>tk_phase := case r of Inl _ \<Rightarrow> Running
           | Inr cm \<Rightarrow> Enrolling (cm_session cm)\<rparr>) (with_world w y))"
proof -
  have "registry_inv (h_crypto (si_host S)) w"
    using admit_inv [OF _ check_request_ok(5) [OF assms(5)] assms(6)] assms(1) by (simp add: system_inv_def)
  with assms tasks_inv_admit [OF _ assms(2-6)] show ?thesis
    by (auto simp: system_inv_def intro!: admission_inv_task)
qed

lemma system_inv_moderate:
  assumes "system_inv S a0 y" "moderation_locked m (the_world y) session rnd = Inr w"
  shows "system_inv S a0 (with_world w y)"
proof -
  have "moderation_section (m, session, rnd) (the_world y) = Some w"
    using assms(2) by (simp add: moderation_section_def)
  with assms(1) moderation.keeps_inv tasks_inv_moderate show ?thesis by (auto simp: system_inv_def)
qed

lemma system_inv_reorder:
  assumes "system_inv S a0 y" "reordered (the_world y) w"
  shows "system_inv S a0 (with_world w y)"
proof -
  have "lobby_client w = lobby_client (the_world y)" "registry_inv (h_crypto (si_host S)) w"
    using reordered_registry assms unfolding system_inv_def by blast+
  with assms(1) tasks_inv_same [of y "with_world w y"] show ?thesis by (simp add: system_inv_def)
qed

lemma atomic_step_inv: "atomic_step S y y' \<Longrightarrow> system_inv S a0 y \<Longrightarrow> system_inv S a0 y'"
proof (induction rule: atomic_step.induct)
  case (Accept y addr)
  have "sy_server (accept_connection addr y) = sy_server y" "sy_tasks (accept_connection addr y) = sy_tasks y"
    by (simp_all add: accept_connection_def split: sum.splits prod.splits)
  then show ?case by (intro system_inv_leases [OF Accept accept_admission])
next
  case (Request k y lease addr headers hs a)
  show ?case by (rule system_inv_leases [OF _ admission_inv_request]) (use Request in simp_all)
next
  case (NoRequest k y lease addr)
  show ?case by (rule system_inv_leases [OF _ admission_inv_no_request]) (use NoRequest in simp_all)
next
  case (Acquire k y hs a)
  show ?case by (rule system_inv_leases [OF _ admission_inv_acquire]) (use Acquire in simp_all)
next
  case (GiveUp k y hs)
  show ?case unfolding GiveUp(2) by (rule system_inv_leases [OF _ admission_inv_give_up]) (use GiveUp in simp_all)
next
  case (DropPending k y hs a)
  show ?case unfolding DropPending(2) by (rule system_inv_leases [OF _ admission_inv_drop_pending]) (use DropPending in simp_all)
next
  case (DropActive k y hs r a)
  show ?case by (rule system_inv_leases [OF _ admission_inv_drop_active]) (use DropActive in simp_all)
next
  case (Challenge k y hs lease sender rnd disconnect born now c w)
  then show ?case using system_inv_challenge by blast
next
  case (Receive k y t l)
  with tasks_inv_receive show ?case by (auto simp: system_inv_def intro!: admission_inv_task)
next
  case (Enroll k y t session)
  with tasks_inv_enroll show ?case by (auto simp: system_inv_def enrolled_def intro!: admission_inv_task)
next
  case (Close k y t)
  with tasks_inv_close show ?case by (auto simp: system_inv_def intro!: admission_inv_task)
next
  case (Depart k y t rnd)
  with tasks_inv_depart show ?case
    by (auto simp: system_inv_def departed_inv intro!: admission_inv_task)
next
  case (Release k y a)
  with admission_inv_release tasks_inv_release show ?case by (simp add: system_inv_def the_world_def)
next
  case (Send y w)
  with tasks_inv_same [of y "with_world w y"] show ?case
    by (simp add: system_inv_def registry_inv_same same_members)
next
  case (Nodes y m)
  then show ?case by (simp add: system_inv_def tasks_inv_def admission_inv_def the_world_def)
qed (auto intro: system_inv_admit system_inv_moderate system_inv_reorder)

interpretation atomic: step_system "\<lambda>y. \<exists>files now. start_system S files now = Some y \<and> a0 = sy_admission y"
  "atomic_step S" "system_inv S a0"
proof unfold_locales
  fix y
  assume "\<exists>files now. start_system S files now = Some y \<and> a0 = sy_admission y"
  then obtain files now a where y: "admission (si_config S) = Some a" "a0 = a"
    "y = \<lparr>sy_server = start_server S files now, sy_admission = a, sy_pending = [], sy_handshakes = [], sy_tasks = []\<rparr>"
    by (auto simp: start_system_def)
  from admission_new_inv [OF y(1)] show "system_inv S a0 y"
    by (simp add: y(2,3) system_inv_def tasks_inv_def admission_inv_def same_limits_def start_server_def
        registry_inv_def lobby_client_def the_world_def)
qed (rule atomic_step_inv)

end
