(* ===== verification/Turn_Simulation.thy ===== *)
theory Turn_Simulation
  imports Interleaving
begin

text \<open>
  Handling a frame to its end before another task moves is one of the schedules the locks allow:
  every step of whole turns (\<open>system_step\<close>) is a run of atomic steps, and it changes the registry
  in at most one locked section. The invariant of the server therefore holds for whole turns too.
\<close>

section \<open>Turns are sequences of atomic steps\<close>

text \<open>A moderation message is its locked section, if it is let in, and then only writes.\<close>

lemma moderation_splits:
  assumes "handle_moderation_message h w rnd m session = (d, w')"
  obtains (refused) "w' = w"
    | (locked) s w1 where "session = Some s" "moderation_locked m w s rnd = Inr w1" "same_registry w1 w'"
proof (cases "w' = w")
  case False
  then have "snd (handle_moderation_message h w rnd m session) \<noteq> w" using assms by simp
  then obtain s where s: "session = Some s" "moderation_from m = Some (ms_client_id s)"
    "hm_get (w_client_lobby_map w) (ms_client_id s) = Some (ms_lobby_id s)"
    using handle_moderation_refused by metis
  have w': "w' = snd (handle_moderation_message h w rnd m (Some s))" using assms s(1) by simp
  have "\<exists>w1. moderation_locked m w s rnd = Inr w1 \<and> same_registry w1 w'"
  proof (rule handle_moderation_cases [OF s(2) refl s(3), of h rnd])
    fix target
    assume m: "m = KickPlayer (ms_client_id s) target"
      "handle_moderation_message h w rnd m (Some s) = kick_player h w s rnd target"
    with False w' kick_player_registry [of w s rnd target _ _ _ _ _ h] show ?thesis
      by (cases "kick_locked w s rnd target") (auto simp: moderation_locked_def kick_player_def)
  next
    fix target muted
    assume m: "m = MutePlayer (ms_client_id s) target muted"
      "handle_moderation_message h w rnd m (Some s) = mute_player h w s target muted"
    with False w' mute_player_registry [of w s target muted _ h] show ?thesis
      by (cases "mute_locked w s target muted") (auto simp: moderation_locked_def mute_player_def)
  next
    fix target
    assume m: "m = TransferHost (ms_client_id s) target"
      "handle_moderation_message h w rnd m (Some s) = transfer_host h w s target"
    with False w' transfer_host_registry [of w s target _ h] show ?thesis
      by (cases "transfer_locked w s target") (auto simp: moderation_locked_def transfer_host_def)
  next
    fix mx p d n
    assume m: "m = SetLobbyOptions (ms_client_id s) mx p d n"
      "handle_moderation_message h w rnd m (Some s) = set_lobby_options h w s mx p d n"
    with False w' set_lobby_options_registry [of w s mx p d n _ _ _ h] show ?thesis
      by (cases "options_locked w s mx p d n") (auto simp: moderation_locked_def set_lobby_options_def)
  qed
  with s(1) locked show thesis by blast
qed (rule refused)

text \<open>A registration is refused at once, or admitted or refused under the lock; then only writes.\<close>

lemma registration_splits:
  assumes "handle_v3 h cfg now en ctx req w = Some (out, w')"
  obtains (refused) "same_registry w w'" "\<not> (\<exists>s d. out = Committed s d)"
    | (locked) cd r w1 where "check_request (h_crypto h) cfg ctx req = Inr cd"
        "admit (h_crypto h) now en ctx req cd w = Some (r, w1)" "same_registry w1 w'"
        "case r of Inl _ \<Rightarrow> \<not> (\<exists>s d. out = Committed s d) | Inr cm \<Rightarrow> \<exists>d. out = Committed (cm_session cm) d"
proof (cases "check_request (h_crypto h) cfg ctx req")
  case (Inl e)
  moreover have "e \<noteq> (m, Committed s d)" for m s d
    using Inl by (auto simp: check_request_def Let_def split: if_splits option.splits prod.splits)
  ultimately show thesis
    using assms by (intro refused) (auto simp: handle_v3_def send_response_def send_keeps_registry(2)
        split: prod.splits option.splits)
next
  case (Inr cd)
  obtain r w1 where r: "admit (h_crypto h) now en ctx req cd w = Some (r, w1)"
    using assms Inr by (auto simp: handle_v3_def split: option.splits)
  show thesis
  proof (cases r)
    case (Inl a)
    obtain m o1 where a: "a = (m, o1)" by fastforce
    have "o1 = Retry \<or> o1 = Disconnect" using admit_refusal_outcome r Inl a by blast
    with assms \<open>check_request _ _ _ _ = Inr cd\<close> r Inl a show thesis
      by (intro locked [OF Inr r]) (auto simp: handle_v3_def send_response_def send_keeps_registry(2)
          split: prod.splits option.splits)
  next
    case (Inr cm)
    have "(out, w') = announce h ctx req cd cm w1"
      using assms \<open>check_request _ _ _ _ = Inr cd\<close> r Inr by (simp add: handle_v3_def)
    then have "\<exists>d. out = Committed (cm_session cm) d" "w' = snd (announce h ctx req cd cm w1)"
      using announce_session [of h ctx req cd cm w1 out w'] by (auto dest: arg_cong [where f = snd])
    then show thesis
      using Inr only_sends_registry [OF announce_only]
      by (intro locked [OF \<open>check_request _ _ _ _ = Inr cd\<close> r]) auto
  qed
qed

lemma dispatch_splits:
  assumes d: "dispatch S T s c m = Some (flow, c', s')"
  obtains (quiet) "same_registry (sv_world s) (sv_world s')" "c' = c"
    | (admitted) req cd r w1 where
        "check_request (h_crypto (si_host S)) (si_config S) (register_context c) req = Inr cd"
        "admit (h_crypto (si_host S)) (tu_lock_time T) (tu_entropy T) (register_context c) req cd
           (sv_world s) = Some (r, w1)" "same_registry w1 (sv_world s')"
        "c' = (case r of Inl _ \<Rightarrow> c | Inr cm \<Rightarrow> enrolled c (cm_session cm))"
proof (cases "is_register_v3 m")
  case True
  obtain req where "on_register_v3 S T s c req = Some (flow, c', s')" using dispatch_v3 [OF d True] .
  then show thesis
  proof (cases rule: on_register_v3_cases)
    case (refused out w)
    from refused(1) show thesis
    proof (cases rule: registration_splits)
      case refused
      with \<open>c' = c\<close> \<open>s' = _\<close> show thesis by (intro quiet) simp_all
    next
      case (locked cd r w1)
      with \<open>c' = c\<close> \<open>s' = _\<close> \<open>out = _ \<or> _\<close> show thesis
        by (intro admitted [OF locked(1,2)]) (auto split: sum.splits)
    qed
  next
    case (committed session d w)
    from committed(1) show thesis
    proof (cases rule: registration_splits)
      case (locked cd r w1)
      with committed(2,3) show thesis by (intro admitted [OF locked(1,2)]) (auto split: sum.splits)
    qed auto
  qed
next
  case False
  from dispatch_quiet [OF d this] show thesis by (intro quiet) (auto simp: quiet_def)
qed

text \<open>So is every text frame.\<close>

lemma text_splits:
  assumes "handle_text S T s c raw = Some (flow, c', s')"
  obtains (quiet) "same_registry (sv_world s) (sv_world s')" "c' = c"
    | (moderated) session m w1 where "moderation_session c = Some session"
        "moderation_locked m (sv_world s) session (tu_rotation T) = Inr w1"
        "same_registry w1 (sv_world s')" "c' = c"
    | (admitted) req cd r w1 where
        "check_request (h_crypto (si_host S)) (si_config S) (register_context c) req = Inr cd"
        "admit (h_crypto (si_host S)) (tu_lock_time T) (tu_entropy T) (register_context c) req cd
           (sv_world s) = Some (r, w1)" "same_registry w1 (sv_world s')"
        "c' = (case r of Inl _ \<Rightarrow> c | Inr cm \<Rightarrow> enrolled c (cm_session cm))"
proof (cases "si_parse S raw")
  case (Inl e)
  with assms own_json_registry show thesis by (intro quiet) (auto simp: handle_text_def)
next
  case (Inr m)
  obtain d w1 where mod: "handle_moderation_message (si_host S) (sv_world s) (tu_rotation T) m
      (moderation_session c) = (d, w1)" by fastforce
  note res = assms [unfolded handle_text_def Let_def Inr sum.case mod prod.case]
  show thesis
  proof (cases "\<not> validate_message_shape m \<or>
      is_some_and (claimed_sender m) (\<lambda>claimed. co_client_id c \<noteq> Some claimed)")
    case True
    with res own_json_registry show thesis by (intro quiet) (auto split: if_splits)
  next
    case False
    show thesis
    proof (cases "d = NotHandled")
      case True
      with False res have "dispatch S T s c m = Some (flow, c', s')" by simp
      then show thesis by (elim dispatch_splits) (auto intro: quiet admitted)
    next
      case handled: False
      then have "c' = c" "sv_world s' = w1" using False res by (cases d; auto)+
      with mod show thesis by (elim moderation_splits) (auto intro: quiet moderated)
    qed
  qed
qed

lemma register_context_limiter [simp]: "register_context (c\<lparr>co_limiter := l\<rparr>) = register_context c"
  "moderation_session (c\<lparr>co_limiter := l\<rparr>) = moderation_session c"
  by (auto simp: register_context_def moderation_session_def split: option.split)

text \<open>A turn changes the registry in at most one locked section.\<close>

lemma turn_splits:
  assumes "handle_incoming S T s c i = Some (flow, c', s')"
  obtains (no_section) l where "same_registry (sv_world s) (sv_world s')" "c' = c\<lparr>co_limiter := l\<rparr>"
    | (moderation) l session m w1 where "moderation_session c = Some session"
        "moderation_locked m (sv_world s) session (tu_rotation T) = Inr w1"
        "same_registry w1 (sv_world s')" "c' = c\<lparr>co_limiter := l\<rparr>"
    | (admission) l req cd r w1 where
        "check_request (h_crypto (si_host S)) (si_config S) (register_context c) req = Inr cd"
        "admit (h_crypto (si_host S)) (tu_lock_time T) (tu_entropy T) (register_context c) req cd
           (sv_world s) = Some (r, w1)" "same_registry w1 (sv_world s')"
        "c' = (case r of Inl _ \<Rightarrow> c\<lparr>co_limiter := l\<rparr> | Inr cm \<Rightarrow> enrolled (c\<lparr>co_limiter := l\<rparr>) (cm_session cm))"
proof (cases "\<exists>msg. i = Received msg")
  case True
  then obtain msg where "handle_frame S T s c msg = Some (flow, c', s')" using assms by (auto simp: handle_incoming_def)
  then show thesis
  proof (cases rule: handle_frame_cases)
    case closed
    then show thesis by (auto simp: closed_effect intro: no_section)
  next
    case idle
    then show thesis by (auto intro: no_section)
  next
    case (parsed l raw)
    from parsed(3) show thesis
    proof (cases rule: text_splits)
      case quiet
      then show thesis by (rule no_section)
    next
      case (moderated session m w1)
      from moderated show thesis by (intro moderation [of session m w1 l]) simp_all
    next
      case (admitted req cd r w1)
      from admitted show thesis by (intro admission [of req cd r w1 l]) simp_all
    qed
  qed
next
  case False
  then have "c' = c" "s' = s" using assms by (cases i; simp add: handle_incoming_def)+
  then show thesis by (intro no_section [of "co_limiter c"]) simp_all
qed

text \<open>The end of a turn: the remaining writes, the node table, and the loop goes on or ends.\<close>

lemma turn_tail:
  assumes "k < length (sy_tasks y)" "same_registry w (sv_world s)"
    and "t = (sy_tasks y ! k)\<lparr>tk_conn := c, tk_phase := Running\<rparr>"
  shows "(atomic_step S)\<^sup>*\<^sup>* (with_task k t (with_world w y))
    (y\<lparr>sy_server := s, sy_tasks := (sy_tasks y)[k := (sy_tasks y ! k)\<lparr>tk_conn := c,
        tk_phase := if flow = Break then Closing else Running\<rparr>]\<rparr>)"
proof -
  let ?y1 = "with_task k t (with_world w y)"
  let ?y2 = "with_world (sv_world s) ?y1"
  let ?y3 = "?y2\<lparr>sy_server := (sy_server ?y2)\<lparr>sv_community := sv_community s\<rparr>\<rparr>"
  have 1: "atomic_step S ?y1 ?y2" by (rule atomic_step.Send) (use assms(2) in simp)
  have 2: "atomic_step S ?y2 ?y3" by (rule atomic_step.Nodes)
  have 12: "(atomic_step S)\<^sup>*\<^sup>* ?y1 ?y3"
    using 1 2 by (rule converse_rtranclp_into_rtranclp [OF _ r_into_rtranclp])
  have y3: "?y3 = y\<lparr>sy_server := s, sy_tasks := (sy_tasks y)[k := t]\<rparr>"
    by (simp add: with_world_def with_task_def)
  have 3: "atomic_step S ?y3 (with_task k (t\<lparr>tk_phase := Closing\<rparr>) ?y3)"
    by (rule atomic_step.Close) (use assms(1,3) in \<open>simp_all add: y3\<close>)
  show ?thesis
  proof (cases "flow = Break")
    case True
    then have "with_task k (t\<lparr>tk_phase := Closing\<rparr>) ?y3 = y\<lparr>sy_server := s,
        sy_tasks := (sy_tasks y)[k := (sy_tasks y ! k)\<lparr>tk_conn := c, tk_phase := Closing\<rparr>]\<rparr>"
      unfolding y3 by (simp add: with_task_def assms(3))
    with rtranclp.rtrancl_into_rtrancl [OF 12 3] show ?thesis by (simp only: True if_True simp_thms)
  next
    case False
    with 12 [unfolded y3] show ?thesis by (simp only: assms(3) if_False)
  qed
qed

lemma with_task_simps:
  "with_task k t (with_task k t' y) = with_task k t y"
  "with_world w (with_task k t y) = with_task k t (with_world w y)"
  "with_task k t (with_world (the_world y) y) = with_task k t y"
  by (simp_all add: with_task_def with_world_def the_world_def)

text \<open>An admission and the recording of its session, if there is one.\<close>

lemma admit_run:
  assumes "k < length (sy_tasks y)" "t = sy_tasks y ! k" "tk_phase t = Running"
    and "check_request (h_crypto (si_host S)) (si_config S) (register_context (tk_conn t)) req = Inr cd"
    and "admit (h_crypto (si_host S)) now en (register_context (tk_conn t)) req cd (the_world y) = Some (r, w)"
    and "c = (case r of Inl _ \<Rightarrow> tk_conn t | Inr cm \<Rightarrow> enrolled (tk_conn t) (cm_session cm))"
  shows "(atomic_step S)\<^sup>*\<^sup>* y (with_task k (t\<lparr>tk_conn := c, tk_phase := Running\<rparr>) (with_world w y))"
proof (cases r)
  case (Inl a)
  have "t\<lparr>tk_conn := c, tk_phase := Running\<rparr> = t\<lparr>tk_phase := Running\<rparr>" using assms(6) Inl by (cases t) simp
  with atomic_step.Admit [OF assms(1-5)] Inl show ?thesis by (simp add: r_into_rtranclp)
next
  case (Inr cm)
  let ?t = "t\<lparr>tk_phase := Enrolling (cm_session cm)\<rparr>"
  have "atomic_step S y (with_task k ?t (with_world w y))" using atomic_step.Admit [OF assms(1-5)] Inr by simp
  moreover have "atomic_step S (with_task k ?t (with_world w y)) (with_task k (?t\<lparr>tk_conn := enrolled (tk_conn ?t)
      (cm_session cm), tk_phase := Running\<rparr>) (with_task k ?t (with_world w y)))"
    by (rule atomic_step.Enroll) (use assms(1) in simp_all)
  ultimately show ?thesis using assms(6) Inr
    by (simp add: with_task_simps converse_rtranclp_into_rtranclp [OF _ r_into_rtranclp])
qed

lemma turn_simulated:
  assumes "serve_turn S T i k y = Some y'" "k < length (sy_tasks y)" "tk_phase (sy_tasks y ! k) = Running"
  shows "(atomic_step S)\<^sup>*\<^sup>* y y'"
proof -
  let ?t = "sy_tasks y ! k"
  obtain flow c s where run: "handle_incoming S T (sy_server y) (tk_conn ?t) i = Some (flow, c, s)"
    and y': "y' = y\<lparr>sy_server := s, sy_tasks := (sy_tasks y)[k := ?t\<lparr>tk_conn := c,
      tk_phase := if flow = Break then Closing else Running\<rparr>]\<rparr>"
    using assms(1) by (auto simp: serve_turn_def)
  have tail: "(atomic_step S)\<^sup>*\<^sup>* (with_task k (?t\<lparr>tk_conn := c, tk_phase := Running\<rparr>) (with_world w y)) y'"
    if "same_registry w (sv_world s)" for w
    unfolding y' by (rule turn_tail [OF assms(2) that refl])
  define recv where "recv l = with_task k (?t\<lparr>tk_conn := (tk_conn ?t)\<lparr>co_limiter := l\<rparr>\<rparr>) y" for l
  have r1: "(atomic_step S)\<^sup>*\<^sup>* y (recv l)" for l
    unfolding recv_def by (rule r_into_rtranclp, rule atomic_step.Receive [OF assms(2) refl assms(3)])
  have recv: "recv l = with_task k (?t\<lparr>tk_conn := (tk_conn ?t)\<lparr>co_limiter := l\<rparr>, tk_phase := Running\<rparr>) y"
    "sy_tasks (recv l) ! k = ?t\<lparr>tk_conn := (tk_conn ?t)\<lparr>co_limiter := l\<rparr>\<rparr>" "k < length (sy_tasks (recv l))"
    "the_world (recv l) = sv_world (sy_server y)" for l
    using assms(2,3) by (cases ?t; simp add: recv_def the_world_def with_task_def)+
  from run show ?thesis
  proof (cases rule: turn_splits)
    case (no_section l)
    have "with_task k (?t\<lparr>tk_conn := c, tk_phase := Running\<rparr>) (with_world (sv_world (sy_server y)) y) = recv l"
      unfolding recv(1) no_section(2) the_world_def [symmetric] with_task_simps ..
    with tail [OF no_section(1)] r1 [of l] show ?thesis by (metis rtranclp_trans)
  next
    case (moderation l session m w1)
    have "atomic_step S (recv l) (with_world w1 (recv l))"
      by (rule atomic_step.Moderate [OF recv(3) refl]) (use moderation assms(3) in \<open>simp_all add: recv(2,4)\<close>)
    moreover have "(atomic_step S)\<^sup>*\<^sup>* (with_world w1 (recv l)) y'"
      using tail [OF moderation(3)] unfolding recv(1) with_task_simps moderation(4) .
    ultimately show ?thesis using r1 [of l] by (meson rtranclp.rtrancl_into_rtrancl rtranclp_trans)
  next
    case (admission l req cd r w1)
    have "(atomic_step S)\<^sup>*\<^sup>* (recv l) (with_task k ((sy_tasks (recv l) ! k)\<lparr>tk_conn := c, tk_phase := Running\<rparr>)
        (with_world w1 (recv l)))"
      by (rule admit_run [OF recv(3) refl, where req = req and cd = cd and now = "tu_lock_time T" and en = "tu_entropy T" and r = r])
        (use admission assms(3) in \<open>simp_all add: recv(2,4) split: sum.split\<close>)
    moreover have "with_task k ((sy_tasks (recv l) ! k)\<lparr>tk_conn := c, tk_phase := Running\<rparr>) (with_world w1 (recv l)) =
        with_task k (?t\<lparr>tk_conn := c, tk_phase := Running\<rparr>) (with_world w1 y)"
      by (simp add: recv(2)) (simp add: recv_def with_task_simps)
    ultimately show ?thesis using r1 [of l] tail [OF admission(3)] by (metis rtranclp_trans)
  qed
qed

text \<open>A cleanup is its locked section and then only writes.\<close>

lemma departed_cleanup: "same_registry (departed w rnd c) (cleanup h w rnd c)"
proof (cases "\<exists>i j d w1. co_client_id c = Some i \<and> co_lobby_id c = Some j \<and>
    depart_locked w rnd i j (co_sender c) = Some (d, w1)")
  case True
  then obtain i j d w1 where c: "co_client_id c = Some i" "co_lobby_id c = Some j"
    and d: "depart_locked w rnd i j (co_sender c) = Some (d, w1)" by blast
  with departed_Some [OF c d] cleanup_registry [OF c d] show ?thesis by simp
next
  case False
  then show ?thesis by (auto simp: departed_def cleanup_def split: option.splits prod.splits)
qed

lemma finish_simulated:
  assumes "finish_connection (si_host S) rnd k y = Some y'" "k < length (sy_tasks y)"
    and "tk_phase (sy_tasks y ! k) = Closing"
  shows "(atomic_step S)\<^sup>*\<^sup>* y y'"
proof -
  let ?t = "sy_tasks y ! k" and ?w = "cleanup (si_host S) (the_world y) rnd (tk_conn (sy_tasks y ! k))"
  obtain a where a: "drop_active (tk_lease ?t) (sy_admission y) = Some a"
    "y' = (with_world ?w y)\<lparr>sy_admission := a, sy_tasks := without k (sy_tasks y)\<rparr>"
    using assms(1) by (auto simp: finish_connection_def Let_def with_world_def the_world_def)
  let ?y1 = "with_task k (?t\<lparr>tk_phase := Departed\<rparr>) (with_world (departed (the_world y) rnd (tk_conn ?t)) y)"
  have 1: "atomic_step S y ?y1" by (rule atomic_step.Depart [OF assms(2) refl assms(3)])
  have 2: "atomic_step S ?y1 (with_world ?w ?y1)" 
    by (intro atomic_step.Send) (simp add: departed_cleanup)
  have "atomic_step S (with_world ?w ?y1)
      ((with_world ?w ?y1)\<lparr>sy_admission := a, sy_tasks := without k (sy_tasks (with_world ?w ?y1))\<rparr>)"
    by (rule atomic_step.Release) (use assms(2) a(1) in simp_all)
  moreover have "(with_world ?w ?y1)\<lparr>sy_admission := a, sy_tasks := without k (sy_tasks (with_world ?w ?y1))\<rparr> = y'"
    unfolding a(2) by (simp add: with_world_def with_task_def)
  ultimately have 3: "atomic_step S (with_world ?w ?y1) y'" by simp
  from 1 2 3 show ?thesis by (meson converse_rtranclp_into_rtranclp r_into_rtranclp)
qed

text \<open>
  An upgrade at one go is the request, the callback, the return of the pending lease and the
  challenge, or it ends by giving back what it holds. The handshake in progress stands last.
\<close>

definition adding :: "Handshake \<Rightarrow> Admission \<Rightarrow> System \<Rightarrow> System" where
  "adding hs a y = y\<lparr>sy_admission := a, sy_handshakes := sy_handshakes y @ [hs]\<rparr>"

lemma adding_simps:
  "sy_handshakes (adding hs a y) = sy_handshakes y @ [hs]" "sy_admission (adding hs a y) = a"
  "sy_tasks (adding hs a y) = sy_tasks y" "sy_server (adding hs a y) = sy_server y"
  "(adding hs a y)\<lparr>sy_admission := a', sy_handshakes := sy_handshakes y @ [hs']\<rparr> = adding hs' a' y"
  "(adding hs a y)\<lparr>sy_handshakes := sy_handshakes y @ [hs']\<rparr> = adding hs' a y"
  "without (length xs) (xs @ [x]) = xs"
  by (simp_all add: adding_def without_def)

lemma adding_steps:
  "hs_phase hs = Classified \<Longrightarrow> acquire_slot hs a = (hs', a') \<Longrightarrow>
   atomic_step S (adding hs a y) (adding hs' a' y)"
  "hs_phase hs = Admitted \<Longrightarrow> atomic_step S (adding hs a y) (adding (hs\<lparr>hs_phase := Failed None\<rparr>) a y)"
  "hs_phase hs \<noteq> Classified \<Longrightarrow> drop_pending (hs_pending hs) a = Some a' \<Longrightarrow>
   atomic_step S (adding hs a y) (adding (hs\<lparr>hs_pending := None\<rparr>) a' y)"
  "hs_phase hs = Failed r \<Longrightarrow> hs_pending hs = None \<Longrightarrow> drop_slot (hs_active hs) a = Some a' \<Longrightarrow>
   atomic_step S (adding hs a y) (y\<lparr>sy_admission := a'\<rparr>)"
  using atomic_step.Acquire [of "length (sy_handshakes y)" "adding hs a y" hs' a' S]
    atomic_step.GiveUp [of "length (sy_handshakes y)" "adding hs a y" hs S]
    atomic_step.DropPending [of "length (sy_handshakes y)" "adding hs a y" hs a' S]
    atomic_step.DropActive [of "length (sy_handshakes y)" "adding hs a y" hs r a' S]
  by (simp_all add: adding_simps) (simp add: adding_def)

lemma failed_run:
  assumes "hs_phase hs = Failed r" "drop_pending (hs_pending hs) a = Some a1" "drop_slot (hs_active hs) a1 = Some a2"
  shows "(atomic_step S)\<^sup>*\<^sup>* (adding hs a y) (y\<lparr>sy_admission := a2\<rparr>)"
proof -
  have "atomic_step S (adding hs a y) (adding (hs\<lparr>hs_pending := None\<rparr>) a1 y)"
    by (rule adding_steps(3)) (use assms in simp_all)
  moreover have "atomic_step S (adding (hs\<lparr>hs_pending := None\<rparr>) a1 y) (y\<lparr>sy_admission := a2\<rparr>)"
    by (rule adding_steps(4)) (use assms in simp_all)
  ultimately show ?thesis by (meson converse_rtranclp_into_rtranclp r_into_rtranclp)
qed

lemma callback_run:
  assumes "k < length (sy_pending y)" "sy_pending y ! k = (lease, addr)"
    and "handshake_callback (sy_admission y) lease addr headers = Some (hs, a)"
  shows "(atomic_step S)\<^sup>*\<^sup>* y (adding hs a (y\<lparr>sy_pending := without k (sy_pending y)\<rparr>))"
proof -
  let ?y = "y\<lparr>sy_pending := without k (sy_pending y)\<rparr>"
  obtain hs1 a1 where c: "classify (sy_admission y) lease addr headers = Some (hs1, a1)"
    "(hs, a) = (if hs_phase hs1 = Classified then acquire_slot hs1 a1 else (hs1, a1))"
    using assms(3) by (auto simp: handshake_callback_def)
  have "adding hs1 a1 ?y = y\<lparr>sy_admission := a1, sy_pending := without k (sy_pending y),
      sy_handshakes := sy_handshakes y @ [hs1]\<rparr>" by (simp add: adding_def)
  then have 1: "atomic_step S y (adding hs1 a1 ?y)" using atomic_step.Request [OF assms(1,2) c(1)] by simp
  show ?thesis
  proof (cases "hs_phase hs1 = Classified")
    case True
    with c(2) have "atomic_step S (adding hs1 a1 ?y) (adding hs a ?y)" by (intro adding_steps(1)) simp_all
    with 1 show ?thesis by (meson converse_rtranclp_into_rtranclp r_into_rtranclp)
  next
    case False
    with 1 c(2) show ?thesis by (simp add: r_into_rtranclp)
  qed
qed

lemma classify_result:
  assumes "classify a lease addr headers = Some (hs, a')"
  shows "hs_active hs = None \<and> snd (hs_source hs) = snd addr \<and>
    (hs_phase hs = Classified \<or> (\<exists>reason. hs_phase hs = Failed (Some reason)))"
proof (cases "admission_source a (fst addr) headers")
  case (Inr ip)
  with assms obtain r where "resolve_source (pending_pool a) lease ip = Some r" by (auto simp: classify_def)
  with assms Inr show ?thesis by (cases r) (auto simp: classify_def)
qed (use assms in \<open>auto simp: classify_def\<close>)

lemma acquire_result:
  assumes "acquire_slot hs a = (hs', a')"
  shows "(\<exists>reason. hs_phase hs' = Failed (Some reason) \<and> hs_active hs' = hs_active hs) \<or>
    hs_phase hs' = Admitted \<and> (\<exists>act. hs_active hs' = Some act) \<and> hs_source hs' = hs_source hs"
  using assms by (auto simp: acquire_slot_def split: sum.splits prod.splits)

lemma callback_result:
  assumes "handshake_callback a lease addr headers = Some (hs, a')"
  shows "(\<exists>reason. hs_phase hs = Failed (Some reason) \<and> hs_active hs = None) \<or>
    hs_phase hs = Admitted \<and> (\<exists>act. hs_active hs = Some act) \<and> snd (hs_source hs) = snd addr"
proof -
  obtain hs1 a1 where c: "classify a lease addr headers = Some (hs1, a1)"
    "(hs, a') = (if hs_phase hs1 = Classified then acquire_slot hs1 a1 else (hs1, a1))"
    using assms by (auto simp: handshake_callback_def)
  show ?thesis
  proof (cases "hs_phase hs1 = Classified")
    case True
    with c(2) have "acquire_slot hs1 a1 = (hs, a')" by simp
    from acquire_result [OF this] classify_result [OF c(1)] show ?thesis by auto
  next
    case False
    with c classify_result [OF c(1)] show ?thesis by simp
  qed
qed

text \<open>Once the pending lease is back: the challenge is sent, and the connection is served or not.\<close>

lemma challenge_run:
  assumes "hs_phase hs = Admitted" "hs_pending hs = None" "hs_active hs = Some act"
    and "sender \<notin> (co_sender \<circ> tk_conn) ` set (sy_tasks y)"
    and "open_connection (si_host S) (the_world y) rnd sender disconnect (hs_source hs) born now = (c, w)"
    and "case c of
        None \<Rightarrow> map_option (\<lambda>a2. (with_world w y)\<lparr>sy_admission := a2\<rparr>) (drop_active act a) = Some y'
      | Some c \<Rightarrow> y' = (with_world w y)\<lparr>sy_admission := a,
          sy_tasks := sy_tasks y @ [\<lparr>tk_conn = c, tk_lease = act, tk_phase = Running\<rparr>]\<rparr>"
  shows "(atomic_step S)\<^sup>*\<^sup>* (adding hs a y) y'"
proof (cases c)
  case (Some c')
  have "atomic_step S (adding hs a y) ((with_world w (adding hs a y))\<lparr>sy_handshakes := sy_handshakes y,
      sy_tasks := sy_tasks y @ [\<lparr>tk_conn = c', tk_lease = act, tk_phase = Running\<rparr>]\<rparr>)"
    using atomic_step.Challenge [of "length (sy_handshakes y)" "adding hs a y" hs act sender S rnd disconnect born now c' w]
      assms(1-5) Some by (simp add: adding_simps the_world_def)
  moreover have "(with_world w (adding hs a y))\<lparr>sy_handshakes := sy_handshakes y,
      sy_tasks := sy_tasks y @ [\<lparr>tk_conn = c', tk_lease = act, tk_phase = Running\<rparr>]\<rparr> = y'"
    using assms(6) Some by (cases y) (simp add: with_world_def adding_def)
  ultimately show ?thesis by (simp add: r_into_rtranclp)
next
  case None
  then obtain a2 where a2: "drop_active act a = Some a2" "y' = (with_world w y)\<lparr>sy_admission := a2\<rparr>"
    using assms(6) by auto
  have "atomic_step S (adding hs a y) (with_world w (adding hs a y))"
    by (rule atomic_step.Send) (use open_connection_new(1) [OF assms(5)] in \<open>simp add: the_world_def adding_simps\<close>)
  moreover have "with_world w (adding hs a y) = adding hs a (with_world w y)"
    by (simp add: with_world_def adding_def)
  moreover have "atomic_step S (adding hs a (with_world w y)) (adding (hs\<lparr>hs_phase := Failed None\<rparr>) a (with_world w y))"
    by (rule adding_steps(2) [OF assms(1)])
  moreover have "atomic_step S (adding (hs\<lparr>hs_phase := Failed None\<rparr>) a (with_world w y)) y'"
    unfolding a2(2) by (rule adding_steps(4)) (use assms(2,3) a2(1) in \<open>simp_all add: drop_slot_def\<close>)
  ultimately show ?thesis by (metis converse_rtranclp_into_rtranclp r_into_rtranclp)
qed

lemma admitted_run:
  assumes "hs_phase hs = Admitted" "hs_active hs = Some act" "drop_pending (hs_pending hs) a = Some a1"
    and "sender \<notin> (co_sender \<circ> tk_conn) ` set (sy_tasks y)"
    and "open_connection (si_host S) (the_world y) rnd sender disconnect (hs_source hs) born now = (c, w)"
    and "(if \<not> written then map_option (\<lambda>a2. y\<lparr>sy_admission := a2\<rparr>) (drop_active act a1)
      else case c of
          None \<Rightarrow> map_option (\<lambda>a2. (with_world w y)\<lparr>sy_admission := a2\<rparr>) (drop_active act a1)
        | Some c \<Rightarrow> Some ((with_world w y)\<lparr>sy_admission := a1,
            sy_tasks := sy_tasks y @ [\<lparr>tk_conn = c, tk_lease = act, tk_phase = Running\<rparr>]\<rparr>)) = Some y'"
  shows "(atomic_step S)\<^sup>*\<^sup>* (adding hs a y) y'"
proof (cases written)
  case False
  then obtain a2 where a2: "drop_active act a1 = Some a2" "y' = y\<lparr>sy_admission := a2\<rparr>"
    using assms(6) by auto
  have "(atomic_step S)\<^sup>*\<^sup>* (adding (hs\<lparr>hs_phase := Failed None\<rparr>) a y) y'"
    unfolding a2(2) by (rule failed_run) (use assms(2,3) a2(1) in \<open>simp_all add: drop_slot_def\<close>)
  with adding_steps(2) [OF assms(1)] show ?thesis by (rule converse_rtranclp_into_rtranclp)
next
  case True
  have "atomic_step S (adding hs a y) (adding (hs\<lparr>hs_pending := None\<rparr>) a1 y)"
    by (rule adding_steps(3)) (use assms(1,3) in simp_all)
  moreover have "(atomic_step S)\<^sup>*\<^sup>* (adding (hs\<lparr>hs_pending := None\<rparr>) a1 y) y'"
    by (rule challenge_run [where act = act and sender = sender and c = c and w = w])
      (use assms True in \<open>auto split: option.splits\<close>)
  ultimately show ?thesis by (rule converse_rtranclp_into_rtranclp)
qed

lemma upgrade_simulated:
  assumes "k < length (sy_pending y)" "sender \<notin> (co_sender \<circ> tk_conn) ` set (sy_tasks y)"
    and "upgrade_connection (si_host S) k request rnd sender disconnect born now y = Some y'"
  shows "(atomic_step S)\<^sup>*\<^sup>* y y'"
proof -
  let ?y = "y\<lparr>sy_pending := without k (sy_pending y)\<rparr>"
  obtain lease addr where k: "sy_pending y ! k = (lease, addr)" by (rule prod.exhaust)
  show ?thesis
  proof (cases request)
    case None
    then obtain a where a: "drop_pending (Some lease) (sy_admission y) = Some a" "y' = ?y\<lparr>sy_admission := a\<rparr>"
      using assms(3) k by (auto simp: upgrade_connection_def)
    have "atomic_step S y (adding (given_up lease addr) (sy_admission y) ?y)"
      using atomic_step.NoRequest [OF assms(1) k, of S] by (simp add: adding_def)
    moreover have "(atomic_step S)\<^sup>*\<^sup>* (adding (given_up lease addr) (sy_admission y) ?y) y'"
      unfolding a(2) by (rule failed_run [where r = None and ?a1.0 = a])
        (use a(1) in \<open>simp_all add: given_up_def drop_slot_def\<close>)
    ultimately show ?thesis by (rule converse_rtranclp_into_rtranclp)
  next
    case (Some rq)
    then obtain headers written where rq: "request = Some (headers, written)" by (cases rq) auto
    obtain hs a a1 where cb: "handshake_callback (sy_admission y) lease addr headers = Some (hs, a)"
      and a1: "drop_pending (hs_pending hs) a = Some a1"
      using assms(3) k rq handshake_pieces [of "sy_admission y" lease addr headers]
      by (auto simp: upgrade_connection_def Let_def Option.bind_eq_Some_conv)
    note run = callback_run [OF assms(1) k cb, of S]
    note up = assms(3) [unfolded upgrade_connection_def k Let_def prod.case rq option.case handshake_pieces cb
        option.map bind.bind_lunit a1]
    from callback_result [OF cb] show ?thesis
    proof (elim disjE exE conjE)
      fix reason
      assume f: "hs_phase hs = Failed (Some reason)" "hs_active hs = None"
      then have "y' = ?y\<lparr>sy_admission := a1\<rparr>" using up by simp
      moreover have "(atomic_step S)\<^sup>*\<^sup>* (adding hs a ?y) (?y\<lparr>sy_admission := a1\<rparr>)"
        by (rule failed_run [OF f(1) a1]) (simp add: f(2) drop_slot_def)
      ultimately show ?thesis using run by simp
    next
      fix act
      assume adm: "hs_phase hs = Admitted" "hs_active hs = Some act" "snd (hs_source hs) = snd addr"
      obtain c w where c: "open_connection (si_host S) (the_world y) rnd sender disconnect (hs_source hs) born now = (c, w)"
        by fastforce
      have src: "(fst (hs_source hs), snd addr) = hs_source hs" using adm(3) by (simp add: prod_eq_iff)
      have "(atomic_step S)\<^sup>*\<^sup>* (adding hs a ?y) y'"
        by (rule admitted_run [OF adm(1,2) a1, where c = c and w = w and written = written])
          (use adm c assms(2) up src in \<open>auto simp: the_world_def with_world_def split: option.splits if_splits\<close>)
      with run show ?thesis by (rule rtranclp_trans)
    qed
  qed
qed

text \<open>Every step of whole turns is a run of atomic steps.\<close>

lemma step_simulated: "system_step S y y' \<Longrightarrow> (atomic_step S)\<^sup>*\<^sup>* y y'"
proof (induction rule: system_step.induct)
  case (Turn k y T i y')
  then show ?case by (intro turn_simulated)
next
  case (Finish k y rnd y')
  then show ?case by (intro finish_simulated)
next
  case (Sweep y D P during now)
  have "\<exists>m. sweeper_tick S D P during now y = y\<lparr>sy_server := (sy_server y)\<lparr>sv_community := m\<rparr>\<rparr>"
  proof (cases "hm_len (cm_nodes (sv_community (sy_server y))) = 0")
    case True
    then show ?thesis by (intro exI [of _ "sv_community (sy_server y)"]) (simp add: sweeper_tick_def)
  qed (auto simp: sweeper_tick_def Let_def)
  then show ?case using atomic_step.Nodes by (metis r_into_rtranclp)
next
  case (Reorder y w)
  then show ?case using atomic_step.Reorder by (simp add: with_world_def the_world_def r_into_rtranclp)
next
  case (Upgrade k y sender request rnd disconnect born now y')
  then show ?case by (intro upgrade_simulated)
qed (intro r_into_rtranclp, rule atomic_step.Accept)

lemma run_simulated: "(system_step S)\<^sup>*\<^sup>* y y' \<Longrightarrow> (atomic_step S)\<^sup>*\<^sup>* y y'"
  by (induction rule: rtranclp_induct) (auto intro: rtranclp_trans step_simulated)

interpretation system: step_system "\<lambda>y. \<exists>files now. start_system S files now = Some y \<and> a0 = sy_admission y"
  "system_step S" "system_inv S a0"
  by unfold_locales (auto intro: atomic.start_inv atomic.run_inv step_simulated)

text \<open>
  The registry after at most one locked section (an admission, a moderation action or a
  departure), or with its tables in another order.
\<close>

definition one_section :: "crypto \<Rightarrow> World \<Rightarrow> World \<Rightarrow> bool" where
  "one_section C w w' \<longleftrightarrow>
     w' = w \<or> (\<exists>m session rnd. moderation_locked m w session rnd = Inr w') \<or>
     (\<exists>now en ctx req cd r. admit C now en ctx req cd w = Some (r, w')) \<or>
     (\<exists>rnd c. w' = departed w rnd c) \<or> reordered w w'"

lemma one_section_refl: "one_section C w w"
  by (simp add: one_section_def)

lemma turn_one_section:
  assumes "handle_incoming S T s c i = Some (flow, c', s')"
  shows "\<exists>w. one_section (h_crypto (si_host S)) (sv_world s) w \<and> same_registry w (sv_world s')"
  using assms
proof (cases rule: turn_splits)
  case (no_section l)
  show ?thesis by (intro exI conjI, rule one_section_refl, rule no_section(1))
next
  case (moderation l session m w1)
  have "one_section (h_crypto (si_host S)) (sv_world s) w1" unfolding one_section_def using moderation(2) by blast
  with moderation(3) show ?thesis by blast
next
  case (admission l req cd r w1)
  have "one_section (h_crypto (si_host S)) (sv_world s) w1" unfolding one_section_def using admission(2) by blast
  with admission(3) show ?thesis by blast
qed

lemma step_one_section:
  assumes "system_step S y y'"
  shows "\<exists>w. one_section (h_crypto (si_host S)) (the_world y) w \<and> same_registry w (the_world y')"
  using assms
proof cases
  case (Accept addr)
  then have "the_world y' = the_world y"
    by (simp add: accept_connection_def the_world_def split: sum.splits prod.splits)
  then show ?thesis using one_section_refl by (metis same_registry_refl)
next
  case (Upgrade k sender request rnd disconnect born now)
  then show ?thesis using upgrade_tasks one_section_refl unfolding the_world_def by blast
next
  case (Turn k T i)
  then obtain flow c s where "handle_incoming S T (sy_server y) (tk_conn (sy_tasks y ! k)) i = Some (flow, c, s)"
    "sy_server y' = s" by (auto simp: serve_turn_def)
  then show ?thesis using turn_one_section unfolding the_world_def by blast
next
  case (Finish k rnd)
  then have "the_world y' = cleanup (si_host S) (the_world y) rnd (tk_conn (sy_tasks y ! k))"
    by (auto simp: finish_connection_def Let_def the_world_def)
  then show ?thesis using departed_cleanup unfolding one_section_def by metis
next
  case (Sweep D P during now)
  then have "the_world y' = the_world y" by (simp add: sweeper_tick_def Let_def the_world_def)
  then show ?thesis using one_section_refl by (metis same_registry_refl)
next
  case (Reorder w)
  then show ?thesis unfolding one_section_def the_world_def by fastforce
qed

end
