(* ===== verification/Lobby_Service.thy ===== *)
theory Lobby_Service
  imports Interleaving
begin

text \<open>
  What the server promises its clients, as an abstract machine on the views of the lobbies: a
  lobby is founded, joined, left and moderated, and nothing else happens to it. Every atomic step
  of the server either leaves the views alone or is such an event, caused by a connection that is
  entitled to it: founding and joining by an unregistered connection that has proved the
  identity against its own challenge, leaving by a connection of that member that is closing,
  moderation by a registered connection of the host. \<open>rnd\<close> are the random bytes of the event's
  credential.
\<close>

section \<open>The service\<close>

datatype service_event = Founds rstr | Joins rstr | Leaves rstr | Moderates rstr SignalingMessage

type_synonym service = "rstr \<Rightarrow> lobby_view option"

definition founded :: "rstr \<Rightarrow> rstr \<Rightarrow> bool \<Rightarrow> lobby_view" where
  "founded token cid passwordless =
     \<lparr>v_members = {cid}, v_host = cid, v_muted = {}, v_limit = None, v_listed = False,
      v_open = passwordless, v_token = token, v_epoch = 1\<rparr>"

definition elsewhere :: "rstr \<Rightarrow> rstr \<Rightarrow> service \<Rightarrow> bool" where
  "elsewhere cid lid V \<longleftrightarrow> (\<exists>lid' v. lid' \<noteq> lid \<and> V lid' = Some v \<and> cid \<in> v_members v)"

definition room_for :: "rstr \<Rightarrow> lobby_view \<Rightarrow> bool" where
  "room_for cid v \<longleftrightarrow>
     card (insert cid (v_members v)) \<le> MAX_LOBBY_MEMBERS \<and>
     (\<forall>n. v_limit v = Some n \<longrightarrow> cid \<notin> v_members v \<longrightarrow> card (v_members v) < unat n)"

inductive service_step :: "rstr \<Rightarrow> service_event \<Rightarrow> service \<Rightarrow> service \<Rightarrow> bool" where
  Founding: "V lid = None \<Longrightarrow> \<not> elsewhere cid lid V \<Longrightarrow>
    service_step lid (Founds cid) V (V(lid := Some (founded (generate_chat_token rnd) cid passwordless)))"
| Joining: "V lid = Some v \<Longrightarrow> \<not> elsewhere cid lid V \<Longrightarrow> room_for cid v \<Longrightarrow>
    service_step lid (Joins cid) V
      (V(lid := Some (spec_rotate (generate_chat_token rnd) (v\<lparr>v_members := insert cid (v_members v)\<rparr>))))"
| Leaving: "V lid = Some v \<Longrightarrow> cid \<in> v_members v \<Longrightarrow>
    v_members v = {cid} \<or> successor \<in> v_members v - {cid} \<Longrightarrow>
    service_step lid (Leaves cid) V (V(lid := spec_depart (generate_chat_token rnd) cid successor v))"
| Moderating: "V lid = Some v \<Longrightarrow> v_host v = actor \<Longrightarrow> actor \<in> v_members v \<Longrightarrow>
    service_step lid (Moderates actor m) V (V(lid := Some (spec_moderate (generate_chat_token rnd) m v)))"

text \<open>The connection that may cause an event.\<close>

definition proves_identity :: "crypto \<Rightarrow> Conn \<Rightarrow> rstr \<Rightarrow> rstr \<Rightarrow> bool" where
  "proves_identity C c lid cid \<longleftrightarrow>
     \<not> co_is_registered c \<and>
     (\<exists>lobby_name ip key signature chat domain.
        lid = generate_lobby_id C lobby_name \<and>
        verify_registration_identity C (co_challenge c) lobby_name ip key signature = Some (cid, chat, domain))"

definition entitled :: "crypto \<Rightarrow> Task \<Rightarrow> rstr \<Rightarrow> service_event \<Rightarrow> bool" where
  "entitled C t lid e \<longleftrightarrow>
     (case e of
        Founds cid \<Rightarrow> tk_phase t = Running \<and> proves_identity C (tk_conn t) lid cid
      | Joins cid \<Rightarrow> tk_phase t = Running \<and> proves_identity C (tk_conn t) lid cid
      | Leaves cid \<Rightarrow> tk_phase t = Closing \<and> co_client_id (tk_conn t) = Some cid \<and>
          co_lobby_id (tk_conn t) = Some lid
      | Moderates actor m \<Rightarrow> tk_phase t = Running \<and> co_is_registered (tk_conn t) \<and>
          co_client_id (tk_conn t) = Some actor \<and> co_lobby_id (tk_conn t) = Some lid)"

section \<open>The sections of the server as events\<close>

lemma members_lobby_abs: "v_members (lobby_abs l) = {i. hm_contains (lb_clients l) i}"
  by (simp add: lobby_abs_def)

lemma card_members:
  assumes "hm_wf (lb_clients l)"
  shows "card (v_members (lobby_abs l)) = hm_len (lb_clients l)"
proof -
  have "v_members (lobby_abs l) = set (hm_keys (lb_clients l))"
    by (auto simp: members_lobby_abs hm_contains_iff)
  moreover have "length (hm_keys (lb_clients l)) = hm_len (lb_clients l)"
    by (simp add: hm_keys_def hm_len_def)
  moreover have "distinct (hm_keys (lb_clients l))" using assms by (simp add: hm_wf_def hm_keys_def)
  ultimately show ?thesis by (metis distinct_card)
qed

lemma elsewhere_view:
  "elsewhere cid lid (view w) \<longleftrightarrow> (\<exists>lid'. lid' \<noteq> lid \<and> lobby_client w lid' cid \<noteq> None)"
proof -
  have "(\<exists>v. view w lid' = Some v \<and> cid \<in> v_members v) \<longleftrightarrow> lobby_client w lid' cid \<noteq> None" for lid'
    by (cases "hm_get (w_lobbies w) lid'") (simp_all add: view_def members_lobby_abs hm_contains_def lobby_client_def)
  then show ?thesis unfolding elsewhere_def by blast
qed

lemma lobby_abs_entered:
  "lobby_abs (entered_lobby en ctx req cd g l) =
     (let v = (lobby_abs l)\<lparr>v_members := insert (cd_client_id cd) (v_members (lobby_abs l))\<rparr>
      in if lb_clients l \<noteq> [] then spec_rotate (generate_chat_token (en_rotation en)) v else v)"
proof -
  have eq: "lobby_abs (l\<lparr>lb_clients := hm_insert i x (lb_clients l)\<rparr>) =
      (lobby_abs l)\<lparr>v_members := insert i (v_members (lobby_abs l))\<rparr>" for i x
    by (auto simp: lobby_abs_def hm_contains_def hm.get_ins)
  show ?thesis
    unfolding entered_lobby_def Let_def by (simp only: if_distrib [of lobby_abs] lobby_abs_rotate eq)
qed

lemma lobby_abs_new:
  "lobby_abs (entered_lobby en ctx req cd g (new_lobby C en n pw (cd_client_id cd))) =
     founded (generate_chat_token (en_token en)) (cd_client_id cd) (pw = [])"
  by (simp add: lobby_abs_entered) (simp add: lobby_abs_def new_lobby_def founded_def Let_def hm_contains_def hm_get_def)

lemma room_for_lobby:
  assumes "lobby_inv C lid l" "\<not> lobby_full l cid"
  shows "room_for cid (lobby_abs l)"
proof -
  have wf: "hm_wf (lb_clients l)" using assms(1) by (simp add: lobby_inv_def clients_inv_def)
  have small: "hm_len (lb_clients l) < 64" using assms(2) by (simp add: lobby_full_def config_simps)
  then have u: "unat (of_nat (hm_len (lb_clients l)) :: u32) = hm_len (lb_clients l)" by (simp add: unat_of_nat)
  have "card (insert cid (v_members (lobby_abs l))) \<le> 64"
    using card_insert_le_m1 [of 64 "v_members (lobby_abs l)" cid] small card_members [OF wf] by simp
  moreover have "card (v_members (lobby_abs l)) < unat n"
    if "v_limit (lobby_abs l) = Some n" "cid \<notin> v_members (lobby_abs l)" for n
  proof -
    have "lb_max_players l = Some n" "\<not> hm_contains (lb_clients l) cid"
      using that by (simp_all add: lobby_abs_def)
    then have "\<not> n \<le> of_nat (hm_len (lb_clients l))" using assms(2) by (simp add: lobby_full_def is_some_and_def)
    then show ?thesis using u card_members [OF wf] by (simp add: word_le_nat_alt)
  qed
  ultimately show ?thesis by (simp add: room_for_def config_simps)
qed

lemma admit_event:
  assumes "registry_inv C w" "check_request C cfg ctx req = Inr cd"
    and "admit C now en ctx req cd w = Some (Inr cm, w')"
  shows "service_step (cd_lobby_id cd) (Founds (cd_client_id cd)) (view w) (view w') \<or>
    service_step (cd_lobby_id cd) (Joins (cd_client_id cd)) (view w) (view w')"
proof -
  let ?lid = "cd_lobby_id cd" and ?cid = "cd_client_id cd" and ?l = "joined_lobby C en req cd w"
  obtain g w1 where a: "\<not> is_some_and (existing_client_lobby w ?cid) (\<lambda>e. e \<noteq> ?lid)"
    "check_password C now (quota_source (rc_source_ip ctx), ?lid) ?lid (rq_lobby_password req) w = (None, w1)"
    "\<not> lobby_full ?l ?cid" "(cm, w') = enter_lobby en ctx req cd g ?l (put_lobby ?lid ?l w1)"
    using admit_committed [OF assms(3)] by metis
  have view': "view w' = (view w)(?lid := Some (lobby_abs (entered_lobby en ctx req cd g ?l)))"
    using enter_lobby_registry(1) [OF a(4) [symmetric]] check_password_registry(1) [OF a(2)]
    by (auto simp: view_def fun_eq_iff hm.get_ins)
  have alone: "\<not> elsewhere ?cid ?lid (view w)"
    using existing_client_lobby_free [OF assms(1) a(1)] by (auto simp: elsewhere_view)
  show ?thesis
  proof (cases rule: joined_lobby_cases [of w cd C en req])
    case 1
    have inv: "lobby_inv C ?lid ?l" by (rule registry_lobby [OF assms(1) 1])
    then have "lb_clients ?l \<noteq> []" by (auto simp: lobby_inv_def hm_len_def)
    then have "view w' = (view w)(?lid := Some (spec_rotate (generate_chat_token (en_rotation en)) ((lobby_abs ?l)
        \<lparr>v_members := insert ?cid (v_members (lobby_abs ?l))\<rparr>)))"
      by (simp add: view' lobby_abs_entered)
    moreover have "view w ?lid = Some (lobby_abs ?l)" using 1 by (simp add: view_def)
    ultimately show ?thesis using service_step.Joining [OF _ alone room_for_lobby [OF inv a(3)]] by simp
  next
    case 2
    have "view w ?lid = None" using 2(1) by (simp add: view_def)
    from service_step.Founding [OF this alone] show ?thesis
      unfolding view' 2(2) lobby_abs_new by blast
  qed
qed

lemma view_admit_refused: "admit C now en ctx req cd w = Some (Inl r, w') \<Longrightarrow> view w' = view w"
  using admit_refused(1) by (fastforce simp: view_def fun_eq_iff)

lemma moderation_locked_view:
  assumes "registry_inv C w" "moderation_locked m w s rnd = Inr w'"
  shows "\<exists>l. authorized_lobby w s = Inr l \<and>
    view w' = (view w)(ms_lobby_id s := Some (spec_moderate (generate_chat_token rnd) m (lobby_abs l)))"
proof -
  obtain l where l: "authorized_lobby w s = Inr l"
    using assms(2)
    by (cases m) (auto simp: moderation_locked_def kick_locked_def mute_locked_def transfer_locked_def
        options_locked_def split: sum.splits)
  have "view w' = (view w)(ms_lobby_id s := Some (spec_moderate (generate_chat_token rnd) m (lobby_abs l)))"
  proof (cases m)
    case (KickPlayer frm target)
    then obtain a b c d where "kick_locked w s rnd target = Inr (a, b, c, d, w')"
      using assms(2) by (auto simp: moderation_locked_def split: sum.splits)
    then show ?thesis using kick_view [OF l] view_same [OF kick_player_registry] KickPlayer by metis
  next
    case (MutePlayer frm target muted)
    then have "mute_locked w s target muted = Inr w'" using assms(2) by (simp add: moderation_locked_def)
    then show ?thesis using mute_view [OF assms(1) l] view_same [OF mute_player_registry] MutePlayer by metis
  next
    case (TransferHost frm target)
    then have "transfer_locked w s target = Inr w'" using assms(2) by (simp add: moderation_locked_def)
    then show ?thesis using transfer_view [OF l] view_same [OF transfer_host_registry] TransferHost by metis
  next
    case (SetLobbyOptions frm mx p d n)
    then obtain mx' p' where "options_locked w s mx p d n = Inr (mx', p', w')"
      using assms(2) by (auto simp: moderation_locked_def split: sum.splits)
    then show ?thesis using options_view [OF l] view_same [OF set_lobby_options_registry] SetLobbyOptions by metis
  qed (use assms(2) in \<open>simp_all add: moderation_locked_def\<close>)
  with l show ?thesis by blast
qed

lemma moderation_event:
  assumes "registry_inv C w" "moderation_locked m w s rnd = Inr w'"
  shows "service_step (ms_lobby_id s) (Moderates (ms_client_id s) m) (view w) (view w')"
proof -
  obtain l where l: "authorized_lobby w s = Inr l"
    "view w' = (view w)(ms_lobby_id s := Some (spec_moderate (generate_chat_token rnd) m (lobby_abs l)))"
    using moderation_locked_view [OF assms] by blast
  note a = authorized_lobby_Inr [OF l(1)]
  have inv: "lobby_inv C (ms_lobby_id s) l" by (rule registry_lobby [OF assms(1) a(1)])
  show ?thesis
    unfolding l(2) by (rule service_step.Moderating)
      (use a(1,2) inv in \<open>simp_all add: view_def lobby_abs_def lobby_inv_def\<close>)
qed

lemma departed_event:
  assumes "registry_inv C w" "departed w rnd c \<noteq> w"
  shows "\<exists>cid lid. co_client_id c = Some cid \<and> co_lobby_id c = Some lid \<and>
    service_step lid (Leaves cid) (view w) (view (departed w rnd c))"
proof -
  obtain cid lid d w1 where c: "co_client_id c = Some cid" "co_lobby_id c = Some lid"
    and d: "depart_locked w rnd cid lid (co_sender c) = Some (d, w1)"
    using assms(2) by (auto simp: departed_def split: option.splits prod.splits)
  obtain l cl where l: "hm_get (w_lobbies w) lid = Some l" "hm_get (lb_clients l) cid = Some cl"
    using depart_locked_Some [OF d] by metis
  have has: "hm_contains (lb_clients l) cid" using l(2) by (simp add: hm_contains_def)
  have "view w1 = (view w)(lid := spec_depart (generate_chat_token rnd) cid (hd (hm_keys (hm_remove cid (lb_clients l)))) (lobby_abs l))"
    by (rule depart_view [OF d l(1) has])
  moreover have "view w lid = Some (lobby_abs l)" using l(1) by (simp add: view_def)
  moreover have "cid \<in> v_members (lobby_abs l)" using has by (simp add: members_lobby_abs)
  ultimately have "service_step lid (Leaves cid) (view w) (view w1)"
    using service_step.Leaving [of "view w" lid "lobby_abs l" cid, OF _ _ depart_successor [OF has]] by simp
  with c departed_Some [OF c d] show ?thesis by auto
qed

lemma view_reordered:
  assumes "registry_inv C w" "reordered w w'"
  shows "view w' = view w"
proof (intro ext)
  fix lid
  have rel: "rel_option reordered_lobby (hm_get (w_lobbies w) lid) (hm_get (w_lobbies w') lid)"
    using assms(2) by (simp add: reordered_def)
  show "view w' lid = view w lid"
  proof (cases "hm_get (w_lobbies w) lid")
    case None
    with rel show ?thesis by (simp add: view_def)
  next
    case (Some l)
    then obtain l' where l': "hm_get (w_lobbies w') lid = Some l'" "reordered_lobby l l'"
      using rel by (auto simp: option_rel_Some1)
    have "hm_get (lb_clients l') = hm_get (lb_clients l)"
      by (rule reordered_lobby_inv(2) [OF l'(2) registry_lobby [OF assms(1) Some]])
    moreover obtain cs ms where "l' = l\<lparr>lb_clients := cs, lb_muted := ms\<rparr>" "mset ms = mset (lb_muted l)"
      using l'(2) unfolding reordered_lobby_def by metis
    moreover from this(2) have "set ms = set (lb_muted l)" by (metis set_mset_mset)
    ultimately have "lobby_abs l' = lobby_abs l" by (simp add: lobby_abs_def hm_contains_def)
    with Some l'(1) show ?thesis by (simp add: view_def)
  qed
qed

section \<open>Every step of the server\<close>

definition service_event_of :: "crypto \<Rightarrow> System \<Rightarrow> System \<Rightarrow> bool" where
  "service_event_of C y y' \<longleftrightarrow>
     (\<exists>lid e. service_step lid e (view (the_world y)) (view (the_world y')) \<and>
        (\<exists>t \<in> set (sy_tasks y). entitled C t lid e))"

lemma admit_step_event:
  assumes "registry_inv C (the_world y)" "t \<in> set (sy_tasks y)" "tk_phase t = Running"
    and "check_request C cfg (register_context (tk_conn t)) req = Inr cd"
    and "admit C now en (register_context (tk_conn t)) req cd (the_world y) = Some (r, w)"
  shows "view w = view (the_world y) \<or>
    (\<exists>lid e. service_step lid e (view (the_world y)) (view w) \<and> (\<exists>t \<in> set (sy_tasks y). entitled C t lid e))"
proof (cases r)
  case (Inl a)
  with assms(5) view_admit_refused show ?thesis by blast
next
  case (Inr cm)
  have "proves_identity C (tk_conn t) (cd_lobby_id cd) (cd_client_id cd)"
    using check_request_ok(1,3,5) [OF assms(4)]
    unfolding proves_identity_def register_context_def RegistrationContext.simps by blast
  then have "entitled C t (cd_lobby_id cd) (Founds (cd_client_id cd))"
    "entitled C t (cd_lobby_id cd) (Joins (cd_client_id cd))"
    using assms(3) by (simp_all add: entitled_def)
  with assms(2) admit_event [OF assms(1,4) assms(5) [unfolded Inr]] show ?thesis by blast
qed

lemma atomic_step_event:
  assumes "atomic_step S y y'" "registry_inv (h_crypto (si_host S)) (the_world y)"
  shows "view (the_world y') = view (the_world y) \<or> service_event_of (h_crypto (si_host S)) y y'"
  using assms
proof (induction rule: atomic_step.induct)
  case (Accept y addr)
  show ?case by (simp add: accept_connection_def the_world_def split: sum.splits prod.splits)
next
  case (Challenge k y hs lease sender rnd disconnect born now c w)
  then have "view w = view (the_world y)" using view_same [OF open_connection_new(1)] by blast
  then show ?case by (simp add: the_world_def with_world_def)
next
  case (Admit k y t req cd now en r w)
  then have "t \<in> set (sy_tasks y)" by simp
  with admit_step_event [OF Admit(6) _ Admit(3-5)] show ?case
    by (simp add: service_event_of_def with_task_def the_world_def with_world_def)
next
  case (Moderate k y t session m rnd w)
  let ?C = "h_crypto (si_host S)"
  have "entitled ?C t (ms_lobby_id session) (Moderates (ms_client_id session) m)"
    using Moderate(3,4) by (auto simp: entitled_def moderation_session_def split: if_splits option.splits)
  moreover have "t \<in> set (sy_tasks y)" using Moderate(1,2) by simp
  ultimately show ?case
    using moderation_event [OF Moderate(6,5)] unfolding service_event_of_def by fastforce
next
  case (Depart k y t rnd)
  let ?C = "h_crypto (si_host S)"
  show ?case
  proof (cases "departed (the_world y) rnd (tk_conn t) = the_world y")
    case False
    then obtain cid lid where "co_client_id (tk_conn t) = Some cid" "co_lobby_id (tk_conn t) = Some lid"
      "service_step lid (Leaves cid) (view (the_world y)) (view (departed (the_world y) rnd (tk_conn t)))"
      using departed_event [OF Depart(4)] by blast
    moreover from this have "entitled ?C t lid (Leaves cid)" using Depart(3) by (simp add: entitled_def)
    moreover have "t \<in> set (sy_tasks y)" using Depart(1,2) by simp
    ultimately show ?thesis unfolding service_event_of_def by fastforce
  qed simp
next
  case (Send y w)
  with view_same show ?case by simp
next
  case (Reorder y w)
  with view_reordered show ?case by simp
qed (simp_all add: the_world_def with_task_def)

end
