(* ===== verification/Connection_Timing.thy ===== *)
theory Connection_Timing
  imports Connection
begin

text \<open>
  The loop of a connection on a clock: what its deadlines do. An unregistered connection waits
  for its peer until the registration deadline, a registered one for the idle time from the start
  of each wait (\<open>handle_connection\<close> and the two waits at the top of the loop in
  \<open>src/src/connection.rs\<close>). A wait is over at once when something is there already, even after
  the deadline: the stream is asked before the timer.

  The network is a list of what will be ready at which time; how long a turn takes is part of
  each entry. After the last entry the peer stays silent.
\<close>

section \<open>The loop with its timers\<close>

record Arrival =
  ar_at :: instant
  ar_event :: Incoming
  ar_turn :: turn
  ar_takes :: nat

definition wait_limit :: "Conn \<Rightarrow> instant \<Rightarrow> instant \<Rightarrow> instant" where
  "wait_limit c deadline now =
     (if co_is_registered c then now + from_secs REGISTERED_IDLE_TIMEOUT_SECS else max now deadline)"

definition next_incoming :: "Conn \<Rightarrow> instant \<Rightarrow> instant \<Rightarrow> Arrival \<Rightarrow> instant \<times> Incoming" where
  "next_incoming c deadline now e =
     (if ar_at e \<le> wait_limit c deadline now then (max now (ar_at e), ar_event e)
      else (wait_limit c deadline now, TimedOut))"

text \<open>The number of turns, the time the loop is left, and the state then.\<close>

fun serve_timed ::
  "site \<Rightarrow> instant \<Rightarrow> instant \<Rightarrow> Server \<Rightarrow> Conn \<Rightarrow> Arrival list \<Rightarrow> (nat \<times> instant \<times> Conn \<times> Server) option" where
  "serve_timed S deadline now s c [] = Some (0, wait_limit c deadline now, c, s)"
| "serve_timed S deadline now s c (e # es) =
     (case next_incoming c deadline now e of
        (at, TimedOut) \<Rightarrow> Some (0, at, c, s)
      | (at, i) \<Rightarrow>
          Option.bind (handle_incoming S (ar_turn e) s c i) (\<lambda>(flow, c1, s1).
            if flow = Break then Some (1, at + ar_takes e, c1, s1)
            else map_option (\<lambda>(n, rest). (Suc n, rest))
                   (serve_timed S deadline (at + ar_takes e) s1 c1 es)))"

definition handle_timed_connection ::
  "site \<Rightarrow> instant \<Rightarrow> Server \<Rightarrow> Conn \<Rightarrow> Arrival list \<Rightarrow> bytes \<Rightarrow> (nat \<times> instant \<times> Conn \<times> Server) option" where
  "handle_timed_connection S now s c es rnd =
     map_option (\<lambda>(n, at, c1, s1).
         (n, at, c1, s1\<lparr>sv_world := cleanup (si_host S) (sv_world s1) rnd c1\<rparr>))
       (serve_timed S (now + from_secs REGISTRATION_TIMEOUT_SECS) now s c es)"

section \<open>A timed run is a run of the loop\<close>

lemma serve_timed_cases:
  assumes "serve_timed S deadline now s c (e # es) = Some (n, t, c', s')"
  obtains (timed_out) "wait_limit c deadline now < ar_at e" "n = 0" "t = wait_limit c deadline now" "c' = c" "s' = s"
    | (gone) "ar_event e = TimedOut" "ar_at e \<le> wait_limit c deadline now" "n = 0" "t = max now (ar_at e)"
      "c' = c" "s' = s"
    | (left) "ar_at e \<le> wait_limit c deadline now" "n = 1" "t = max now (ar_at e) + ar_takes e"
      "handle_incoming S (ar_turn e) s c (ar_event e) = Some (Break, c', s')"
    | (stayed) m c1 s1 where "ar_at e \<le> wait_limit c deadline now" "n = Suc m"
      "handle_incoming S (ar_turn e) s c (ar_event e) = Some (Continue, c1, s1)"
      "serve_timed S deadline (max now (ar_at e) + ar_takes e) s1 c1 es = Some (m, t, c', s')"
proof (cases "ar_at e \<le> wait_limit c deadline now")
  case False
  with assms show thesis by (intro timed_out) (auto simp: next_incoming_def)
next
  case True
  show thesis
  proof (cases "ar_event e = TimedOut")
    case timed: True
    with True assms show thesis by (intro gone) (auto simp: next_incoming_def)
  next
    case False
    then have "Option.bind (handle_incoming S (ar_turn e) s c (ar_event e)) (\<lambda>(flow, c1, s1).
        if flow = Break then Some (1, max now (ar_at e) + ar_takes e, c1, s1)
        else map_option (\<lambda>(n, rest). (Suc n, rest))
          (serve_timed S deadline (max now (ar_at e) + ar_takes e) s1 c1 es)) = Some (n, t, c', s')"
      using True assms by (cases "ar_event e") (simp_all add: next_incoming_def)
    then obtain flow c1 s1 where run: "handle_incoming S (ar_turn e) s c (ar_event e) = Some (flow, c1, s1)"
      and rest: "(if flow = Break then Some (1, max now (ar_at e) + ar_takes e, c1, s1)
        else map_option (\<lambda>(n, rest). (Suc n, rest))
          (serve_timed S deadline (max now (ar_at e) + ar_takes e) s1 c1 es)) = Some (n, t, c', s')"
      by (auto simp: Option.bind_eq_Some_conv)
    show thesis
    proof (cases flow)
      case Break
      with run rest True show thesis by (intro left) simp_all
    next
      case Continue
      with rest obtain m where "n = Suc m"
        "serve_timed S deadline (max now (ar_at e) + ar_takes e) s1 c1 es = Some (m, t, c', s')" by auto
      with run Continue True show thesis by (intro stayed) simp_all
    qed
  qed
qed

text \<open>The turns of a timed run are turns of the untimed loop, which then ends.\<close>

lemma serve_timed_run:
  "serve_timed S deadline now s c es = Some (n, t, c', s') \<Longrightarrow>
   \<exists>evs. serve S s c evs = Some (True, c', s') \<and> n \<le> length es \<and>
     take n evs = take n (map (\<lambda>e. (ar_turn e, ar_event e)) es)"
proof (induction es arbitrary: now s c n)
  case Nil
  then show ?case by (intro exI [of _ "[(undefined, TimedOut)]"]) (auto simp: handle_incoming_def)
next
  case (Cons e es)
  have timeout: "serve S s c [(T, TimedOut)] = Some (True, c, s)" for T by (simp add: handle_incoming_def)
  from Cons.prems show ?case
  proof (cases rule: serve_timed_cases)
    case (stayed m c1 s1)
    from Cons.IH [OF stayed(4)] obtain evs1 where evs1: "serve S s1 c1 evs1 = Some (True, c', s')" "m \<le> length es"
      "take m evs1 = take m (map (\<lambda>e. (ar_turn e, ar_event e)) es)" by blast
    then show ?thesis
      by (intro exI [of _ "(ar_turn e, ar_event e) # evs1"]) (simp add: stayed(2,3))
  next
    case left
    then show ?thesis by (intro exI [of _ "[(ar_turn e, ar_event e)]"]) simp
  qed (use timeout in fastforce)+
qed

section \<open>Totality\<close>

lemma dispatch_total_draws:
  assumes "random_session_generation (en_draws (tu_entropy T)) = Some g"
  shows "dispatch S T s c m \<noteq> None"
proof (cases "is_register_v3 m")
  case True
  have "on_register_v3 S T s c req \<noteq> None" for req
    using handle_v3_total [OF assms] by (fastforce simp: on_register_v3_def Let_def)
  with True show ?thesis by (cases m) (simp_all add: dispatch_def Let_def is_register_v3_def)
qed (rule dispatch_total)

lemma handle_incoming_total:
  assumes "random_session_generation (en_draws (tu_entropy T)) = Some g"
  shows "handle_incoming S T s c i \<noteq> None"
proof -
  have "handle_text S T s c raw \<noteq> None" for c raw
    using dispatch_total_draws [OF assms]
    by (simp add: handle_text_def Let_def split: sum.splits prod.splits ModerationDispatch.splits)
  then have "handle_frame S T s c msg \<noteq> None" for msg
    by (auto simp: handle_frame_def Let_def split: prod.splits WsMessage.splits)
  then show ?thesis by (cases i) (simp_all add: handle_incoming_def)
qed

lemma serve_timed_total:
  "(\<And>e. e \<in> set es \<Longrightarrow> random_session_generation (en_draws (tu_entropy (ar_turn e))) \<noteq> None) \<Longrightarrow>
   serve_timed S deadline now s c es \<noteq> None"
proof (induction es arbitrary: now s c)
  case (Cons e es)
  from Cons.prems obtain g where "random_session_generation (en_draws (tu_entropy (ar_turn e))) = Some g"
    by fastforce
  note total = handle_incoming_total [OF this]
  have rest: "serve_timed S deadline now s c es \<noteq> None" for now s c using Cons by simp
  have "Option.bind (handle_incoming S (ar_turn e) s c i) (\<lambda>(flow, c1, s1).
      if flow = Break then Some (1, at + ar_takes e, c1, s1)
      else map_option (\<lambda>(n, rest). (Suc n, rest)) (serve_timed S deadline (at + ar_takes e) s1 c1 es)) \<noteq> None"
    for i at
  proof -
    obtain flow c1 s1 where "handle_incoming S (ar_turn e) s c i = Some (flow, c1, s1)"
      using total by (metis not_None_eq prod_cases3)
    then show ?thesis using rest [of "at + ar_takes e" s1 c1] by auto
  qed
  then show ?case
    by (cases "next_incoming c deadline now e"; cases "snd (next_incoming c deadline now e)") simp_all
qed simp

section \<open>Bounds on the time of a connection\<close>

lemma registered_stays:
  "handle_incoming S T s c i = Some (flow, c', s') \<Longrightarrow> co_is_registered c \<Longrightarrow> co_is_registered c'"
  using serve_session [of S s c "[(T, i)]"] by (cases "flow = Break") (auto simp: same_session_def)

lemma timed_registered_stays:
  assumes "serve_timed S deadline now s c es = Some (n, t, c', s')" "co_is_registered c"
  shows "co_is_registered c'"
  using serve_timed_run [OF assms(1)] serve_session assms(2) by (fastforce simp: same_session_def)

lemma unregistered_bound:
  "serve_timed S deadline now s c es = Some (n, t, c', s') \<Longrightarrow> \<not> co_is_registered c' \<Longrightarrow>
   (\<And>e. e \<in> set es \<Longrightarrow> ar_takes e \<le> d) \<Longrightarrow> t \<le> max now deadline + n * d"
proof (induction es arbitrary: now s c n)
  case Nil
  then show ?case by (auto simp: wait_limit_def)
next
  case (Cons e es)
  have unreg: "\<not> co_is_registered c" using timed_registered_stays [OF Cons.prems(1)] Cons.prems(2) by blast
  then have limit: "wait_limit c deadline now = max now deadline" by (simp add: wait_limit_def)
  have d: "ar_takes e \<le> d" using Cons.prems(3) by simp
  from Cons.prems(1) show ?case
  proof (cases rule: serve_timed_cases)
    case (stayed m c1 s1)
    let ?now = "max now (ar_at e) + ar_takes e"
    have "t \<le> max ?now deadline + m * d"
      using Cons.IH [OF stayed(4) Cons.prems(2)] Cons.prems(3) by simp
    moreover have "max ?now deadline \<le> max now deadline + d" using stayed(1) d limit by (simp add: max_def split: if_splits)
    moreover have "n * d = d + m * d" using stayed(2) by simp
    ultimately show ?thesis by linarith
  qed (use limit d in simp_all)
qed

lemma silence_bound:
  "serve_timed S deadline now s c es = Some (n, t, c', s') \<Longrightarrow>
   (\<And>e. e \<in> set es \<Longrightarrow> ar_takes e \<le> d \<and> ar_at e \<le> z) \<Longrightarrow>
   t \<le> max deadline (max now z + n * d + from_secs REGISTERED_IDLE_TIMEOUT_SECS)"
proof (induction es arbitrary: now s c n)
  case Nil
  then show ?case by (auto simp: wait_limit_def)
next
  case (Cons e es)
  have d: "ar_takes e \<le> d" "ar_at e \<le> z" using Cons.prems(2) by simp_all
  from Cons.prems(1) show ?case
  proof (cases rule: serve_timed_cases)
    case timed_out
    then show ?thesis by (auto simp: wait_limit_def split: if_splits)
  next
    case (stayed m c1 s1)
    let ?now = "max now (ar_at e) + ar_takes e"
    have "t \<le> max deadline (max ?now z + m * d + from_secs REGISTERED_IDLE_TIMEOUT_SECS)"
      using Cons.IH [OF stayed(4)] Cons.prems(2) by simp
    moreover have "max ?now z \<le> max now z + d" using d by (simp add: max_def)
    moreover have "n * d = d + m * d" using stayed(2) by simp
    ultimately show ?thesis by linarith
  qed (use d in \<open>simp_all add: max_def\<close>)
qed

section \<open>Properties\<close>

text \<open>
  C34. A silent peer does not keep its connection. The loop always ends (given draws for a
  session generation), through turns of the untimed loop. A connection that never registers is
  over 15 seconds after its challenge, however long its peer goes on sending, but for the turns
  it is given meanwhile; any connection is over 60 seconds after the last of its peer's frames
  has been handled, or at its registration deadline. \<open>n\<close> is the number of turns, each of at most
  \<open>d\<close>, and \<open>z\<close> a time after which nothing arrives.
\<close>

theorem silent_connection_ends:
  assumes "\<forall>e \<in> set es. random_session_generation (en_draws (tu_entropy (ar_turn e))) \<noteq> None"
    and "\<forall>e \<in> set es. ar_takes e \<le> d \<and> ar_at e \<le> z"
  shows "\<exists>n t c' s1 evs. handle_timed_connection S now s c es rnd =
      Some (n, t, c', s1\<lparr>sv_world := cleanup (si_host S) (sv_world s1) rnd c'\<rparr>) \<and>
    serve S s c evs = Some (True, c', s1) \<and> n \<le> length es \<and>
    take n evs = take n (map (\<lambda>e. (ar_turn e, ar_event e)) es) \<and>
    (\<not> co_is_registered c' \<longrightarrow> t \<le> now + 15 * 1000000000 + n * d) \<and>
    t \<le> max (now + 15 * 1000000000) (max now z + n * d + 60 * 1000000000)"
proof -
  let ?deadline = "now + from_secs REGISTRATION_TIMEOUT_SECS"
  obtain n t c' s1 where run: "serve_timed S ?deadline now s c es = Some (n, t, c', s1)"
    using serve_timed_total [of es S ?deadline now s c] assms(1) by (metis not_None_eq prod_cases4)
  moreover obtain evs where "serve S s c evs = Some (True, c', s1)" "n \<le> length es"
    "take n evs = take n (map (\<lambda>e. (ar_turn e, ar_event e)) es)"
    using serve_timed_run [OF run] by blast
  moreover have "\<not> co_is_registered c' \<Longrightarrow> t \<le> now + 15 * 1000000000 + n * d"
    using unregistered_bound [OF run, of d] assms(2) by (simp add: config_simps from_secs_def)
  moreover have "t \<le> max (now + 15 * 1000000000) (max now z + n * d + 60 * 1000000000)"
    using silence_bound [OF run, of d z] assms(2) by (simp add: config_simps from_secs_def)
  ultimately show ?thesis by (auto simp: handle_timed_connection_def)
qed

text \<open>An unregistered client pings once and then stays silent.\<close>

definition demo_arrival :: Arrival where
  "demo_arrival = \<lparr>ar_at = 5, ar_event = Received (Text (str ''ping'')), ar_turn = demo_turn, ar_takes = 2\<rparr>"

theorem silent_connection_ends_witness:
  "\<exists>n t c' s'. handle_timed_connection demo_site 0 (demo_server demo_two)
      (demo_conn ''k2'' 2\<lparr>co_is_registered := False\<rparr>) [demo_arrival] [9] = Some (n, t, c', s') \<and>
    n \<le> 1 \<and> t \<le> 60000000009"
proof -
  have "random_session_generation (en_draws (tu_entropy (ar_turn demo_arrival))) \<noteq> None" by code_simp
  moreover have "ar_takes demo_arrival = 2" "ar_at demo_arrival = 5" by (simp_all add: demo_arrival_def)
  ultimately show ?thesis
    using silent_connection_ends [of "[demo_arrival]" 2 5 demo_site 0 "demo_server demo_two"
        "demo_conn ''k2'' 2\<lparr>co_is_registered := False\<rparr>" "[9]"] by fastforce
qed

end
