(* ===== verification/Spec2Isabelle.thy ===== *)
theory Spec2Isabelle
  imports Turn_Simulation Lobby_Service Connection_Timing
begin

text \<open>
  A verification of the MCTier signalling server, the Rust program under \<open>src/src/\<close>. The server
  accepts WebSocket connections; a client answers a challenge with a signature, registers in a
  lobby identified by the hash of its name, and from then on exchanges signalling messages
  (WebRTC offers and candidates, screen and file sharing, remote control) with the members of
  that lobby only. The founder of a lobby hosts it and may kick, mute, transfer the host role and
  set options. Beside the lobbies the server keeps a public table of user-submitted nodes, which
  it probes, sweeps and saves to a file.

  \<^bold>\<open>Parts and theories.\<close>

  \<^item> \<open>Sig_Prelude\<close>, \<open>Hash_Map\<close>, \<open>Rust_Str\<close>: what the source uses of the standard library. Machine
    integers are words (\<open>u16\<close>, \<open>u32\<close>, \<open>u64\<close>, \<open>u128\<close>) with the saturating operations written out; a
    \<open>HashMap\<close> is an association list with distinct keys whose order stands for the unspecified
    iteration order (contract: locale \<open>hash_map\<close>); a string is its list of code points, its length
    the number of UTF-8 bytes. \<open>step_system\<close> is the locale of transition systems with an
    invariant.
  \<^item> \<open>Ip_Addr\<close>: IPv4 and IPv6 addresses, their parsers and the printer of dotted addresses.
  \<^item> \<open>Config_Limits\<close>: the constants and \<open>ServerConfig::from_env\<close> of \<open>config.rs\<close>, the constants of
    \<open>community_nodes.rs\<close>.
  \<^item> \<open>Security_Primitives\<close>: \<open>security.rs\<close>. SHA-256, base64, P-256 and the random source are
    parameters (record \<open>crypto\<close>, byte and draw lists).
  \<^item> \<open>Connection_Guard\<close>: \<open>connection_guard.rs\<close>, the pools of leases behind the connection limits
    and the determination of the client's source behind trusted proxies (locale \<open>lease_pool\<close>).
  \<^item> \<open>Wire_Messages\<close>, \<open>Wire_Json\<close>, \<open>Wire_Protocol\<close>, \<open>Wire_Codec\<close>: \<open>protocol.rs\<close>, the messages, the
    JSON value each serialises to, the shape check and the claimed sender. The JSON printer and
    reader of \<open>serde_json\<close> are a parameter (record \<open>serde\<close>); \<open>serde_law\<close> is what the server relies
    on: a value with unicode strings, integers in range and at most 127 levels reads back with the
    fields of its objects sorted.
  \<^item> \<open>Rate_Windows\<close>, \<open>Lobby_State\<close>: \<open>state.rs\<close>, the fixed-window limiters (locale
    \<open>window_limiter\<close>), the members and lobbies, the table of password failures.
  \<^item> \<open>Transport\<close>: \<open>transport.rs\<close>. The shared state is the record \<open>World\<close>; a socket is a number, and
    \<open>w_wire\<close> logs what was handed to which socket and whether the write succeeded; the network's
    answers are a parameter of \<open>host\<close>.
  \<^item> \<open>Registry\<close>: the invariant of lobbies and reverse map and the edits that keep it.
  \<^item> \<open>Registration\<close>: \<open>registration.rs\<close>; \<open>Moderation\<close>: \<open>moderation.rs\<close>. Both split an operation where
    the code releases the lock: a locked section, then the notifications.
  \<^item> \<open>Node_Address\<close>, \<open>Community_Nodes\<close>: \<open>community_nodes.rs\<close>, node addresses and their normal form,
    the probe with its address filter, the table, its file, the sweep and the submission. DNS,
    sockets, disk and clocks are parameters (\<open>prober\<close>, \<open>disk\<close>, \<open>submit_clock\<close>), so is the JSON of the
    file (\<open>node_codec\<close>); what other tasks do while a probe runs is the parameter \<open>during\<close>.
  \<^item> \<open>Routing\<close>, \<open>Connection\<close>: \<open>connection.rs\<close>, one definition per message branch, the dispatch, one
    turn of the loop, the loop, the cleanup.
  \<^item> \<open>Connection_Timing\<close>: the same loop on a clock, with the registration and idle deadlines.
  \<^item> \<open>Server\<close>: \<open>main.rs\<close> and the life of a connection from accept to its end, with the leases it
    holds.
  \<^item> \<open>Interleaving\<close>: all connections together, as steps of whole turns (\<open>system_step\<close>) and as steps
    of what the code does under one lock (\<open>atomic_step\<close>); the invariant of the whole server.
    \<open>Turn_Simulation\<close>: whole turns are runs of atomic steps.
  \<^item> \<open>Lobby_Service\<close>: the abstract service the server refines, on the views of its lobbies.

  \<^bold>\<open>What is shown.\<close> This theory: the invariants of the whole server (no ghost members,
  capacity) and its refinement of the abstract lobby service. \<open>Connection_Guard\<close>: lease accounting, recovery, no spoofed sources. \<open>Registration\<close>: only an
  authenticated client is admitted, passwords protect lobbies, capacity, takeover by the same
  identity, which frame reaches which session, and who is admitted, decided exactly. \<open>Moderation\<close>: only the host's
  current session moderates; the actions refine their abstract meaning. \<open>Transport\<close>, \<open>Connection\<close>:
  isolation of lobbies, powerless unregistered and superseded connections, departures,
  confinement of chat tokens. \<open>Connection_Timing\<close>: a silent peer
  loses its connection in bounded time. \<open>Rate_Windows\<close>, \<open>Lobby_State\<close>: bounds of limiters and failure table.
  \<open>Node_Address\<close>, \<open>Community_Nodes\<close>: the probe filter measured against the special-purpose
  registries, with the blocks it lets through; normal forms; atomic persistence and what exactly a
  reload gives; bounded tables; cooldown, submission and sweep with other tasks at work while they
  probe; the order of the list.

  \<^bold>\<open>Bounds and fuel.\<close> \<open>random_session_generation\<close> retries until a draw lies in its range; it runs
  over a finite list of draws and \<open>None\<close> means that all were rejected (one acceptable draw is
  enough for a result). \<open>serve\<close> runs over the finite list of what arrives. \<open>usize\<close> is 64 bits wide.
  Times are natural numbers (\<open>instant\<close>) or \<open>u64\<close> seconds as in the code.

  \<^bold>\<open>Granularity.\<close> The invariants of this theory are for \<open>atomic_step\<close>: the admission of a member, a
  moderation action and a departure are each one locked section; writes to sockets, the recording
  of a session in its connection, the end of a loop and changes of the node table may come
  anywhere in between. The pieces of an upgrade are steps too: charging the pending lease,
  taking the active one, giving each back, and opening the connection with its challenge. A step
  may write more than the code would (\<open>Send\<close> and \<open>Nodes\<close> allow any writes and any node table),
  which only makes the invariants stronger. The statements about single operations are for arbitrary states.

  \<^bold>\<open>Not modelled.\<close> The WebSocket and TLS layers, the \<open>tokio\<close> runtime (in the server as a
  whole a deadline is an event that may occur; \<open>Connection_Timing\<close> has the clock for one
  connection), logging, the process' listening socket and the tests: they are libraries
  the sources call or have no state of the server's own. The periodic timer of the
  sweeper is the freedom to take a sweep step.
\<close>

section \<open>Properties of the whole server\<close>

text \<open>
  C1. The server keeps no ghosts. In every state it reaches from its start, however the locked
  sections, writes, recordings of sessions, departures and releases of all connections interleave:
  each lobby is filed under the hash of its name, has 1 to 64 members, its
  host is an unmuted member, only members are muted, a listed lobby has the empty password; each
  member is mapped to this lobby alone, shares its virtual IP with nobody, and is held by exactly
  one connection task that has not departed, with the same client, lobby, session generation and
  socket.
\<close>

theorem server_serves_members:
  assumes "start_system S files now = Some y0" "(atomic_step S)\<^sup>*\<^sup>* y0 y"
    and "hm_get (w_lobbies (the_world y)) lid = Some l"
  shows "lid = generate_lobby_id (h_crypto (si_host S)) (lb_lobby_name l) \<and>
    1 \<le> hm_len (lb_clients l) \<and> hm_len (lb_clients l) \<le> 64 \<and>
    hm_contains (lb_clients l) (lb_host_id l) \<and> lb_host_id l \<notin> set (lb_muted l) \<and>
    set (lb_muted l) \<subseteq> set (hm_keys (lb_clients l)) \<and>
    (lb_is_public l \<longrightarrow>
       lb_password_hash l = hash_lobby_password (h_crypto (si_host S)) (lb_password_salt l) []) \<and>
    (\<forall>cid cl. hm_get (lb_clients l) cid = Some cl \<longrightarrow>
       hm_get (w_client_lobby_map (the_world y)) cid = Some lid \<and>
       (\<exists>!t. t \<in> set (sy_tasks y) \<and> holds t lid cid cl) \<and>
       (\<forall>other d. hm_get (lb_clients l) other = Some d \<and> ci_virtual_ip d = ci_virtual_ip cl \<longrightarrow>
          other = cid))"
proof -
  let ?w = "the_world y"
  have inv: "system_inv S (sy_admission y0) y"
    by (rule atomic.reachable_inv [OF _ assms(2)]) (use assms(1) in blast)
  then have reg: "registry_inv (h_crypto (si_host S)) ?w" and tasks: "tasks_inv y"
    by (simp_all add: system_inv_def)
  note l = registry_lobby [OF reg assms(3)]
  have "hm_get (w_client_lobby_map ?w) cid = Some lid \<and>
       (\<exists>!t. t \<in> set (sy_tasks y) \<and> holds t lid cid cl) \<and>
       (\<forall>other d. hm_get (lb_clients l) other = Some d \<and> ci_virtual_ip d = ci_virtual_ip cl \<longrightarrow>
          other = cid)" if "hm_get (lb_clients l) cid = Some cl" for cid cl
  proof (intro conjI)
    have m: "lobby_client ?w lid cid = Some cl" using that assms(3) by (simp add: lobby_client_def)
    then show "hm_get (w_client_lobby_map ?w) cid = Some lid" using reg by (simp add: registry_inv_def)
    show "\<exists>!t. t \<in> set (sy_tasks y) \<and> holds t lid cid cl"
      using tasks m holding_task_unique [OF tasks] unfolding tasks_inv_def by blast
    show "\<forall>other d. hm_get (lb_clients l) other = Some d \<and> ci_virtual_ip d = ci_virtual_ip cl \<longrightarrow> other = cid"
      using l that unfolding lobby_inv_def clients_inv_def by metis
  qed
  moreover have "hm_wf (lb_clients l)" using l by (simp add: lobby_inv_def clients_inv_def)
  ultimately show ?thesis
    using l by (auto simp: lobby_inv_def password_inv_def config_simps hm_contains_iff)
qed

text \<open>
  C2. Capacity holds end to end. In every reachable state the served connections and the
  handshakes already admitted are within the configured maximum together, the connections still
  in their handshake within 128, and with a per-source limit configured no source holds more
  connections than it allows (nor all slots of a larger server), admitted handshakes included.
  No piece of a handshake and no end of a connection can panic on a lease counter, whatever has
  happened between the pieces.
\<close>

theorem server_capacity:
  assumes "start_system S files now = Some y0" "(atomic_step S)\<^sup>*\<^sup>* y0 y"
  shows "length (sy_tasks y) + length (filter (\<lambda>hs. hs_active hs \<noteq> None) (sy_handshakes y)) \<le>
      max (max_connections (si_config S)) 1 \<and>
    length (sy_pending y) + length (filter (\<lambda>hs. hs_pending hs \<noteq> None) (sy_handshakes y)) \<le> 128 \<and>
    (\<forall>limit ip. max_connections_per_source (si_config S) = Some limit \<longrightarrow>
       length (filter (\<lambda>t. quota_source (fst (co_source (tk_conn t))) = ip) (sy_tasks y)) +
       length (filter (\<lambda>hs. hs_active hs \<noteq> None \<and> quota_source (fst (hs_source hs)) = ip) (sy_handshakes y)) \<le>
         min (max limit 1) (max (max_connections (si_config S) - 1) 1)) \<and>
    (\<forall>k < length (sy_pending y).
       classify (sy_admission y) (fst (sy_pending y ! k)) (snd (sy_pending y ! k)) headers \<noteq> None \<and>
       upgrade_connection h k request rnd sender disconnect born t y \<noteq> None) \<and>
    (\<forall>k < length (sy_handshakes y).
       drop_pending (hs_pending (sy_handshakes y ! k)) (sy_admission y) \<noteq> None \<and>
       drop_slot (hs_active (sy_handshakes y ! k)) (sy_admission y) \<noteq> None) \<and>
    (\<forall>k < length (sy_tasks y). finish_connection h rnd k y \<noteq> None)"
proof -
  let ?cfg = "si_config S"
  have inv: "admission_inv (sy_admission y0) y"
    using atomic.reachable_inv [OF _ assms(2), of "sy_admission y0"] assms(1)
    unfolding system_inv_def by blast
  have a0: "pool_limit (active_pool (sy_admission y0)) = max (max_connections ?cfg) 1"
    "pool_limit (pending_pool (sy_admission y0)) \<le> 128"
    "pool_source_limit (active_pool (sy_admission y0)) =
       map_option (\<lambda>limit. min (max limit 1) (max (max_connections ?cfg - 1) 1)) (max_connections_per_source ?cfg)"
    using assms(1) by (auto simp: start_system_def admission_def admission_new_def new_pool_def clamp_def)
  have "length (sy_tasks y) + length (filter (\<lambda>hs. hs_active hs \<noteq> None) (sy_handshakes y)) \<le>
      max (max_connections ?cfg) 1"
    using capacity_bound(1) [OF inv] a0(1) by simp
  moreover have "length (sy_pending y) + length (filter (\<lambda>hs. hs_pending hs \<noteq> None) (sy_handshakes y)) \<le> 128"
    using capacity_bound(2) [OF inv] a0(2) by (rule le_trans)
  moreover have "length (filter (\<lambda>t. quota_source (fst (co_source (tk_conn t))) = ip) (sy_tasks y)) +
       length (filter (\<lambda>hs. hs_active hs \<noteq> None \<and> quota_source (fst (hs_source hs)) = ip) (sy_handshakes y)) \<le>
         min (max limit 1) (max (max_connections ?cfg - 1) 1)"
    if "max_connections_per_source ?cfg = Some limit" for limit ip
    by (rule source_bound [OF inv]) (simp add: a0(3) that)
  moreover have "finish_connection h rnd k y \<noteq> None" if "k < length (sy_tasks y)" for k
    using finish_admission [OF inv that] by auto
  ultimately show ?thesis using handshake_total [OF inv] upgrade_total [OF inv] by blast
qed

text \<open>
  C3. The server refines an abstract lobby service. It starts without lobbies, and whatever the
  interleaving, every atomic step either leaves the views of all lobbies as they are or founds
  one lobby, lets one client join one, lets one member leave, or applies one action of the host,
  exactly as the abstract service says; and the event is caused by a connection entitled to it:
  an unregistered one that has signed its own challenge as that client, a closing one of that
  member, or a registered one of the host.
\<close>

theorem server_refines_service:
  assumes "start_system S files now = Some y0" "(atomic_step S)\<^sup>*\<^sup>* y0 y" "atomic_step S y y'"
  shows "view (the_world y0) = (\<lambda>_. None) \<and>
    (view (the_world y') = view (the_world y) \<or>
     (\<exists>lid e. service_step lid e (view (the_world y)) (view (the_world y')) \<and>
        (\<exists>t \<in> set (sy_tasks y). entitled (h_crypto (si_host S)) t lid e)))"
proof
  have "system_inv S (sy_admission y0) y"
    by (rule atomic.reachable_inv [OF _ assms(2)]) (use assms(1) in blast)
  then have "registry_inv (h_crypto (si_host S)) (the_world y)" by (simp add: system_inv_def)
  from atomic_step_event [OF assms(3) this] show "view (the_world y') = view (the_world y) \<or>
     (\<exists>lid e. service_step lid e (view (the_world y)) (view (the_world y')) \<and>
        (\<exists>t \<in> set (sy_tasks y). entitled (h_crypto (si_host S)) t lid e))"
    by (simp add: service_event_of_def)
  show "view (the_world y0) = (\<lambda>_. None)"
    using assms(1) by (auto simp: start_system_def start_server_def the_world_def view_def hm_get_def)
qed

text \<open>
  C4. Handling a frame to its end before another task moves is one of the schedules the locks
  allow: every step of whole turns is a run of atomic steps, and it changes the registry in at
  most one locked section. What holds for every interleaving therefore holds for whole turns.
\<close>

theorem turns_refine_locks:
  assumes "system_step S y y'"
  shows "(atomic_step S)\<^sup>*\<^sup>* y y' \<and>
    (\<exists>w. one_section (h_crypto (si_host S)) (the_world y) w \<and> same_registry w (the_world y'))"
proof
  show "(atomic_step S)\<^sup>*\<^sup>* y y'" using assms by (rule step_simulated)
  show "\<exists>w. one_section (h_crypto (si_host S)) (the_world y) w \<and> same_registry w (the_world y')"
    using assms by (rule step_one_section)
qed

section \<open>A concrete run\<close>

text \<open>
  A site whose parser reads every text as the same registration: one client connects, upgrades
  and registers.
\<close>

definition demo_register :: SignalingMessage where
  "demo_register =
     RegisterV3 None 3 (str ''k1'') (str ''k1'') (str ''p'') (Some (str ''10.126.126.1'')) (str ''L'')
       (str ''pw'') (Some (str ''3.9.0'')) None None"

definition demo_system_site :: site where
  "demo_system_site = demo_site\<lparr>si_parse := (\<lambda>_. Inr demo_register)\<rparr>"

definition demo_start :: System where
  "demo_start = the (start_system demo_system_site [] 8)"

definition demo_accepted :: System where
  "demo_accepted = accept_connection (V4 1, 2) demo_start"

definition demo_upgraded :: "System option" where
  "demo_upgraded = upgrade_connection demo_host 0 (Some (\<lambda>_. [], True)) [5] 1 1 0 0 demo_accepted"

definition demo_registered :: "System option" where
  "demo_registered = Option.bind demo_upgraded
     (serve_turn demo_system_site demo_turn (Received (Text [])) 0)"

lemma demo_start_Some: "start_system demo_system_site [] 8 = Some demo_start"
proof -
  have "is_some_and (start_system demo_system_site [] 8) (\<lambda>_. True)" by code_simp
  then show ?thesis by (auto simp: demo_start_def is_some_and_def split: option.splits)
qed

lemma demo_run:
  obtains y1 y2 where "(system_step demo_system_site)\<^sup>*\<^sup>* demo_start y1" "demo_upgraded = Some y1"
    "length (sy_tasks y1) = 1" "tk_phase (sy_tasks y1 ! 0) = Running" "system_step demo_system_site y1 y2" "(system_step demo_system_site)\<^sup>*\<^sup>* demo_start y2"
    "demo_registered = Some y2"
proof -
  have "length (sy_pending demo_accepted) = 1" "(co_sender \<circ> tk_conn) ` set (sy_tasks demo_accepted) = {}"
    by code_simp+
  then have acc: "0 < length (sy_pending demo_accepted)"
    "1 \<notin> (co_sender \<circ> tk_conn) ` set (sy_tasks demo_accepted)" by simp_all
  have host: "si_host demo_system_site = demo_host" by (simp add: demo_system_site_def demo_site_def)
  have "is_some_and demo_upgraded (\<lambda>y. map tk_phase (sy_tasks y) = [Running])" by code_simp
  then obtain y1 where y1: "demo_upgraded = Some y1" "map tk_phase (sy_tasks y1) = [Running]"
    by (auto simp: is_some_and_def split: option.splits)
  have "system_step demo_system_site demo_start demo_accepted"
    unfolding demo_accepted_def by (rule system_step.Accept)
  moreover have "system_step demo_system_site demo_accepted y1"
    by (rule system_step.Upgrade [OF acc]) (use y1(1) in \<open>simp add: demo_upgraded_def host\<close>)
  ultimately have r1: "(system_step demo_system_site)\<^sup>*\<^sup>* demo_start y1" by simp
  have len: "length (sy_tasks y1) = 1" using arg_cong [OF y1(2), of length] by simp
  have "is_some_and demo_registered (\<lambda>_. True)" by code_simp
  then obtain y2 where y2: "demo_registered = Some y2" by (auto simp: is_some_and_def split: option.splits)
  have step: "system_step demo_system_site y1 y2"
  proof (rule system_step.Turn)
    show "0 < length (sy_tasks y1)" "tk_phase (sy_tasks y1 ! 0) = Running" using y1(2) len by (auto simp: map_eq_Cons_conv)
    show "serve_turn demo_system_site demo_turn (Received (Text [])) 0 y1 = Some y2"
      using y2 unfolding demo_registered_def y1(1) by simp
  qed
  with r1 have "(system_step demo_system_site)\<^sup>*\<^sup>* demo_start y2" by simp
  moreover have "tk_phase (sy_tasks y1 ! 0) = Running" using y1(2) len by (auto simp: map_eq_Cons_conv)
  ultimately show thesis using that r1 y1(1) len step y2 by blast
qed

theorem server_serves_members_witness:
  "\<exists>y lid l t. (atomic_step demo_system_site)\<^sup>*\<^sup>* demo_start y \<and>
     hm_get (w_lobbies (the_world y)) lid = Some l \<and> hm_len (lb_clients l) \<le> 64 \<and>
     t \<in> set (sy_tasks y) \<and> co_client_id (session_of t) = Some (lb_host_id l) \<and>
     co_lobby_id (session_of t) = Some lid"
proof -
  obtain y where y: "(system_step demo_system_site)\<^sup>*\<^sup>* demo_start y" "demo_registered = Some y"
    by (rule demo_run)
  note y1 = run_simulated [OF y(1)]
  let ?lid = "generate_lobby_id demo_crypto (str ''L'')"
  have "is_some_and demo_registered (\<lambda>y. hm_contains (w_lobbies (the_world y)) ?lid)" by code_simp
  then obtain l where l: "hm_get (w_lobbies (the_world y)) ?lid = Some l"
    unfolding y(2) by (auto simp: is_some_and_def hm_contains_def)
  note f = server_serves_members [OF demo_start_Some y1 l]
  from f obtain cl where "hm_get (lb_clients l) (lb_host_id l) = Some cl" by (auto simp: hm_contains_def)
  with f obtain t where "t \<in> set (sy_tasks y)" "holds t ?lid (lb_host_id l) cl" by blast
  with y1 l f show ?thesis unfolding holds_def serves_def by blast
qed

theorem server_capacity_witness:
  "\<exists>y y'. (atomic_step demo_system_site)\<^sup>*\<^sup>* demo_start y \<and> length (sy_tasks y) = 1 \<and>
     length (sy_pending y) \<le> 128 \<and> finish_connection demo_host [9] 0 y = Some y'"
proof -
  obtain y where y: "(system_step demo_system_site)\<^sup>*\<^sup>* demo_start y" "length (sy_tasks y) = 1"
    by (rule demo_run)
  note y1 = run_simulated [OF y(1)]
  note f = server_capacity [OF demo_start_Some y1, of "\<lambda>_. []" demo_host None "[9]" 0 0 0 0]
  then have "finish_connection demo_host [9] 0 y \<noteq> None" "length (sy_pending y) \<le> 128" using y(2) by simp_all
  with y y1 show ?thesis by auto
qed

definition demo_registration :: RegistrationRequest where
  "demo_registration = demo_request ''k1'' ''10.126.126.1'' ''pw''"

definition demo_checked :: "System \<Rightarrow> Candidate option" where
  "demo_checked y = (case check_request demo_crypto demo_cfg (register_context (tk_conn (sy_tasks y ! 0)))
     demo_registration of Inl _ \<Rightarrow> None | Inr cd \<Rightarrow> Some cd)"

definition demo_founded :: "System \<Rightarrow> Candidate \<Rightarrow> ((refusal + Commit) \<times> World) option" where
  "demo_founded y cd = admit demo_crypto 0 demo_entropy (register_context (tk_conn (sy_tasks y ! 0)))
     demo_registration cd (the_world y)"

lemma demo_founding:
  "is_some_and demo_upgraded (\<lambda>y. hm_len (w_lobbies (the_world y)) = 0 \<and>
     is_some_and (demo_checked y) (\<lambda>cd. is_some_and (demo_founded y cd)
       (\<lambda>(r, w). hm_contains (w_lobbies w) (generate_lobby_id demo_crypto (str ''L'')))))"
  by code_simp

theorem server_refines_service_witness:
  "\<exists>y w lid e. demo_upgraded = Some y \<and> service_step lid e (\<lambda>_. None) (view w) \<and> view w \<noteq> (\<lambda>_. None) \<and>
     entitled demo_crypto (sy_tasks y ! 0) lid e"
proof -
  let ?S = demo_system_site
  have site: "h_crypto (si_host ?S) = demo_crypto" "si_config ?S = demo_cfg"
    by (simp_all add: demo_system_site_def demo_site_def demo_host_def)
  obtain y where y: "(system_step ?S)\<^sup>*\<^sup>* demo_start y" "demo_upgraded = Some y" "length (sy_tasks y) = 1"
    "tk_phase (sy_tasks y ! 0) = Running" by (rule demo_run)
  note run = run_simulated [OF y(1)]
  obtain cd r w where empty: "hm_len (w_lobbies (the_world y)) = 0" and "demo_checked y = Some cd"
    and adm: "demo_founded y cd = Some (r, w)"
    and new: "hm_contains (w_lobbies w) (generate_lobby_id demo_crypto (str ''L''))"
    using demo_founding unfolding y(2) by (auto simp: is_some_and_def split: option.splits)
  then have chk: "check_request demo_crypto demo_cfg (register_context (tk_conn (sy_tasks y ! 0)))
      demo_registration = Inr cd" by (simp add: demo_checked_def split: sum.splits)
  let ?y' = "with_task 0 ((sy_tasks y ! 0)\<lparr>tk_phase := case r of Inl _ \<Rightarrow> Running
      | Inr cm \<Rightarrow> Enrolling (cm_session cm)\<rparr>) (with_world w y)"
  have step: "atomic_step ?S y ?y'"
    by (rule atomic_step.Admit) (use y(3,4) chk adm in \<open>simp_all add: site demo_founded_def\<close>)
  have v: "view (the_world y) = (\<lambda>_. None)"
    using empty by (simp add: fun_eq_iff view_def hm_get_def hm_len_def)
  have "view w \<noteq> (\<lambda>_. None)" using new by (auto simp: view_def hm_contains_def fun_eq_iff)
  moreover have "set (sy_tasks y) = {sy_tasks y ! 0}" using y(3) by (cases "sy_tasks y") auto
  ultimately show ?thesis
    using server_refines_service [OF demo_start_Some run step] v y(2) unfolding site by auto
qed

theorem turns_refine_locks_witness:
  "\<exists>y1 y2. demo_registered = Some y2 \<and> demo_upgraded = Some y1 \<and>
     (atomic_step demo_system_site)\<^sup>*\<^sup>* y1 y2"
proof -
  obtain y1 y2 where "demo_upgraded = Some y1" "system_step demo_system_site y1 y2" "demo_registered = Some y2"
    by (rule demo_run)
  with turns_refine_locks show ?thesis by blast
qed

end
